(* ===== verification/Prelude.thy ===== *)
theory Prelude
  imports Main "HOL-Library.Word"
begin

unbundle bit_operations_syntax

text \<open>
  Shared ground of the development: the machine types of the Go and C sources, the byte order
  functions of \<^verbatim>\<open>encoding/binary\<close>, the fact collections the component theories fill, and the
  generic lemmas on lists, maps and words that more than one component needs.

  Go's \<^verbatim>\<open>int\<close> is modelled as \<open>int\<close> where a value can be the sentinel \<open>-1\<close> (a pool index) or
  may be negative in an input; the values that occur stay far below \<open>2 ^ 63\<close>. The fixed-width
  unsigned types keep their width.
\<close>

section \<open>Machine types\<close>

type_synonym u8 = "8 word"
type_synonym u16 = "16 word"
type_synonym u32 = "32 word"
type_synonym u64 = "64 word"
type_synonym bytes = "u8 list"

text \<open>A point of Go's monotonic clock, and a duration, in nanoseconds.\<close>

type_synonym time = int

section \<open>Fact collections\<close>

named_theorems pool_simps \<open>how the chunk pool operations act on the pool's observers\<close>
named_theorems slot_simps \<open>how the fragment slot operations act on the slots' observers\<close>
named_theorems inv_intros \<open>operations preserve their component's invariant\<close>

section \<open>Lists\<close>

lemma nth_mem_filter:
  "i < length xs \<Longrightarrow> P (xs ! i) \<Longrightarrow> xs ! i \<in> set (filter P xs)"
  by simp

lemma set_update_cases:
  "y \<in> set (xs[i := x]) \<Longrightarrow> y = x \<or> y \<in> set xs"
  by (meson insertE set_update_subset_insert subsetD)

lemma filter_split_at:
  assumes "i < length xs"
  shows "filter P xs = filter P (take i xs) @ (if P (xs ! i) then [xs ! i] else []) @ filter P (drop (Suc i) xs)"
proof -
  have "filter P (take i xs @ xs ! i # drop (Suc i) xs) =
      filter P (take i xs) @ (if P (xs ! i) then [xs ! i] else []) @ filter P (drop (Suc i) xs)"
    by simp
  then show ?thesis
    using assms by (simp add: id_take_nth_drop [symmetric])
qed

lemma filter_update_split:
  assumes "i < length xs"
  shows "filter P (xs[i := y]) = filter P (take i xs) @ (if P y then [y] else []) @ filter P (drop (Suc i) xs)"
  using assms by (simp add: upd_conv_take_nth_drop)

text \<open>Overwriting an entry that the filter rejects, by one it keeps.\<close>

lemma set_filter_update_fresh:
  assumes "i < length xs" and "\<not> P (xs ! i)" and "P y"
  shows "set (filter P (xs[i := y])) = insert y (set (filter P xs))"
  using assms(2,3) unfolding filter_split_at [OF assms(1), of P] filter_update_split [OF assms(1), of P]
  by auto

lemma distinct_filter_update_fresh:
  assumes "i < length xs" and "\<not> P (xs ! i)" and "P y"
    and "distinct (filter P xs)" and "y \<notin> set (filter P xs)"
  shows "distinct (filter P (xs[i := y]))"
  using assms(2-) unfolding filter_split_at [OF assms(1), of P] filter_update_split [OF assms(1), of P]
  by auto

lemma length_filter_update_fresh:
  assumes "i < length xs" and "\<not> P (xs ! i)" and "P y"
  shows "length (filter P (xs[i := y])) = Suc (length (filter P xs))"
  using assms(2-) unfolding filter_split_at [OF assms(1), of P] filter_update_split [OF assms(1), of P]
  by simp

lemma length_filter_all_iff: "length (filter P xs) = length xs \<longleftrightarrow> (\<forall>x \<in> set xs. P x)"
proof (induction xs)
  case (Cons x xs)
  have "length (filter P xs) \<noteq> Suc (length xs)"
    by (metis Suc_n_not_le_n length_filter_le)
  with Cons show ?case by auto
qed simp

lemma card_distinct_subset_length:
  "distinct xs \<Longrightarrow> set xs \<subseteq> A \<Longrightarrow> finite A \<Longrightarrow> length xs \<le> card A"
  by (metis card_mono distinct_card)

section \<open>Byte order (encoding/binary)\<close>

definition get_le32 :: "u8 \<Rightarrow> u8 \<Rightarrow> u8 \<Rightarrow> u8 \<Rightarrow> u32" where
  "get_le32 b0 b1 b2 b3 =
     ucast b0 OR push_bit 8 (ucast b1) OR push_bit 16 (ucast b2) OR push_bit 24 (ucast b3)"

definition put_le32 :: "u32 \<Rightarrow> bytes" where
  "put_le32 v = [ucast v, ucast (drop_bit 8 v), ucast (drop_bit 16 v), ucast (drop_bit 24 v)]"

definition get_be32 :: "u8 \<Rightarrow> u8 \<Rightarrow> u8 \<Rightarrow> u8 \<Rightarrow> u32" where
  "get_be32 b0 b1 b2 b3 = get_le32 b3 b2 b1 b0"

definition put_be32 :: "u32 \<Rightarrow> bytes" where
  "put_be32 v = rev (put_le32 v)"

lemma length_put32 [simp]: "length (put_le32 v) = 4" "length (put_be32 v) = 4"
  by (simp_all add: put_le32_def put_be32_def)

lemma get_put_le32_bytes:
  "get_le32 (ucast v) (ucast (drop_bit 8 v)) (ucast (drop_bit 16 v)) (ucast (drop_bit 24 v)) = v"
proof (rule bit_word_eqI)
  fix n assume "n < LENGTH(32)"
  then consider "n < 8" | "8 \<le> n" "n < 16" | "16 \<le> n" "n < 24" | "24 \<le> n" "n < 32"
    by fastforce
  then show "bit (get_le32 (ucast v) (ucast (drop_bit 8 v)) (ucast (drop_bit 16 v)) (ucast (drop_bit 24 v))) n
      = bit v n"
    by cases (auto simp: get_le32_def bit_simps)
qed

lemma bit_u8_high [simp]:
  "\<not> bit (b :: u8) (8 + n)" "\<not> bit (b :: u8) (16 + n)" "\<not> bit (b :: u8) (24 + n)"
  by (auto dest!: bit_imp_le_length)

lemma put_get_le32: "put_le32 (get_le32 a b c d) = [a, b, c, d]"
  unfolding get_le32_def put_le32_def
  by (auto intro!: bit_word_eqI simp: bit_simps)

end
