(* ===== verification/Metrics.thy ===== *)
theory Metrics
  imports Prelude
begin

text \<open>
  The Prometheus series of \<^verbatim>\<open>cmd/clawguard/metrics.go\<close> that the modelled code changes, as one
  record passed along, and the \<^verbatim>\<open>record*\<close>/\<^verbatim>\<open>set*\<close> functions. A counter vector is a total function
  from its label values, a gauge vector that is reset a map from those it has; the Prometheus library itself (registration, scraping) is not modelled.
\<close>

record metrics =
  sslWrites :: "string \<Rightarrow> bool \<Rightarrow> nat"
  sslWriteBytes :: nat
  reassemblyTimeouts :: nat
  attachedTargets :: nat
  attachErrors :: nat
  chunkPoolExhausted :: nat
  chunkPoolFree :: nat
  fragmentDrops :: nat
  sinkDropped :: "string \<Rightarrow> nat"
  buildInfo :: "string \<times> string \<times> string \<rightharpoonup> nat"
  pluginInfo :: "string \<times> string \<times> string \<times> string \<rightharpoonup> nat"

definition metrics_init :: metrics where
  "metrics_init = \<lparr>sslWrites = (\<lambda>_ _. 0), sslWriteBytes = 0, reassemblyTimeouts = 0,
     attachedTargets = 0, attachErrors = 0, chunkPoolExhausted = 0, chunkPoolFree = 0,
     fragmentDrops = 0, sinkDropped = (\<lambda>_. 0), buildInfo = Map.empty, pluginInfo = Map.empty\<rparr>"

definition recordSinkDrop :: "string \<Rightarrow> metrics \<Rightarrow> metrics" where
  "recordSinkDrop plugin m = m\<lparr>sinkDropped := (sinkDropped m)(plugin := sinkDropped m plugin + 1)\<rparr>"

definition setBuildInfo :: "string \<Rightarrow> string \<Rightarrow> string \<Rightarrow> metrics \<Rightarrow> metrics" where
  "setBuildInfo version commit edition m = m\<lparr>buildInfo := Map.empty((version, commit, edition) \<mapsto> 1)\<rparr>"

definition setPluginInfoMetrics :: "string \<Rightarrow> string \<Rightarrow> string \<Rightarrow> string \<Rightarrow> metrics \<Rightarrow> metrics" where
  "setPluginInfoMetrics name kind version commit m =
     m\<lparr>pluginInfo := (pluginInfo m)((name, kind, version, commit) \<mapsto> 1)\<rparr>"

definition resetPluginInfoMetrics :: "metrics \<Rightarrow> metrics" where
  "resetPluginInfoMetrics m = m\<lparr>pluginInfo := Map.empty\<rparr>"

definition hookTypeLabel :: "u32 \<Rightarrow> string" where
  "hookTypeLabel hook =
     (if hook = 1 then ''ssl_write''
      else if hook = 2 then ''ssl_write_ex''
      else if hook = 3 then ''go_tls_write''
      else ''unknown'')"

definition recordSSLWrite :: "u32 \<Rightarrow> bool \<Rightarrow> nat \<Rightarrow> metrics \<Rightarrow> metrics" where
  "recordSSLWrite hook trunc capturedBytes m =
     (let h = hookTypeLabel hook;
          m1 = m\<lparr>sslWrites := (sslWrites m)(h := (sslWrites m h)(trunc := sslWrites m h trunc + 1))\<rparr>
      in if 0 < capturedBytes then m1\<lparr>sslWriteBytes := sslWriteBytes m1 + capturedBytes\<rparr> else m1)"

definition setAttachedTargets :: "nat \<Rightarrow> metrics \<Rightarrow> metrics" where
  "setAttachedTargets n m = m\<lparr>attachedTargets := n\<rparr>"

definition recordAttachError :: "metrics \<Rightarrow> metrics" where
  "recordAttachError m = m\<lparr>attachErrors := attachErrors m + 1\<rparr>"

definition recordReassemblyTimeout :: "metrics \<Rightarrow> metrics" where
  "recordReassemblyTimeout m = m\<lparr>reassemblyTimeouts := reassemblyTimeouts m + 1\<rparr>"

definition recordChunkPoolExhausted :: "metrics \<Rightarrow> metrics" where
  "recordChunkPoolExhausted m = m\<lparr>chunkPoolExhausted := chunkPoolExhausted m + 1\<rparr>"

definition recordFragmentDrop :: "metrics \<Rightarrow> metrics" where
  "recordFragmentDrop m = m\<lparr>fragmentDrops := fragmentDrops m + 1\<rparr>"

definition setChunkPoolFree :: "nat \<Rightarrow> metrics \<Rightarrow> metrics" where
  "setChunkPoolFree n m = m\<lparr>chunkPoolFree := n\<rparr>"

end
