(* ===== verification/Chunk_Store.thy ===== *)
theory Chunk_Store
  imports Prelude
begin

text \<open>
  The interface between the chunk pool and its clients (the fragment slots and the reassembly
  loop of \<^verbatim>\<open>cmd/clawguard\<close>): what \<open>alloc\<close>, \<open>release\<close> and \<open>slice\<close> promise about the indices
  that are free, the indices that exist and the bytes stored under them. An index that exists and
  is not free is held by a client.
\<close>

locale chunk_store =
  fixes alloc :: "'p \<Rightarrow> 'm \<Rightarrow> bytes \<Rightarrow> int \<times> 'p \<times> 'm"
    and release :: "'p \<Rightarrow> int \<Rightarrow> 'p"
    and slice :: "'p \<Rightarrow> int \<Rightarrow> int \<Rightarrow> bytes"
    and frees :: "'p \<Rightarrow> int set"
    and valids :: "'p \<Rightarrow> int set"
    and ok :: "'p \<Rightarrow> bool"
    and chunk_size :: nat
  assumes frees_valid: "ok p \<Longrightarrow> frees p \<subseteq> valids p"
    and valids_nonneg: "i \<in> valids p \<Longrightarrow> 0 \<le> i"
    and alloc_empty: "ok p \<Longrightarrow> frees p = {} \<Longrightarrow> alloc p m src = (i, p', m') \<Longrightarrow>
      i < 0 \<and> ok p' \<and> frees p' = {} \<and> valids p' = valids p \<and> slice p' = slice p"
    and alloc_takes: "ok p \<Longrightarrow> frees p \<noteq> {} \<Longrightarrow> alloc p m src = (i, p', m') \<Longrightarrow>
      i \<in> frees p \<and> ok p' \<and> frees p' = frees p - {i} \<and> valids p' = valids p"
    and alloc_stores: "ok p \<Longrightarrow> frees p \<noteq> {} \<Longrightarrow> alloc p m src = (i, p', m') \<Longrightarrow>
      length src \<le> chunk_size \<Longrightarrow> slice p' i (int (length src)) = src"
    and alloc_frame: "ok p \<Longrightarrow> alloc p m src = (i, p', m') \<Longrightarrow> j \<noteq> i \<Longrightarrow> slice p' j n = slice p j n"
    and release_gives: "ok p \<Longrightarrow> i \<in> valids p - frees p \<Longrightarrow>
      ok (release p i) \<and> frees (release p i) = insert i (frees p) \<and> valids (release p i) = valids p \<and>
      slice (release p i) = slice p"
begin

text \<open>The result of an allocation tells whether the store was exhausted.\<close>

lemma alloc_neg_iff:
  assumes "ok p" and "alloc p m src = (i, p', m')"
  shows "i < 0 \<longleftrightarrow> frees p = {}"
  using assms alloc_empty [of p m src i p' m'] alloc_takes [of p m src i p' m']
    frees_valid [of p] valids_nonneg [of i p]
  by (cases "frees p = {}") (simp, force)

lemma alloc_ok [inv_intros]:
  assumes "ok p" and "alloc p m src = (i, p', m')"
  shows "ok p'"
  using assms alloc_empty [of p m src i p' m'] alloc_takes [of p m src i p' m']
  by (cases "frees p = {}") auto

lemma alloc_valids:
  assumes "ok p" and "alloc p m src = (i, p', m')"
  shows "valids p' = valids p"
  using assms alloc_empty [of p m src i p' m'] alloc_takes [of p m src i p' m']
  by (cases "frees p = {}") auto

text \<open>An allocation never hands out an index that a client holds, and leaves held bytes alone.\<close>

lemma alloc_not_held:
  assumes "ok p" and "alloc p m src = (i, p', m')" and "0 \<le> i"
  shows "i \<notin> valids p - frees p" and "i \<in> valids p' - frees p'"
proof -
  have ne: "frees p \<noteq> {}"
    using alloc_neg_iff [OF assms(1,2)] assms(3) by auto
  note a = alloc_takes [OF assms(1) ne assms(2)]
  show "i \<notin> valids p - frees p"
    using a by blast
  show "i \<in> valids p' - frees p'"
    using a frees_valid [OF assms(1)] by blast
qed

lemma alloc_keeps_held:
  assumes "ok p" and "alloc p m src = (i, p', m')" and "j \<in> valids p - frees p"
  shows "slice p' j n = slice p j n"
proof (cases "frees p = {}")
  case True
  then show ?thesis
    using alloc_empty [OF assms(1) True assms(2)] by simp
next
  case False
  then have "j \<noteq> i"
    using alloc_takes [OF assms(1) False assms(2)] assms(3) by blast
  then show ?thesis
    by (rule alloc_frame [OF assms(1,2)])
qed

text \<open>Giving back a list of distinct held indices.\<close>

lemma release_list:
  assumes "ok p" and "distinct xs" and "set xs \<subseteq> valids p - frees p"
  shows "ok (fold (\<lambda>i q. release q i) xs p) \<and>
    frees (fold (\<lambda>i q. release q i) xs p) = frees p \<union> set xs \<and>
    valids (fold (\<lambda>i q. release q i) xs p) = valids p \<and>
    slice (fold (\<lambda>i q. release q i) xs p) = slice p"
  using assms
proof (induction xs arbitrary: p)
  case Nil
  then show ?case by simp
next
  case (Cons x xs)
  have r: "ok (release p x) \<and> frees (release p x) = insert x (frees p) \<and>
      valids (release p x) = valids p \<and> slice (release p x) = slice p"
    using Cons.prems by (intro release_gives) auto
  have "set xs \<subseteq> valids (release p x) - frees (release p x)"
    using Cons.prems r by auto
  then show ?case
    using Cons.IH [of "release p x"] Cons.prems r by auto
qed

text \<open>Allocating and giving the index back restores the free indices.\<close>

lemma alloc_release:
  assumes "ok p" and "alloc p m src = (i, p', m')" and "0 \<le> i"
  shows "ok (release p' i)" and "frees (release p' i) = frees p" and "valids (release p' i) = valids p"
proof -
  have ne: "frees p \<noteq> {}"
    using alloc_neg_iff [OF assms(1,2)] assms(3) by auto
  note a = alloc_takes [OF assms(1) ne assms(2)]
  have "i \<in> valids p' - frees p'"
    by (rule alloc_not_held(2) [OF assms])
  then show "ok (release p' i)" and "frees (release p' i) = frees p"
    and "valids (release p' i) = valids p"
    using release_gives [of p' i] a by auto
qed

end

end
