(* ===== verification/Chunk_Pool.thy ===== *)
theory Chunk_Pool
  imports Metrics Chunk_Store
begin

text \<open>
  \<^verbatim>\<open>cmd/clawguard/chunkpool.go\<close>, the type \<^verbatim>\<open>ChunkPool\<close>: a slab of 512-byte buffers and the
  buffered channel of the indices that are free, first in first out. The \<^verbatim>\<open>select\<close> with a
  \<^verbatim>\<open>default\<close> branch makes both channel operations non-blocking, so the channel is a list with a
  capacity. The receiver is the non-nil pool that \<^verbatim>\<open>main\<close> builds (the \<^verbatim>\<open>p == nil\<close> guards have no
  counterpart: a value of the record type is never nil).

  The locale \<open>chunk_store\<close> is the contract the fragment slots and the reassembly loop rely on;
  the last section discharges it for the code's pool.
\<close>

section \<open>State and operations\<close>

definition chunkSize :: nat where
  "chunkSize = 512"

record ChunkPool =
  chunks :: "bytes list"
  free :: "int list"
  freeCap :: nat
  misses :: u64

text \<open>
  The sizes that fit the address space: for a larger one \<^verbatim>\<open>make\<close> panics and the program does not start.
\<close>

definition newChunkPool :: "int \<Rightarrow> ChunkPool" where
  "newChunkPool totalBytes =
     (let tb = (if totalBytes < int chunkSize then 64 * 2 ^ 20 else totalBytes);
          n0 = tb div int chunkSize;
          n = (if n0 < 1024 then 1024 else n0)
      in \<lparr>chunks = replicate (nat n) (replicate chunkSize 0),
          free = map int [0..<nat n],
          freeCap = nat n,
          misses = 0\<rparr>)"

definition Cap :: "ChunkPool \<Rightarrow> nat" where
  "Cap p = length (chunks p)"

definition FreeApprox :: "ChunkPool \<Rightarrow> nat" where
  "FreeApprox p = length (free p)"

text \<open>The buffer after \<^verbatim>\<open>copy(p.chunks[idx][:n], src[:n])\<close> and the loop that clears its tail.\<close>

definition fill_chunk :: "bytes \<Rightarrow> bytes \<Rightarrow> bytes" where
  "fill_chunk old src =
     (let n = (if chunkSize < length src then chunkSize else length src);
          copied = take n src @ drop n old
      in if n < chunkSize then take n copied @ replicate (chunkSize - n) 0 else copied)"

definition Alloc :: "ChunkPool \<Rightarrow> metrics \<Rightarrow> bytes \<Rightarrow> int \<times> ChunkPool \<times> metrics" where
  "Alloc p m src =
     (case free p of
        idx # rest \<Rightarrow>
          (idx, p\<lparr>free := rest, chunks := (chunks p)[nat idx := fill_chunk (chunks p ! nat idx) src]\<rparr>, m)
      | [] \<Rightarrow> (-1, p\<lparr>misses := misses p + 1\<rparr>, recordChunkPoolExhausted m))"

definition Slice :: "ChunkPool \<Rightarrow> int \<Rightarrow> int \<Rightarrow> bytes" where
  "Slice p idx n =
     (if idx < 0 \<or> int (length (chunks p)) \<le> idx then []
      else let n1 = (if n < 0 then 0 else n);
               n2 = (if int chunkSize < n1 then int chunkSize else n1)
           in take (nat n2) (chunks p ! nat idx))"

definition Release :: "ChunkPool \<Rightarrow> int \<Rightarrow> ChunkPool" where
  "Release p idx =
     (if idx < 0 \<or> int (length (chunks p)) \<le> idx then p
      else if length (free p) < freeCap p then p\<lparr>free := free p @ [idx]\<rparr>
      else p)"

definition Misses :: "ChunkPool \<Rightarrow> u64" where
  "Misses p = misses p"

section \<open>Invariant\<close>

definition valid_idx :: "ChunkPool \<Rightarrow> int set" where
  "valid_idx p = {0..<int (length (chunks p))}"

definition free_idx :: "ChunkPool \<Rightarrow> int set" where
  "free_idx p = set (free p)"

definition pool_ok :: "ChunkPool \<Rightarrow> bool" where
  "pool_ok p \<longleftrightarrow>
     freeCap p = length (chunks p) \<and> distinct (free p) \<and> free_idx p \<subseteq> valid_idx p \<and>
     (\<forall>c \<in> set (chunks p). length c = chunkSize)"

lemma pool_okD:
  assumes "pool_ok p"
  shows "freeCap p = length (chunks p)" and "distinct (free p)" and "free_idx p \<subseteq> valid_idx p"
    and "c \<in> set (chunks p) \<Longrightarrow> length c = chunkSize"
  using assms by (auto simp: pool_ok_def)

lemma pool_ok_chunk_length:
  "pool_ok p \<Longrightarrow> i \<in> valid_idx p \<Longrightarrow> length (chunks p ! nat i) = chunkSize"
  by (auto simp: pool_ok_def valid_idx_def)

lemma pool_ok_new [inv_intros]: "pool_ok (newChunkPool n)"
  by (auto simp: pool_ok_def newChunkPool_def Let_def valid_idx_def free_idx_def distinct_map inj_on_def)

lemma new_all_free: "free_idx (newChunkPool n) = valid_idx (newChunkPool n)"
proof -
  have "(\<lambda>x. int x) ` {0..<k} = {0..<int k}" for k
    by (simp add: image_int_atLeastLessThan)
  then show ?thesis
    by (simp add: newChunkPool_def Let_def free_idx_def valid_idx_def)
qed

lemma free_count_le_cap: "pool_ok p \<Longrightarrow> length (free p) \<le> freeCap p"
  using card_distinct_subset_length [of "free p" "valid_idx p"]
  by (auto simp: pool_ok_def free_idx_def valid_idx_def)

text \<open>
  The channel has room whenever an index that is not free is given back, so the \<^verbatim>\<open>default\<close>
  branch of \<^verbatim>\<open>Release\<close>, which would lose the index, is never taken by a balanced client.
\<close>

lemma free_count_less_cap:
  assumes "pool_ok p" and "i \<in> valid_idx p" and "i \<notin> free_idx p"
  shows "length (free p) < freeCap p"
proof -
  have "length (i # free p) \<le> card (valid_idx p)"
    using assms by (intro card_distinct_subset_length) (auto simp: pool_ok_def free_idx_def valid_idx_def)
  then show ?thesis
    using assms(1) by (simp add: pool_ok_def valid_idx_def)
qed

section \<open>The operations on the pool's observers\<close>

lemma length_fill_chunk [simp]: "length old = chunkSize \<Longrightarrow> length (fill_chunk old src) = chunkSize"
  by (auto simp: fill_chunk_def Let_def)

lemma fill_chunk_eq:
  "length old = chunkSize \<Longrightarrow>
     fill_chunk old src = take chunkSize src @ replicate (chunkSize - length src) 0"
  by (auto simp: fill_chunk_def Let_def)

lemma Alloc_exhausted [pool_simps]:
  "free_idx p = {} \<Longrightarrow> Alloc p m src = (-1, p\<lparr>misses := misses p + 1\<rparr>, recordChunkPoolExhausted m)"
  by (simp add: Alloc_def free_idx_def)

lemma Alloc_exhausted_metrics:
  "Alloc p m src = (i, p', m') \<Longrightarrow> m' = (if free p = [] then recordChunkPoolExhausted m else m)"
  by (auto simp: Alloc_def split: list.splits)

lemma Slice_misses [pool_simps]: "Slice (p\<lparr>misses := k\<rparr>) = Slice p"
  by (intro ext) (simp add: Slice_def)

lemma Alloc_hd:
  assumes "Alloc p m src = (i, p', m')" and "free_idx p \<noteq> {}"
  shows "i = hd (free p)" and "free p' = tl (free p)" and "freeCap p' = freeCap p"
    and "chunks p' = (chunks p)[nat i := fill_chunk (chunks p ! nat i) src]" and "m' = m"
  using assms by (auto simp: Alloc_def free_idx_def split: list.splits)

lemma Alloc_spec:
  assumes ok: "pool_ok p" and fr: "free_idx p \<noteq> {}" and al: "Alloc p m src = (i, p', m')"
  shows "i \<in> free_idx p" and "free_idx p' = free_idx p - {i}" and "valid_idx p' = valid_idx p"
    and "pool_ok p'"
proof -
  note a = Alloc_hd [OF al fr]
  obtain rest where rest: "free p = i # rest"
    using fr a(1) by (cases "free p") (auto simp: free_idx_def)
  show "i \<in> free_idx p"
    by (simp add: rest free_idx_def)
  show "free_idx p' = free_idx p - {i}"
    using ok by (auto simp: rest a(2) free_idx_def pool_ok_def)
  show "valid_idx p' = valid_idx p"
    by (simp add: valid_idx_def a(4))
  have i: "i \<in> valid_idx p"
    using ok rest by (auto simp: pool_ok_def free_idx_def)
  show "pool_ok p'"
    unfolding pool_ok_def
  proof (intro conjI ballI)
    show "freeCap p' = length (chunks p')" and "distinct (free p')"
      and "free_idx p' \<subseteq> valid_idx p'"
      using ok rest by (auto simp: a(2-4) pool_ok_def free_idx_def valid_idx_def)
  next
    fix c assume "c \<in> set (chunks p')"
    then have "c = fill_chunk (chunks p ! nat i) src \<or> c \<in> set (chunks p)"
      unfolding a(4) by (rule set_update_cases)
    then show "length c = chunkSize"
      using ok i by (auto simp: pool_ok_chunk_length pool_ok_def)
  qed
qed

lemma Slice_valid:
  "i \<in> valid_idx p \<Longrightarrow> Slice p i (int n) = take (min chunkSize n) (chunks p ! nat i)"
  by (auto simp: Slice_def valid_idx_def Let_def min_def)

lemma Slice_Alloc_same:
  assumes "pool_ok p" and "free_idx p \<noteq> {}" and "Alloc p m src = (i, p', m')"
  shows "Slice p' i (int n) = take (min chunkSize n) (take chunkSize src @ replicate (chunkSize - length src) 0)"
proof -
  have i: "i \<in> valid_idx p"
    using Alloc_spec(1) [OF assms] assms(1) by (auto simp: pool_ok_def)
  then have "nat i < length (chunks p)"
    by (auto simp: valid_idx_def)
  then have "chunks p' ! nat i = take chunkSize src @ replicate (chunkSize - length src) 0"
    using Alloc_hd(4) [OF assms(3,2)] assms(1) i by (simp add: fill_chunk_eq pool_ok_chunk_length)
  moreover have "i \<in> valid_idx p'"
    using i Alloc_spec(3) [OF assms] by simp
  ultimately show ?thesis
    by (simp add: Slice_valid)
qed

lemma Slice_Alloc_other:
  assumes "Alloc p m src = (i, p', m')" and "j \<noteq> i" and "0 \<le> i"
  shows "Slice p' j n = Slice p j n"
proof (cases "free_idx p = {}")
  case True
  then show ?thesis
    using assms by (simp add: pool_simps)
next
  case False
  have "nat j \<noteq> nat i" if "0 \<le> j"
    using that assms by (simp add: nat_eq_iff)
  then show ?thesis
    by (auto simp: Slice_def Alloc_hd(4) [OF assms(1) False] Let_def)
qed

lemma Release_held:
  assumes "pool_ok p" and "i \<in> valid_idx p - free_idx p"
  shows "Release p i = p\<lparr>free := free p @ [i]\<rparr>"
  using assms free_count_less_cap [of p i] by (auto simp: Release_def valid_idx_def)

lemma pool_ok_Release [inv_intros]:
  assumes "pool_ok p" and "i \<in> valid_idx p - free_idx p"
  shows "pool_ok (Release p i)"
  using assms by (auto simp: Release_held [OF assms] pool_ok_def free_idx_def valid_idx_def)

lemma Release_obs [pool_simps]:
  "Slice (Release p i) = Slice p" "valid_idx (Release p i) = valid_idx p" "misses (Release p i) = misses p"
  "chunks (Release p i) = chunks p"
  by (auto simp: fun_eq_iff Release_def Slice_def valid_idx_def)

section \<open>The contract\<close>

interpretation pool: chunk_store Alloc Release Slice free_idx valid_idx pool_ok chunkSize
proof (unfold_locales, goal_cases)
  case (1 p)
  then show ?case by (simp add: pool_ok_def)
next
  case (2 i p)
  then show ?case by (simp add: valid_idx_def)
next
  case (3 p m src i p' m')
  then show ?case by (auto simp: pool_simps pool_ok_def free_idx_def valid_idx_def)
next
  case (4 p m src i p' m')
  then show ?case using Alloc_spec [of p m src i p' m'] by simp
next
  case (5 p m src i p' m')
  then show ?case by (simp add: Slice_Alloc_same)
next
  case (6 p m src i p' m' j n)
  show ?case
  proof (cases "free_idx p = {}")
    case True
    then show ?thesis using 6 by (auto simp: pool_simps)
  next
    case False
    then have "0 \<le> i"
      using Alloc_spec(1) [of p m src i p' m'] 6 by (auto simp: pool_ok_def valid_idx_def)
    then show ?thesis using 6 by (simp add: Slice_Alloc_other)
  qed
next
  case (7 p i)
  then show ?case
    using pool_ok_Release [of p i] Release_held [of p i] Release_obs [of p i]
    by (simp only: simp_thms) (simp add: free_idx_def)
qed

section \<open>Clients\<close>

text \<open>A client of the pool: the indices it has been given and not yet given back.\<close>

inductive pool_client :: "ChunkPool \<Rightarrow> int set \<Rightarrow> bool" where
  client_new: "pool_client (newChunkPool n) {}"
| client_alloc: "pool_client p held \<Longrightarrow> Alloc p m src = (i, p', m') \<Longrightarrow>
    pool_client p' (if i < 0 then held else insert i held)"
| client_release: "pool_client p held \<Longrightarrow> i \<in> held \<Longrightarrow> pool_client (Release p i) (held - {i})"

lemma pool_client_inv:
  "pool_client p held \<Longrightarrow> pool_ok p \<and> held = valid_idx p - free_idx p"
proof (induction rule: pool_client.induct)
  case (client_new n)
  then show ?case by (simp add: pool_ok_new new_all_free)
next
  case (client_alloc p held m src i p' m')
  then have ok: "pool_ok p" by simp
  show ?case
  proof (cases "free_idx p = {}")
    case True
    then show ?thesis
      using pool.alloc_empty [OF ok True client_alloc.hyps(2)] client_alloc.IH by simp
  next
    case False
    note a = pool.alloc_takes [OF ok False client_alloc.hyps(2)]
    have "\<not> i < 0"
      using pool.alloc_neg_iff [OF ok client_alloc.hyps(2)] False by simp
    moreover have "i \<in> valid_idx p"
      using a pool.frees_valid [OF ok] by blast
    ultimately show ?thesis
      using a client_alloc.IH by auto
  qed
next
  case (client_release p held i)
  then show ?case
    using pool.release_gives [of p i] by auto
qed

section \<open>Properties\<close>

text \<open>A client of the pool that gives back only indices it holds is never given an index it still
  holds, always gets a valid one, and is refused exactly when it holds all the chunks.\<close>

theorem alloc_never_held:
  assumes "pool_client p held" and "Alloc p m src = (i, p', m')"
  shows "(i < 0 \<longleftrightarrow> held = valid_idx p) \<and> (0 \<le> i \<longrightarrow> i \<in> valid_idx p \<and> i \<notin> held)"
proof -
  note inv = pool_client_inv [OF assms(1)]
  have ok: "pool_ok p" and held: "held = valid_idx p - free_idx p" using inv by simp_all
  have "i < 0 \<longleftrightarrow> free_idx p = {}" by (rule pool.alloc_neg_iff [OF ok assms(2)])
  then show ?thesis
    using pool.alloc_takes [OF ok _ assms(2)] pool.frees_valid [OF ok] held by fastforce
qed

theorem alloc_never_held_witness:
  "\<exists>i p' m'. Alloc (newChunkPool 524288) metrics_init [1, 2] = (i, p', m') \<and>
     (i < 0 \<longleftrightarrow> {} = valid_idx (newChunkPool 524288)) \<and> (0 \<le> i \<longrightarrow> i \<in> valid_idx (newChunkPool 524288) \<and> i \<notin> {})"
proof -
  obtain i p' m' where "Alloc (newChunkPool 524288) metrics_init [1, 2] = (i, p', m')"
    by (cases "Alloc (newChunkPool 524288) metrics_init [1, 2]")
  with alloc_never_held [OF client_new this] show ?thesis by blast
qed

text \<open>After a successful allocation the chunk reads back as the given bytes, cut at the chunk size
  and followed by zeros (nothing of what it held before is left), and no other chunk has changed.\<close>

theorem alloc_reads_back:
  assumes "pool_ok p" and "Alloc p m src = (i, p', m')" and "0 \<le> i"
  shows "Slice p' i (int n) = take n (take chunkSize src @ replicate (chunkSize - length src) 0) \<and>
    (\<forall>j k. j \<noteq> i \<longrightarrow> Slice p' j k = Slice p j k) \<and> pool_ok p' \<and> FreeApprox p' + 1 = FreeApprox p"
proof -
  have ne: "free_idx p \<noteq> {}"
    using pool.alloc_neg_iff [OF assms(1,2)] assms(3) by simp
  have "length (take chunkSize src @ replicate (chunkSize - length src) 0) = chunkSize" by simp
  then have "Slice p' i (int n) = take n (take chunkSize src @ replicate (chunkSize - length src) 0)"
    using Slice_Alloc_same [OF assms(1) ne assms(2), of n] by (simp add: min_def)
  moreover have "FreeApprox p' + 1 = FreeApprox p"
    using Alloc_hd(2) [OF assms(2) ne] ne by (cases "free p") (simp_all add: FreeApprox_def free_idx_def)
  ultimately show ?thesis
    using Slice_Alloc_other [OF assms(2) _ assms(3)] Alloc_spec(4) [OF assms(1) ne assms(2)] by blast
qed

theorem alloc_reads_back_witness:
  "\<exists>i p' m'. Alloc (newChunkPool 524288) metrics_init [1, 2] = (i, p', m') \<and>
     Slice p' i (int 3) = take 3 (take chunkSize [1, 2] @ replicate (chunkSize - length [1, 2 :: u8]) 0) \<and>
     FreeApprox p' + 1 = FreeApprox (newChunkPool 524288)"
proof -
  obtain i p' m' where al: "Alloc (newChunkPool 524288) metrics_init [1, 2] = (i, p', m')"
    by (cases "Alloc (newChunkPool 524288) metrics_init [1, 2]")
  have "free_idx (newChunkPool 524288) \<noteq> {}"
    by (simp add: new_all_free valid_idx_def) (simp add: newChunkPool_def chunkSize_def)
  then have "0 \<le> i"
    using pool.alloc_neg_iff [OF pool_ok_new al] by simp
  from alloc_reads_back [OF pool_ok_new al this, of 3] al show ?thesis by blast
qed

text \<open>A new pool has at least 1024 chunks and, from half a MiB on, as many as fit in the size it is
  given; all of them are free.\<close>

theorem new_pool_size:
  "1024 \<le> Cap (newChunkPool n) \<and> FreeApprox (newChunkPool n) = Cap (newChunkPool n) \<and>
   (524288 \<le> n \<longrightarrow> int (Cap (newChunkPool n)) = n div 512) \<and> pool_ok (newChunkPool n) \<and> Misses (newChunkPool n) = 0"
proof -
  have "1024 \<le> n div 512" if "524288 \<le> n" using that by presburger
  then show ?thesis
    using pool_ok_new [of n]
    by (auto simp: newChunkPool_def Cap_def FreeApprox_def Misses_def chunkSize_def Let_def)
qed

theorem new_pool_size_witness:
  "524288 \<le> (1048576 :: int) \<and> int (Cap (newChunkPool 1048576)) = 1048576 div 512"
  using new_pool_size [of 1048576] by simp

end
