(* ===== verification/Frag_Slots.thy ===== *)
theory Frag_Slots
  imports Chunk_Pool
begin

text \<open>
  \<^verbatim>\<open>cmd/clawguard/chunkpool.go\<close>, the type \<^verbatim>\<open>fragSlots\<close>: for every fragment of one logical write
  the pool index that holds its bytes (\<open>-1\<close> while it is missing) and its length. The mutex makes
  each method atomic and has no other effect. \<^verbatim>\<open>releaseAll\<close> and \<^verbatim>\<open>assemble\<close> work on a pool, which is
  passed and returned.

  The abstraction \<open>frags\<close> reads the slots against the pool as a list of optional byte strings;
  each operation is shown to act on it the obvious way.
\<close>

section \<open>State and operations\<close>

record fragSlots =
  idxs :: "int list"
  lens :: "u16 list"
  count :: nat

definition newFragSlots :: "u32 \<Rightarrow> fragSlots" where
  "newFragSlots fragCnt =
     (let n = unat fragCnt
      in \<lparr>idxs = replicate n (-1), lens = replicate n 0, count = 0\<rparr>)"

definition put :: "fragSlots \<Rightarrow> u32 \<Rightarrow> int \<Rightarrow> int \<Rightarrow> fragSlots \<times> bool" where
  "put f fragIdx poolIdx n =
     (if length (idxs f) \<le> unat fragIdx then (f, False)
      else if 0 \<le> idxs f ! unat fragIdx then (f, False)
      else (f\<lparr>idxs := (idxs f)[unat fragIdx := poolIdx],
              lens := (lens f)[unat fragIdx := word_of_int n],
              count := count f + 1\<rparr>, True))"

definition has :: "fragSlots \<Rightarrow> u32 \<Rightarrow> bool" where
  "has f fragIdx \<longleftrightarrow> unat fragIdx < length (idxs f) \<and> 0 \<le> idxs f ! unat fragIdx"

definition complete :: "fragSlots \<Rightarrow> bool" where
  "complete f \<longleftrightarrow> count f = length (idxs f) \<and> 0 < length (idxs f)"

definition releaseAll :: "fragSlots \<Rightarrow> ChunkPool \<Rightarrow> fragSlots \<times> ChunkPool" where
  "releaseAll f pool =
     (f\<lparr>idxs := map (\<lambda>idx. if 0 \<le> idx then -1 else idx) (idxs f), count := 0\<rparr>,
      fold (\<lambda>idx p. if 0 \<le> idx then Release p idx else p) (idxs f) pool)"

text \<open>The loop of \<^verbatim>\<open>assemble\<close>; \<open>None\<close> is its \<^verbatim>\<open>return nil\<close>.\<close>

fun assemble_loop :: "ChunkPool \<Rightarrow> (int \<times> u16) list \<Rightarrow> bytes \<Rightarrow> bytes option" where
  "assemble_loop pool [] out = Some out"
| "assemble_loop pool ((idx, l) # rest) out =
     (if idx < 0 then None
      else let n = int (unat l) in assemble_loop pool rest (out @ Slice pool idx n))"

definition assemble :: "fragSlots \<Rightarrow> ChunkPool \<Rightarrow> u32 \<Rightarrow> bytes option" where
  "assemble f pool totalLen =
     (case assemble_loop pool (zip (idxs f) (lens f)) [] of
        None \<Rightarrow> None
      | Some out \<Rightarrow>
          Some (if 0 < totalLen \<and> totalLen < (word_of_nat (length out) :: u32)
                then take (unat totalLen) out else out))"

definition haveCount :: "fragSlots \<Rightarrow> nat" where
  "haveCount f = count f"

section \<open>Invariant and abstraction\<close>

text \<open>The pool indices the slots hold, and the fragments they stand for.\<close>

definition held :: "fragSlots \<Rightarrow> int list" where
  "held f = filter (\<lambda>i. 0 \<le> i) (idxs f)"

definition frags :: "ChunkPool \<Rightarrow> fragSlots \<Rightarrow> bytes option list" where
  "frags pool f =
     map (\<lambda>(idx, l). if idx < 0 then None else Some (Slice pool idx (int (unat l)))) (zip (idxs f) (lens f))"

definition slots_ok :: "ChunkPool \<Rightarrow> fragSlots \<Rightarrow> bool" where
  "slots_ok pool f \<longleftrightarrow>
     length (lens f) = length (idxs f) \<and> count f = length (held f) \<and>
     distinct (held f) \<and> set (held f) \<subseteq> valid_idx pool - free_idx pool"

lemma slots_okD:
  assumes "slots_ok pool f"
  shows "length (lens f) = length (idxs f)" and "count f = length (held f)" and "distinct (held f)"
    and "set (held f) \<subseteq> valid_idx pool - free_idx pool"
  using assms by (auto simp: slots_ok_def)

lemma length_frags [simp]:
  "length (lens f) = length (idxs f) \<Longrightarrow> length (frags pool f) = length (idxs f)"
  by (simp add: frags_def)

lemma nth_frags:
  "length (lens f) = length (idxs f) \<Longrightarrow> k < length (idxs f) \<Longrightarrow>
     frags pool f ! k = (if idxs f ! k < 0 then None else Some (Slice pool (idxs f ! k) (int (unat (lens f ! k)))))"
  by (simp add: frags_def)

lemma held_new [slot_simps]: "held (newFragSlots n) = []"
  by (simp add: held_def newFragSlots_def Let_def)

lemma frags_new [slot_simps]: "frags pool (newFragSlots n) = replicate (unat n) None"
  by (simp add: frags_def newFragSlots_def Let_def zip_replicate)

lemma slots_ok_new [inv_intros]: "slots_ok pool (newFragSlots n)"
  by (simp add: slots_ok_def slot_simps) (simp add: newFragSlots_def Let_def)

section \<open>The operations on the abstraction\<close>

lemma has_frags:
  assumes "slots_ok pool f"
  shows "has f k \<longleftrightarrow> unat k < length (frags pool f) \<and> frags pool f ! unat k \<noteq> None"
  using slots_okD(1) [OF assms] by (auto simp: has_def nth_frags split: if_splits)

lemma count_le_length: "slots_ok pool f \<Longrightarrow> count f \<le> length (idxs f)"
  by (simp add: slots_ok_def held_def)

lemma complete_iff:
  assumes "slots_ok pool f"
  shows "complete f \<longleftrightarrow> frags pool f \<noteq> [] \<and> None \<notin> set (frags pool f)"
proof -
  note len = slots_okD(1) [OF assms]
  have "count f = length (idxs f) \<longleftrightarrow> (\<forall>i \<in> set (idxs f). 0 \<le> i)"
    using slots_okD(2) [OF assms] by (simp add: held_def length_filter_all_iff)
  also have "\<dots> \<longleftrightarrow> None \<notin> set (frags pool f)"
  proof -
    have "None \<in> set (frags pool f) \<longleftrightarrow> (\<exists>k < length (idxs f). idxs f ! k < 0)"
      using len by (auto simp: in_set_conv_nth nth_frags split: if_splits)
    also have "\<dots> \<longleftrightarrow> \<not> (\<forall>i \<in> set (idxs f). 0 \<le> i)"
      by (auto simp: all_set_conv_all_nth not_le)
    finally show ?thesis by blast
  qed
  finally show ?thesis
    using len by (auto simp: complete_def frags_def)
qed

lemma put_False:
  "put f k i n = (f', False) \<longleftrightarrow> f' = f \<and> (length (idxs f) \<le> unat k \<or> has f k)"
  by (auto simp: put_def has_def)

lemma put_True_iff:
  "snd (put f k i n) \<longleftrightarrow> unat k < length (idxs f) \<and> \<not> has f k"
  by (auto simp: put_def has_def)

lemma put_True:
  assumes "unat k < length (idxs f)" and "\<not> has f k"
  shows "put f k i n = (f\<lparr>idxs := (idxs f)[unat k := i], lens := (lens f)[unat k := word_of_int n],
                         count := count f + 1\<rparr>, True)"
  using assms by (auto simp: put_def has_def)

lemma assemble_loop_eq:
  assumes "length ls = length is"
  shows "assemble_loop pool (zip is ls) out =
    (let fs = map (\<lambda>(idx, l). if idx < 0 then None else Some (Slice pool idx (int (unat l)))) (zip is ls)
     in if None \<in> set fs then None else Some (out @ concat (map the fs)))"
  using assms
proof (induction "is" ls arbitrary: out rule: list_induct2')
  case (4 x xs y ys)
  then show ?case by (auto simp: Let_def)
qed auto

lemma assemble_frags:
  assumes "slots_ok pool f"
  shows "assemble f pool totalLen =
    (if None \<in> set (frags pool f) then None
     else let out = concat (map the (frags pool f))
          in Some (if 0 < totalLen \<and> totalLen < (word_of_nat (length out) :: u32)
                   then take (unat totalLen) out else out))"
  using assemble_loop_eq [OF slots_okD(1) [OF assms]]
  by (simp add: assemble_def frags_def Let_def)

lemma fold_release_held:
  "fold (\<lambda>idx p. if 0 \<le> idx then Release p idx else p) is pool =
     fold (\<lambda>idx p. Release p idx) (filter (\<lambda>i. 0 \<le> i) is) pool"
  by (induction "is" arbitrary: pool) auto

lemma releaseAll_pool: "snd (releaseAll f pool) = fold (\<lambda>idx p. Release p idx) (held f) pool"
  by (simp add: releaseAll_def held_def fold_release_held)

lemma releaseAll_spec:
  assumes "pool_ok pool" and "slots_ok pool f" and "releaseAll f pool = (f', pool')"
  shows "pool_ok pool'" and "free_idx pool' = free_idx pool \<union> set (held f)"
    and "valid_idx pool' = valid_idx pool" and "Slice pool' = Slice pool"
    and "held f' = []" and "slots_ok pool'' f'"
proof -
  have p: "pool' = fold (\<lambda>idx p. Release p idx) (held f) pool"
    using releaseAll_pool [of f pool] assms(3) by simp
  show "pool_ok pool'" and "free_idx pool' = free_idx pool \<union> set (held f)"
    and "valid_idx pool' = valid_idx pool" and "Slice pool' = Slice pool"
    using pool.release_list [OF assms(1) slots_okD(3,4) [OF assms(2)]] p by simp_all
  show h: "held f' = []"
    using assms(3) by (auto simp: releaseAll_def held_def filter_empty_conv)
  show "slots_ok pool'' f'"
    using h assms(3) slots_okD(1) [OF assms(2)] by (auto simp: slots_ok_def releaseAll_def)
qed

section \<open>Properties\<close>

text \<open>Fragments put in any order come out in index order: a slot set whose slots are all filled is
  complete and assembles to the concatenation of the stored chunks, cut at the announced total; with a
  slot missing it is not complete and there is no payload.\<close>

theorem assemble_complete:
  assumes "slots_ok p f"
  shows "(if complete f
      then assemble f p totalLen = Some (let out = concat (map the (frags p f))
        in if 0 < totalLen \<and> totalLen < (word_of_nat (length out) :: u32) then take (unat totalLen) out else out)
      else frags p f = [] \<or> assemble f p totalLen = None)"
  using complete_iff [OF assms] assemble_frags [OF assms, of totalLen] by (auto simp: Let_def)

theorem assemble_complete_witness:
  "\<not> complete (newFragSlots 2) \<and> assemble (newFragSlots 2) (newChunkPool 524288) 7 = None"
proof -
  have "frags (newChunkPool 524288) (newFragSlots 2) \<noteq> []" by (simp add: slot_simps)
  moreover have "\<not> complete (newFragSlots 2)" by (simp add: complete_def newFragSlots_def Let_def)
  ultimately show ?thesis
    using assemble_complete [OF slots_ok_new [of "newChunkPool 524288" 2], of 7] by simp
qed

end
