(* ===== verification/Wire.thy ===== *)
theory Wire
  imports Prelude "HOL-Library.Monad_Syntax"
begin

text \<open>
  The ring buffer record of \<^verbatim>\<open>cmd/clawguard/main.go\<close> and its decoding by
  \<^verbatim>\<open>binary.Read(r, binary.LittleEndian, &ev)\<close>: ten 32-bit fields and 512 payload bytes. A sample
  that is too short is an error; bytes after the record are ignored.
\<close>

definition maxChunkPayload :: nat where
  "maxChunkPayload = 512"

record sslEvent =
  sePID :: u32
  seTID :: u32
  seCallID :: u32
  seOrigLen :: u32
  seTotalLen :: u32
  seTruncated :: u32
  seFragIdx :: u32
  seFragCnt :: u32
  seChunkLen :: u32
  seHookType :: u32
  sePayload :: bytes

fun read_u32 :: "bytes \<Rightarrow> (u32 \<times> bytes) option" where
  "read_u32 (b0 # b1 # b2 # b3 # rest) = Some (get_le32 b0 b1 b2 b3, rest)"
| "read_u32 _ = None"

definition read_array :: "nat \<Rightarrow> bytes \<Rightarrow> (bytes \<times> bytes) option" where
  "read_array n bs = (if n \<le> length bs then Some (take n bs, drop n bs) else None)"

definition decode_sslEvent :: "bytes \<Rightarrow> sslEvent option" where
  "decode_sslEvent bs = do {
     (pid, bs) \<leftarrow> read_u32 bs;
     (tid, bs) \<leftarrow> read_u32 bs;
     (callid, bs) \<leftarrow> read_u32 bs;
     (origLen, bs) \<leftarrow> read_u32 bs;
     (totalLen, bs) \<leftarrow> read_u32 bs;
     (truncated, bs) \<leftarrow> read_u32 bs;
     (fragIdx, bs) \<leftarrow> read_u32 bs;
     (fragCnt, bs) \<leftarrow> read_u32 bs;
     (chunkLen, bs) \<leftarrow> read_u32 bs;
     (hookType, bs) \<leftarrow> read_u32 bs;
     (payload, bs) \<leftarrow> read_array maxChunkPayload bs;
     Some \<lparr>sePID = pid, seTID = tid, seCallID = callid, seOrigLen = origLen, seTotalLen = totalLen,
           seTruncated = truncated, seFragIdx = fragIdx, seFragCnt = fragCnt, seChunkLen = chunkLen,
           seHookType = hookType, sePayload = payload\<rparr>
   }"

lemma read_u32_put [simp]: "read_u32 (put_le32 v @ rest) = Some (v, rest)"
  by (simp add: put_le32_def get_put_le32_bytes)

lemma read_u32_iff: "read_u32 bs = Some (v, rest) \<longleftrightarrow> bs = put_le32 v @ rest"
proof
  assume "read_u32 bs = Some (v, rest)"
  then show "bs = put_le32 v @ rest"
    by (cases bs rule: read_u32.cases) (auto simp: put_get_le32)
qed simp

lemma read_u32_None: "read_u32 bs = None \<longleftrightarrow> length bs < 4"
  by (cases bs rule: read_u32.cases) auto

lemma read_array_iff: "read_array n bs = Some (x, rest) \<longleftrightarrow> bs = x @ rest \<and> length x = n"
  by (auto simp: read_array_def)

lemma decode_payload_length: "decode_sslEvent bs = Some ev \<Longrightarrow> length (sePayload ev) = maxChunkPayload"
  by (auto simp: decode_sslEvent_def read_array_iff split: Option.bind_splits)

end
