(* ===== verification/Event.thy ===== *)
theory Event
  imports Prelude
begin

text \<open>
  \<^verbatim>\<open>internal/event/event.go\<close>: the unit of the pipeline and its two clones. The three slices of a
  \<^verbatim>\<open>CaptureEvent\<close> are type parameters of one record: at \<open>bytes\<close> and lists it is the value that the
  other theories pass around (a nil slice and an empty one are the same list there); at \<open>slice\<close> it
  is the Go object, whose slices point into a store of arrays. The clones are defined on objects,
  where sharing is visible, and shown to give independent copies of the value.
\<close>

section \<open>Values\<close>

record PluginRef =
  prName :: string
  prKind :: string
  prVersion :: string
  prCommit :: string
  prBuildTime :: string

record Finding =
  fiRule :: string
  fiStart :: int
  fiEnd :: int
  fiPreview :: string

record ('b, 'p, 'f) CaptureEventOf =
  ceTimestamp :: time
  cePID :: u32
  ceTID :: u32
  ceCallID :: u32
  ceOrigLen :: u32
  ceCapturedLen :: u32
  ceTruncated :: bool
  ceHookType :: u32
  cePayload :: 'b
  ceContainerID :: string
  cePodName :: string
  cePodNamespace :: string
  ceClawguardVersion :: string
  ceClawguardCommit :: string
  ceClawguardEdition :: string
  cePlugins :: 'p
  ceFindings :: 'f

type_synonym CaptureEvent = "(bytes, PluginRef list, Finding list) CaptureEventOf"

section \<open>Objects\<close>

text \<open>A slice is nil or the index of its array in the store.\<close>

type_synonym slice = "nat option"
type_synonym eventObj = "(slice, slice, slice) CaptureEventOf"

record store =
  byteArrs :: "bytes list"
  pluginArrs :: "PluginRef list list"
  findingArrs :: "Finding list list"

text \<open>The elements a slice shows: those of its array, none for nil.\<close>

definition elems :: "'a list list \<Rightarrow> slice \<Rightarrow> 'a list" where
  "elems arrs sl = (case sl of None \<Rightarrow> [] | Some r \<Rightarrow> arrs ! r)"

definition slice_ok :: "'a list list \<Rightarrow> slice \<Rightarrow> bool" where
  "slice_ok arrs sl \<longleftrightarrow> (case sl of None \<Rightarrow> True | Some r \<Rightarrow> r < length arrs)"

definition view :: "store \<Rightarrow> eventObj \<Rightarrow> CaptureEvent" where
  "view s e = \<lparr>ceTimestamp = ceTimestamp e, cePID = cePID e, ceTID = ceTID e, ceCallID = ceCallID e,
     ceOrigLen = ceOrigLen e, ceCapturedLen = ceCapturedLen e, ceTruncated = ceTruncated e,
     ceHookType = ceHookType e, cePayload = elems (byteArrs s) (cePayload e),
     ceContainerID = ceContainerID e, cePodName = cePodName e, cePodNamespace = cePodNamespace e,
     ceClawguardVersion = ceClawguardVersion e, ceClawguardCommit = ceClawguardCommit e,
     ceClawguardEdition = ceClawguardEdition e,
     cePlugins = elems (pluginArrs s) (cePlugins e), ceFindings = elems (findingArrs s) (ceFindings e)\<rparr>"

definition event_ok :: "store \<Rightarrow> eventObj \<Rightarrow> bool" where
  "event_ok s e \<longleftrightarrow> slice_ok (byteArrs s) (cePayload e) \<and> slice_ok (pluginArrs s) (cePlugins e) \<and>
     slice_ok (findingArrs s) (ceFindings e)"

text \<open>\<^verbatim>\<open>append([]T(nil), xs...)\<close> for a non-empty \<^verbatim>\<open>xs\<close>: a new array with the same elements.\<close>

definition copy_slice :: "'a list list \<Rightarrow> slice \<Rightarrow> 'a list list \<times> slice" where
  "copy_slice arrs sl = (arrs @ [elems arrs sl], Some (length arrs))"

definition CloneShallow :: "store \<Rightarrow> eventObj option \<Rightarrow> store \<times> eventObj option" where
  "CloneShallow s e =
     (case e of
        None \<Rightarrow> (s, None)
      | Some e \<Rightarrow>
          let out = e;
              (s, out) =
                (if 0 < length (elems (pluginArrs s) (cePlugins e))
                 then let (arrs, sl) = copy_slice (pluginArrs s) (cePlugins e)
                      in (s\<lparr>pluginArrs := arrs\<rparr>, out\<lparr>cePlugins := sl\<rparr>)
                 else (s, out));
              (s, out) =
                (if 0 < length (elems (findingArrs s) (ceFindings e))
                 then let (arrs, sl) = copy_slice (findingArrs s) (ceFindings e)
                      in (s\<lparr>findingArrs := arrs\<rparr>, out\<lparr>ceFindings := sl\<rparr>)
                 else (s, out))
          in (s, Some out))"

definition CloneDeep :: "store \<Rightarrow> eventObj option \<Rightarrow> store \<times> eventObj option" where
  "CloneDeep s e =
     (case CloneShallow s e of
        (s, None) \<Rightarrow> (s, None)
      | (s, Some out) \<Rightarrow>
          (case e of
             None \<Rightarrow> (s, Some out)
           | Some e \<Rightarrow>
               if 0 < length (elems (byteArrs s) (cePayload e))
               then let (arrs, sl) = copy_slice (byteArrs s) (cePayload e)
                    in (s\<lparr>byteArrs := arrs\<rparr>, Some (out\<lparr>cePayload := sl\<rparr>))
               else (s, Some out)))"

section \<open>What a holder of an event may write\<close>

text \<open>An assignment to an element of one of the event's slices, through the event.\<close>

datatype event_write =
  WPayload nat u8
| WPlugin nat PluginRef
| WFinding nat Finding

definition write_elem :: "'a list list \<Rightarrow> slice \<Rightarrow> nat \<Rightarrow> 'a \<Rightarrow> 'a list list" where
  "write_elem arrs sl i x = (case sl of None \<Rightarrow> arrs | Some r \<Rightarrow> arrs[r := (arrs ! r)[i := x]])"

fun write_through :: "eventObj \<Rightarrow> event_write \<Rightarrow> store \<Rightarrow> store" where
  "write_through e (WPayload i b) s = s\<lparr>byteArrs := write_elem (byteArrs s) (cePayload e) i b\<rparr>"
| "write_through e (WPlugin i p) s = s\<lparr>pluginArrs := write_elem (pluginArrs s) (cePlugins e) i p\<rparr>"
| "write_through e (WFinding i f) s = s\<lparr>findingArrs := write_elem (findingArrs s) (ceFindings e) i f\<rparr>"

section \<open>Lemmas\<close>

lemma elems_copy_old [simp]: "slice_ok arrs sl \<Longrightarrow> elems (arrs @ xs) sl = elems arrs sl"
  by (auto simp: elems_def slice_ok_def nth_append split: option.splits)

lemma elems_copy_new [simp]: "elems (arrs @ [xs]) (Some (length arrs)) = xs"
  by (simp add: elems_def)

lemma slice_ok_append [simp]: "slice_ok arrs sl \<Longrightarrow> slice_ok (arrs @ xs) sl"
  by (auto simp: slice_ok_def split: option.splits)

text \<open>Two slices that do not share a cell: different arrays, or nothing to write to.\<close>

definition apart :: "'a list list \<Rightarrow> slice \<Rightarrow> slice \<Rightarrow> bool" where
  "apart arrs a b \<longleftrightarrow> a \<noteq> b \<or> elems arrs a = []"

lemma elems_write_apart: "apart arrs a b \<Longrightarrow> elems (write_elem arrs a i x) b = elems arrs b"
proof (cases a)
  case (Some r)
  assume ap: "apart arrs a b"
  show ?thesis
  proof (cases "b = a")
    case True
    then have "arrs ! r = []" using ap Some by (simp add: apart_def elems_def)
    then show ?thesis using Some True
      by (cases "r < length arrs") (simp_all add: elems_def write_elem_def list_update_beyond)
  next
    case False
    then have "b = None \<or> (\<exists>q. b = Some q \<and> r \<noteq> q)"
      using Some by (cases b) auto
    then show ?thesis using Some by (auto simp: elems_def write_elem_def)
  qed
qed (simp add: write_elem_def)

lemma length_nth_update: "length (xs[r := (xs ! r)[i := x]] ! q) = length (xs ! q)"
  by (cases "q = r"; cases "r < length xs") (simp_all add: list_update_beyond)

lemma length_write_elem [simp]: "length (elems (write_elem arrs a i x) b) = length (elems arrs b)"
  by (auto simp: elems_def write_elem_def length_nth_update split: option.splits)

lemma apart_write [simp]: "apart (write_elem arrs c i x) a b \<longleftrightarrow> apart arrs a b"
  by (metis apart_def length_0_conv length_write_elem)

definition events_apart :: "store \<Rightarrow> eventObj \<Rightarrow> eventObj \<Rightarrow> bool" where
  "events_apart s e d \<longleftrightarrow> apart (byteArrs s) (cePayload e) (cePayload d) \<and>
     apart (pluginArrs s) (cePlugins e) (cePlugins d) \<and> apart (findingArrs s) (ceFindings e) (ceFindings d)"

lemma write_apart:
  assumes "events_apart s e d"
  shows "view (write_through e w s) d = view s d" and "events_apart (write_through e w s) e d"
  using assms by (cases w; simp add: view_def events_apart_def elems_write_apart)+

lemma writes_apart:
  "events_apart s e d \<Longrightarrow> view (fold (write_through e) ws s) d = view s d"
proof (induction ws arbitrary: s)
  case (Cons w ws)
  then show ?case
    using write_apart [OF Cons.prems] by simp
qed simp

lemma CloneDeep_Some:
  assumes ok: "event_ok s e" and cl: "CloneDeep s (Some e) = (s', e')"
  obtains d where "e' = Some d" and "view s' d = view s e" and "view s' e = view s e"
    and "events_apart s' d e" and "events_apart s' e d" and "event_ok s' d" and "event_ok s' e"
proof -
  have p: "slice_ok (byteArrs s) (cePayload e)" and q: "slice_ok (pluginArrs s) (cePlugins e)"
    and f: "slice_ok (findingArrs s) (ceFindings e)"
    using ok by (simp_all add: event_ok_def)
  have neq: "slice_ok arrs sl \<Longrightarrow> sl \<noteq> Some (length arrs)" for arrs :: "'x list list" and sl
    by (auto simp: slice_ok_def)
  have ok_new: "slice_ok (arrs @ [xs]) (Some (length arrs))" for arrs :: "'x list list" and xs
    by (simp add: slice_ok_def)
  have ap: "apart (arrs @ [xs]) (Some (length arrs)) sl" "apart (arrs @ [xs]) sl (Some (length arrs))"
    if "slice_ok arrs sl" for arrs :: "'x list list" and xs sl
    using neq [OF that] by (auto simp: apart_def)
  note defs = CloneDeep_def CloneShallow_def copy_slice_def Let_def
  note obs = view_def event_ok_def events_apart_def
  note facts = ok_new ap
  have same: "apart arrs sl sl" if "elems arrs sl = []" for arrs :: "'x list list" and sl
    using that by (simp add: apart_def)
  show ?thesis
  proof (rule that [of "the e'"])
    show "e' = Some (the e')"
      using cl by (auto simp: defs split: if_splits)
    show "view s' (the e') = view s e" "view s' e = view s e" "event_ok s' (the e')" "event_ok s' e"
      using cl p q f by (auto simp: defs obs facts split: if_splits)
    show "events_apart s' (the e') e" "events_apart s' e (the e')"
      using cl p q f by (auto simp: defs obs facts same split: if_splits)
  qed
qed

section \<open>Properties\<close>

text \<open>C39: A deep clone shows the same event and shares no cell with it: whatever is then written
  through the clone cannot be seen in the original, and the other way round.\<close>

theorem clone_deep_isolated:
  assumes "event_ok s e" and "CloneDeep s (Some e) = (s', Some d)"
  shows "view s' d = view s e \<and> view s' e = view s e \<and>
    view (fold (write_through d) ws s') e = view s e \<and> view (fold (write_through e) ws s') d = view s e"
proof -
  obtain d' where d': "Some d = Some d'" "view s' d' = view s e" "view s' e = view s e"
    "events_apart s' d' e" "events_apart s' e d'"
    using assms by (rule CloneDeep_Some)
  then have "events_apart s' d e" "events_apart s' e d" by simp_all
  from writes_apart [OF this(1), of ws] writes_apart [OF this(2), of ws] d' show ?thesis by simp
qed

definition example_store :: store where
  "example_store = \<lparr>byteArrs = [[1, 2, 3]], pluginArrs = [], findingArrs = []\<rparr>"

definition example_obj :: eventObj where
  "example_obj = \<lparr>ceTimestamp = 0, cePID = 7, ceTID = 7, ceCallID = 1, ceOrigLen = 3, ceCapturedLen = 3,
     ceTruncated = False, ceHookType = 1, cePayload = Some 0, ceContainerID = [], cePodName = [],
     cePodNamespace = [], ceClawguardVersion = [], ceClawguardCommit = [], ceClawguardEdition = [],
     cePlugins = None, ceFindings = None\<rparr>"

theorem clone_deep_isolated_witness:
  "\<exists>s' d. CloneDeep example_store (Some example_obj) = (s', Some d) \<and>
     cePayload (view (write_through d (WPayload 0 42) s') example_obj) = [1, 2, 3] \<and>
     cePayload (view (write_through d (WPayload 0 42) s') d) = [42, 2, 3]"
proof -
  let ?s = "example_store\<lparr>byteArrs := [[1, 2, 3], [1, 2, 3]]\<rparr>" and ?d = "example_obj\<lparr>cePayload := Some 1\<rparr>"
  have c: "CloneDeep example_store (Some example_obj) = (?s, Some ?d)"
    by (simp add: CloneDeep_def CloneShallow_def example_store_def example_obj_def elems_def copy_slice_def)
  have ok: "event_ok example_store example_obj"
    by (simp add: event_ok_def slice_ok_def example_store_def example_obj_def)
  have "view (write_through ?d (WPayload 0 42) ?s) example_obj = view example_store example_obj"
    using clone_deep_isolated [OF ok c, of "[WPayload 0 42]"] by simp
  moreover have "cePayload (view example_store example_obj) = [1, 2, 3]"
    by (simp add: view_def example_store_def example_obj_def elems_def)
  moreover have "cePayload (view (write_through ?d (WPayload 0 42) ?s) ?d) = [42, 2, 3]"
    by (simp add: view_def example_store_def example_obj_def elems_def write_elem_def)
  ultimately show ?thesis using c by metis
qed

end
