(* ===== verification/Go_Strings.thy ===== *)
theory Go_Strings
  imports Prelude
begin

text \<open>
  What the sources use of Go's \<^verbatim>\<open>strings\<close> package, on \<open>string\<close>, whose characters are bytes as
  in Go. \<^verbatim>\<open>TrimSpace\<close> removes every Unicode white space in its UTF-8 encoding. \<^verbatim>\<open>ToLower\<close> maps the
  ASCII letters and keeps every other byte: the strings it is applied to are container ids, cgroup
  paths and environment values compared with ASCII words.
\<close>

section \<open>Lower case\<close>

definition lower_char :: "char \<Rightarrow> char" where
  "lower_char c = (let n = (of_char c :: nat) in if 65 \<le> n \<and> n \<le> 90 then char_of (n + 32) else c)"

definition ToLower :: "string \<Rightarrow> string" where
  "ToLower s = map lower_char s"

lemma lower_char_idem [simp]: "lower_char (lower_char c) = lower_char c"
  by (auto simp: lower_char_def Let_def)

lemma ToLower_idem [simp]: "ToLower (ToLower s) = ToLower s"
  by (simp add: ToLower_def)

lemma length_ToLower [simp]: "length (ToLower s) = length s"
  by (simp add: ToLower_def)

lemma ToLower_append [simp]: "ToLower (s @ t) = ToLower s @ ToLower t"
  by (simp add: ToLower_def)

lemma ToLower_take: "ToLower (take n s) = take n (ToLower s)"
  by (simp add: ToLower_def take_map)

section \<open>Prefixes and substrings\<close>

definition HasPrefix :: "string \<Rightarrow> string \<Rightarrow> bool" where
  "HasPrefix s p \<longleftrightarrow> take (length p) s = p"

definition TrimPrefix :: "string \<Rightarrow> string \<Rightarrow> string" where
  "TrimPrefix s p = (if HasPrefix s p then drop (length p) s else s)"

lemma HasPrefix_iff: "HasPrefix s p \<longleftrightarrow> (\<exists>t. s = p @ t)"
  unfolding HasPrefix_def by (metis append_eq_conv_conj append_take_drop_id)

lemma TrimPrefix_append [simp]: "TrimPrefix (p @ s) p = s"
  by (simp add: TrimPrefix_def HasPrefix_def)

text \<open>\<^verbatim>\<open>strings.Index\<close>; \<open>None\<close> stands for \<open>-1\<close>.\<close>

fun Index :: "string \<Rightarrow> string \<Rightarrow> nat option" where
  "Index [] sub = (if sub = [] then Some 0 else None)"
| "Index (c # s) sub = (if HasPrefix (c # s) sub then Some 0 else map_option Suc (Index s sub))"

definition IndexByte :: "string \<Rightarrow> char \<Rightarrow> nat option" where
  "IndexByte s c = Index s [c]"

definition Contains :: "string \<Rightarrow> string \<Rightarrow> bool" where
  "Contains s sub \<longleftrightarrow> Index s sub \<noteq> None"

lemma Index_Some:
  "Index s sub = Some i \<Longrightarrow> i \<le> length s \<and> HasPrefix (drop i s) sub \<and> (\<forall>j < i. \<not> HasPrefix (drop j s) sub)"
proof (induction s arbitrary: i)
  case Nil
  then show ?case by (auto simp: HasPrefix_def split: if_splits)
next
  case (Cons c s)
  show ?case
  proof (cases "HasPrefix (c # s) sub")
    case True
    then show ?thesis using Cons.prems by simp
  next
    case False
    then obtain k where k: "Index s sub = Some k" "i = Suc k"
      using Cons.prems by auto
    have "\<not> HasPrefix (drop j (c # s)) sub" if "j < i" for j
      using that False Cons.IH [OF k(1)] k(2) by (cases j) auto
    then show ?thesis using Cons.IH [OF k(1)] k(2) by simp
  qed
qed

lemma Index_None: "Index s sub = None \<longleftrightarrow> (\<forall>j \<le> length s. \<not> HasPrefix (drop j s) sub)"
proof (induction s)
  case Nil
  then show ?case by (simp add: HasPrefix_def)
next
  case (Cons c s)
  have "(\<forall>j \<le> length (c # s). \<not> HasPrefix (drop j (c # s)) sub) \<longleftrightarrow>
        \<not> HasPrefix (c # s) sub \<and> (\<forall>j \<le> length s. \<not> HasPrefix (drop j s) sub)"
    by (metis (no_types, lifting) Suc_le_mono drop0 drop_Suc_Cons length_Cons not0_implies_Suc zero_le)
  then show ?case using Cons.IH by simp
qed

lemma Contains_iff: "Contains s sub \<longleftrightarrow> (\<exists>a b. s = a @ sub @ b)"
proof
  assume "Contains s sub"
  then obtain i where "Index s sub = Some i"
    by (auto simp: Contains_def)
  then have "HasPrefix (drop i s) sub"
    using Index_Some by blast
  then obtain b where "drop i s = sub @ b"
    by (auto simp: HasPrefix_iff)
  then have "s = take i s @ sub @ b"
    by (metis append_take_drop_id)
  then show "\<exists>a b. s = a @ sub @ b" by blast
next
  assume "\<exists>a b. s = a @ sub @ b"
  then obtain a b where s: "s = a @ sub @ b" by blast
  then have "length a \<le> length s \<and> HasPrefix (drop (length a) s) sub"
    by (simp add: HasPrefix_def)
  then show "Contains s sub"
    unfolding Contains_def using Index_None [of s sub] by blast
qed

lemma Contains_take: "Contains s sub \<Longrightarrow> Contains s (take n sub)"
  unfolding Contains_iff by (metis append.assoc append_take_drop_id)

section \<open>Splitting\<close>

text \<open>\<^verbatim>\<open>strings.Split\<close> with a one-byte separator: never empty.\<close>

fun Split :: "string \<Rightarrow> char \<Rightarrow> string list" where
  "Split [] sep = [[]]"
| "Split (c # s) sep =
     (case Split s sep of
        [] \<Rightarrow> [[c]]
      | w # ws \<Rightarrow> if c = sep then [] # w # ws else (c # w) # ws)"

lemma Split_nonempty [simp]: "Split s sep \<noteq> []"
  by (induction s) (auto split: list.splits)

fun Join :: "char \<Rightarrow> string list \<Rightarrow> string" where
  "Join sep [] = []"
| "Join sep [w] = w"
| "Join sep (w # v # vs) = w @ sep # Join sep (v # vs)"

lemma Join_Cons: "Join sep ((c # w) # ws) = c # Join sep (w # ws)"
  by (cases ws) auto

lemma Join_Split: "Join sep (Split s sep) = s"
proof (induction s)
  case (Cons c s)
  obtain w ws where "Split s sep = w # ws"
    by (cases "Split s sep") auto
  then show ?case
    using Cons by (simp add: Join_Cons)
qed simp

lemma Split_sep_free: "w \<in> set (Split s sep) \<Longrightarrow> sep \<notin> set w"
  by (induction s arbitrary: w) (fastforce split: list.splits if_splits)+

lemma Split_no_sep: "sep \<notin> set w \<Longrightarrow> Split w sep = [w]"
  by (induction w) auto

lemma Split_append: "sep \<notin> set w \<Longrightarrow> Split (w @ sep # s) sep = w # Split s sep"
proof (induction w)
  case Nil
  then show ?case by (cases "Split s sep") auto
next
  case (Cons c w)
  then show ?case by auto
qed

lemma Split_Join:
  "ws \<noteq> [] \<Longrightarrow> (\<forall>w \<in> set ws. sep \<notin> set w) \<Longrightarrow> Split (Join sep ws) sep = ws"
  by (induction sep ws rule: Join.induct) (auto simp: Split_no_sep Split_append)

section \<open>Trimming\<close>

text \<open>
  The encodings of the runes for which \<^verbatim>\<open>unicode.IsSpace\<close> holds: the ASCII blanks, U+0085, U+00A0,
  U+1680, U+2000 to U+200A, U+2028, U+2029, U+202F, U+205F and U+3000.
\<close>

definition space_runes :: "string list" where
  "space_runes = map (map (char_of :: nat \<Rightarrow> char))
     ([[9], [10], [11], [12], [13], [32], [194, 133], [194, 160], [225, 154, 128]] @
      map (\<lambda>k. [226, 128, k]) [128, 129, 130, 131, 132, 133, 134, 135, 136, 137, 138, 168, 169, 175] @
      [[226, 129, 159], [227, 128, 128]])"

function trim_with :: "string list \<Rightarrow> string \<Rightarrow> string" where
  "trim_with encs s =
     (case find (\<lambda>e. e \<noteq> [] \<and> HasPrefix s e) encs of
        None \<Rightarrow> s
      | Some e \<Rightarrow> trim_with encs (drop (length e) s))"
  by pat_completeness auto
termination
proof (relation "measure (\<lambda>(encs, s). length s)", simp, clarsimp)
  fix encs s e
  assume "find (\<lambda>e. e \<noteq> [] \<and> HasPrefix s e) encs = Some e"
  then have "e \<noteq> []" and "HasPrefix s e"
    by (auto simp: find_Some_iff)
  then have "0 < length e" and "s \<noteq> []"
    by (auto simp: HasPrefix_def)
  then show "length s - length e < length s" by simp
qed

declare trim_with.simps [simp del]

definition TrimSpace :: "string \<Rightarrow> string" where
  "TrimSpace s = rev (trim_with (map rev space_runes) (rev (trim_with space_runes s)))"

lemma trim_with_none:
  "\<forall>e \<in> set encs. e \<noteq> [] \<longrightarrow> \<not> HasPrefix s e \<Longrightarrow> trim_with encs s = s"
  by (subst trim_with.simps) (auto simp: find_None_iff split: option.splits dest!: find_Some_iff [THEN iffD1])

lemma trim_with_Nil [simp]: "trim_with encs [] = []"
  by (rule trim_with_none) (simp add: HasPrefix_def)

lemma TrimSpace_Nil [simp]: "TrimSpace [] = []"
  by (simp add: TrimSpace_def)

lemma trim_with_suffix: "\<exists>p. s = p @ trim_with encs s"
proof (induction encs s rule: trim_with.induct)
  case (1 encs s)
  show ?case
  proof (cases "find (\<lambda>e. e \<noteq> [] \<and> HasPrefix s e) encs")
    case None
    then show ?thesis by (simp add: trim_with.simps [of encs s])
  next
    case (Some e)
    from "1.IH" [OF Some] obtain p where "drop (length e) s = p @ trim_with encs (drop (length e) s)" ..
    moreover have "trim_with encs s = trim_with encs (drop (length e) s)"
      by (simp add: trim_with.simps [of encs s] Some)
    ultimately have "s = (take (length e) s @ p) @ trim_with encs s"
      by (metis append.assoc append_take_drop_id)
    then show ?thesis by blast
  qed
qed

text \<open>A trimmed string is a factor of the original.\<close>

lemma TrimSpace_factor: "\<exists>p q. s = p @ TrimSpace s @ q"
proof -
  obtain p where p: "s = p @ trim_with space_runes s"
    using trim_with_suffix by blast
  obtain q where q: "rev (trim_with space_runes s) = q @ rev (TrimSpace s)"
    using trim_with_suffix [of "rev (trim_with space_runes s)" "map rev space_runes"]
    by (auto simp: TrimSpace_def)
  have "trim_with space_runes s = TrimSpace s @ rev q"
    using arg_cong [OF q, of rev] by simp
  then show ?thesis using p by metis
qed

text \<open>The first bytes of the white space encodings and, read backwards, the last ones.\<close>

definition space_bytes :: "nat set" where
  "space_bytes = {9, 10, 11, 12, 13, 32, 194, 225, 226, 227} \<union> {128..138} \<union> {133, 159, 160, 168, 169, 175}"

definition space_free :: "string \<Rightarrow> bool" where
  "space_free s \<longleftrightarrow> (\<forall>c \<in> set s. (of_char c :: nat) \<notin> space_bytes)"

lemma space_runes_bytes: "e \<in> set space_runes \<union> set (map rev space_runes) \<Longrightarrow> \<exists>c t. e = c # t \<and> (of_char c :: nat) \<in> space_bytes"
  unfolding space_runes_def space_bytes_def by (elim UnE) (simp_all, (elim disjE, simp_all)+)

lemma TrimSpace_id: "space_free s \<Longrightarrow> TrimSpace s = s"
proof -
  assume s: "space_free s"
  have "trim_with encs t = t"
    if sub: "set encs \<subseteq> set space_runes \<union> set (map rev space_runes)" and fr: "space_free t" for encs t
  proof (rule trim_with_none, intro ballI impI notI)
    fix e assume e: "e \<in> set encs" "HasPrefix t e"
    then obtain c u where "e = c # u" "(of_char c :: nat) \<in> space_bytes"
      using space_runes_bytes [of e] sub by blast
    then show False
      using e(2) fr by (auto simp: HasPrefix_iff space_free_def)
  qed
  moreover have "space_free (rev s)" using s by (simp add: space_free_def)
  ultimately show ?thesis using s by (simp add: TrimSpace_def)
qed

end
