(* ===== verification/Env_Filters.thy ===== *)
theory Env_Filters
  imports Go_Strings
begin

text \<open>
  The parsing of environment values in \<^verbatim>\<open>cmd/clawguard\<close>: sizes and limits and the label filter
  (\<^verbatim>\<open>main.go\<close>), the pod annotation filter (\<^verbatim>\<open>k8s.go\<close>) and the runtimes to hook (\<^verbatim>\<open>go_tls.go\<close>).
  Warnings that are only logged are left out. A Go map that may be nil is an \<open>option\<close> of a map.
\<close>

section \<open>Numbers (strconv)\<close>

definition digit_val :: "char \<Rightarrow> nat option" where
  "digit_val c = (let n = of_char c in if 48 \<le> n \<and> n \<le> 57 then Some (n - 48) else None)"

fun digits_val :: "nat \<Rightarrow> string \<Rightarrow> nat option" where
  "digits_val acc [] = Some acc"
| "digits_val acc (c # s) =
     (case digit_val c of None \<Rightarrow> None | Some d \<Rightarrow> digits_val (10 * acc + d) s)"

text \<open>\<^verbatim>\<open>strconv.ParseUint(s, 10, bits)\<close>; \<open>None\<close> is any error.\<close>

definition ParseUint :: "nat \<Rightarrow> string \<Rightarrow> nat option" where
  "ParseUint bits s =
     (if s = [] then None
      else case digits_val 0 s of
             None \<Rightarrow> None
           | Some n \<Rightarrow> if n < 2 ^ bits then Some n else None)"

text \<open>\<^verbatim>\<open>strconv.Atoi\<close> on a 64-bit platform: an optional sign, then decimal digits.\<close>

definition Atoi :: "string \<Rightarrow> int option" where
  "Atoi s =
     (let (neg, ds) = (case s of
            c # t \<Rightarrow> (if c = CHR ''-'' then (True, t) else if c = CHR ''+'' then (False, t) else (False, s))
          | [] \<Rightarrow> (False, []))
      in if ds = [] then None
         else case digits_val 0 ds of
                None \<Rightarrow> None
              | Some n \<Rightarrow>
                  if neg then (if int n \<le> 2 ^ 63 then Some (- int n) else None)
                  else (if int n < 2 ^ 63 then Some (int n) else None))"

definition defaultPreviewMax :: int where
  "defaultPreviewMax = 16384"

definition defaultChunkPoolMB :: int where
  "defaultChunkPoolMB = 256"

definition parseLogPayloadMax :: "string \<Rightarrow> int" where
  "parseLogPayloadMax v =
     (let v = TrimSpace v
      in if v = [] then defaultPreviewMax
         else case Atoi v of
                None \<Rightarrow> defaultPreviewMax
              | Some n \<Rightarrow> if n < 0 then defaultPreviewMax else n)"

definition parseOptionalMaxCapture :: "string \<Rightarrow> u32" where
  "parseOptionalMaxCapture v =
     (let v = TrimSpace v
      in if v = [] \<or> v = ''0'' then 0
         else case ParseUint 32 v of
                None \<Rightarrow> 0
              | Some n \<Rightarrow> word_of_nat n)"

text \<open>The argument is the value of the environment variable, \<^verbatim>\<open>os.Getenv(name)\<close>.\<close>

definition parsePositiveIntEnv :: "string \<Rightarrow> int \<Rightarrow> int" where
  "parsePositiveIntEnv value def =
     (let v = TrimSpace value
      in if v = [] then def
         else case Atoi v of
                None \<Rightarrow> def
              | Some n \<Rightarrow> if n \<le> 0 then def else n)"

lemma parseLogPayloadMax_nonneg: "0 \<le> parseLogPayloadMax v"
  by (auto simp: parseLogPayloadMax_def Let_def defaultPreviewMax_def split: option.splits)

lemma parsePositiveIntEnv_pos: "0 < def \<Longrightarrow> 0 < parsePositiveIntEnv v def"
  by (auto simp: parsePositiveIntEnv_def Let_def split: option.splits)

lemma Atoi_range: "Atoi s = Some n \<Longrightarrow> - (2 ^ 63) \<le> n \<and> n < 2 ^ 63"
  by (auto simp: Atoi_def Let_def split: if_splits option.splits prod.splits list.splits)

section \<open>Label filter\<close>

record labelPair =
  key :: string
  val :: string

datatype filter_error = WantKeyValue string | EmptyKey string

fun parse_label_parts :: "string list \<Rightarrow> labelPair list \<Rightarrow> filter_error + labelPair list" where
  "parse_label_parts [] out = Inr out"
| "parse_label_parts (part # parts) out =
     (let part = TrimSpace part
      in if part = [] then parse_label_parts parts out
         else case IndexByte part (CHR ''='') of
                None \<Rightarrow> Inl (WantKeyValue part)
              | Some i \<Rightarrow>
                  if i = 0 then Inl (WantKeyValue part)
                  else let k = TrimSpace (take i part); v = TrimSpace (drop (i + 1) part)
                       in if k = [] then Inl (EmptyKey part)
                          else parse_label_parts parts (out @ [\<lparr>key = k, val = v\<rparr>]))"

definition parseLabelFilter :: "string \<Rightarrow> filter_error + labelPair list" where
  "parseLabelFilter env =
     (let env = TrimSpace env
      in if env = [] then Inr []
         else parse_label_parts (Split env (CHR '','')) [])"

fun format_pairs :: "nat \<Rightarrow> labelPair list \<Rightarrow> string" where
  "format_pairs i [] = []"
| "format_pairs i (p # ps) = (if 0 < i then '', '' else []) @ key p @ ''='' @ val p @ format_pairs (i + 1) ps"

definition formatLabelFilterLog :: "labelPair list \<Rightarrow> string" where
  "formatLabelFilterLog pairs = format_pairs 0 pairs"

fun match_pairs :: "labelPair list \<Rightarrow> (string \<rightharpoonup> string) \<Rightarrow> bool" where
  "match_pairs [] labels = True"
| "match_pairs (p # ps) labels =
     (case labels (key p) of
        None \<Rightarrow> False
      | Some v \<Rightarrow> if v \<noteq> val p then False else match_pairs ps labels)"

definition labelsMatch :: "labelPair list \<Rightarrow> (string \<rightharpoonup> string) option \<Rightarrow> bool" where
  "labelsMatch pairs labels =
     (if pairs = [] then True
      else case labels of None \<Rightarrow> False | Some m \<Rightarrow> match_pairs pairs m)"

lemma match_pairs_iff: "match_pairs ps m \<longleftrightarrow> (\<forall>p \<in> set ps. m (key p) = Some (val p))"
  by (induction ps) (auto split: option.splits)

text \<open>The filter is the conjunction of its pairs; a nil map is one without keys.\<close>

lemma labelsMatch_iff:
  "labelsMatch ps labels \<longleftrightarrow>
     (\<forall>p \<in> set ps. (case labels of None \<Rightarrow> Map.empty | Some m \<Rightarrow> m) (key p) = Some (val p))"
  by (cases ps) (auto simp: labelsMatch_def match_pairs_iff split: option.splits)

section \<open>Annotation filter\<close>

record annotationFilter =
  annKey :: string
  annVal :: string

definition parseAnnotationFilter :: "string \<Rightarrow> filter_error + annotationFilter" where
  "parseAnnotationFilter env =
     (let env = TrimSpace env
      in if env = [] then Inr \<lparr>annKey = ''clawguard.io/monitor'', annVal = ''true''\<rparr>
         else case IndexByte env (CHR ''='') of
                None \<Rightarrow> Inl (WantKeyValue env)
              | Some i \<Rightarrow>
                  if i = 0 then Inl (WantKeyValue env)
                  else let k = TrimSpace (take i env); v = TrimSpace (drop (i + 1) env)
                       in if k = [] then Inl (EmptyKey env)
                          else Inr \<lparr>annKey = k, annVal = v\<rparr>)"

definition annotation_matches :: "annotationFilter \<Rightarrow> (string \<rightharpoonup> string) option \<Rightarrow> bool" where
  "annotation_matches f annotations =
     (case annotations of
        None \<Rightarrow> False
      | Some m \<Rightarrow> (case m (annKey f) of None \<Rightarrow> False | Some v \<Rightarrow> v = annVal f))"

section \<open>Runtimes\<close>

fun parse_runtime_parts :: "string list \<Rightarrow> bool \<Rightarrow> bool \<Rightarrow> bool \<times> bool" where
  "parse_runtime_parts [] wantOpenSSL wantGo = (wantOpenSSL, wantGo)"
| "parse_runtime_parts (p # ps) wantOpenSSL wantGo =
     (let w = TrimSpace p
      in if w \<in> {''openssl'', ''ssl'', ''libssl''} then parse_runtime_parts ps True wantGo
         else if w \<in> {''go'', ''gotls'', ''crypto/tls''} then parse_runtime_parts ps wantOpenSSL True
         else parse_runtime_parts ps wantOpenSSL wantGo)"

definition parseRuntimes :: "string \<Rightarrow> bool \<times> bool" where
  "parseRuntimes env =
     (let env = TrimSpace (ToLower env)
      in if env = [] then (True, True)
         else let (wantOpenSSL, wantGo) = parse_runtime_parts (Split env (CHR '','')) False False
              in if \<not> wantOpenSSL \<and> \<not> wantGo then (True, True) else (wantOpenSSL, wantGo))"

text \<open>Some runtime is always hooked.\<close>

lemma parseRuntimes_some: "fst (parseRuntimes env) \<or> snd (parseRuntimes env)"
  by (auto simp: parseRuntimes_def Let_def split: prod.splits)

section \<open>Properties\<close>

text \<open>The label filter is a conjunction: a container passes exactly when each pair of the filter is
  among its labels, and an empty filter lets every container pass.\<close>

theorem labels_conjunction:
  "labelsMatch ps labels \<longleftrightarrow>
     (\<forall>p \<in> set ps. (case labels of None \<Rightarrow> Map.empty | Some m \<Rightarrow> m) (key p) = Some (val p))"
  by (rule labelsMatch_iff)

theorem labels_conjunction_witness:
  "\<not> labelsMatch [\<lparr>key = ''app'', val = ''web''\<rparr>, \<lparr>key = ''env'', val = ''prod''\<rparr>] (Some [''app'' \<mapsto> ''web''])"
  unfolding labels_conjunction by simp

end
