(* ===== verification/Container_Ids.thy ===== *)
theory Container_Ids
  imports Env_Filters
begin

text \<open>
  Container identifiers in \<^verbatim>\<open>cmd/clawguard/main.go\<close> and \<^verbatim>\<open>k8s.go\<close>: shortening, comparing and
  splitting them, finding the manager's own container, and finding a process by the container id
  in its cgroup path. What the code reads from the system (\<^verbatim>\<open>/proc\<close> files, the host name) is an
  argument, \<open>None\<close> where the read failed.
\<close>

definition shortID :: "string \<Rightarrow> string" where
  "shortID cid = (if 12 < length cid then take 12 cid else cid)"

section \<open>Hexadecimal ids\<close>

definition is_hex_lower :: "char \<Rightarrow> bool" where
  "is_hex_lower c = (let n = (of_char c :: nat) in (48 \<le> n \<and> n \<le> 57) \<or> (97 \<le> n \<and> n \<le> 102))"

fun takeLeadingHex :: "string \<Rightarrow> string" where
  "takeLeadingHex [] = []"
| "takeLeadingHex (c # s) = (if is_hex_lower c then c # takeLeadingHex s else [])"

definition isDockerHexID :: "string \<Rightarrow> bool" where
  "isDockerHexID cid =
     (let n = length cid
      in if n \<noteq> 12 \<and> n \<noteq> 64 then False else list_all is_hex_lower cid)"

definition cgroup_line_id :: "string \<Rightarrow> string option" where
  "cgroup_line_id line =
     (let scoped =
        (case Index line ''docker-'' of
           None \<Rightarrow> None
         | Some i \<Rightarrow>
             (let rest = drop (i + length ''docker-'') line
              in case Index rest ''.scope'' of
                   None \<Rightarrow> None
                 | Some j \<Rightarrow> if 0 < j \<and> isDockerHexID (take j rest) then Some (take j rest) else None))
      in case scoped of
           Some cid \<Rightarrow> Some cid
         | None \<Rightarrow>
             (case Index line ''/docker/'' of
                None \<Rightarrow> None
              | Some i \<Rightarrow>
                  (let cid = takeLeadingHex (drop (i + length ''/docker/'') line)
                   in if isDockerHexID cid then Some cid else None)))"

fun cgroup_lines_id :: "string list \<Rightarrow> string" where
  "cgroup_lines_id [] = []"
| "cgroup_lines_id (line # lines) =
     (let line = TrimSpace line
      in if line = [] then cgroup_lines_id lines
         else case cgroup_line_id line of
                Some cid \<Rightarrow> cid
              | None \<Rightarrow> cgroup_lines_id lines)"

definition dockerIDFromCgroup :: "string option \<Rightarrow> string" where
  "dockerIDFromCgroup b =
     (case b of
        None \<Rightarrow> []
      | Some b \<Rightarrow> cgroup_lines_id (Split (ToLower b) (char_of (10 :: nat))))"

definition is_hex_any :: "char \<Rightarrow> bool" where
  "is_hex_any c = (let n = (of_char c :: nat)
     in \<not> ((n < 48 \<or> 57 < n) \<and> (n < 97 \<or> 102 < n) \<and> (n < 65 \<or> 70 < n)))"

definition dockerIDFromHostname :: "string option \<Rightarrow> string" where
  "dockerIDFromHostname h =
     (case h of
        None \<Rightarrow> []
      | Some h \<Rightarrow>
          if length h < 12 then []
          else if \<not> list_all is_hex_any h then []
          else let h = (if 12 < length h then take 12 h else h) in ToLower h)"

definition detectSelfContainerID :: "string option \<Rightarrow> string option \<Rightarrow> string" where
  "detectSelfContainerID cgroup hostname =
     (let cid = dockerIDFromCgroup cgroup
      in if cid \<noteq> [] then cid else dockerIDFromHostname hostname)"

definition isSelfContainer :: "string \<Rightarrow> string \<Rightarrow> bool" where
  "isSelfContainer selfContainerID fullID =
     (if selfContainerID = [] then False
      else let api = TrimPrefix (ToLower fullID) ''sha256:''
           in if length api < 12 then False
              else let self = ToLower selfContainerID
                   in if length self = 64 then (if 64 \<le> length api then take 64 api = self else False)
                      else if 12 \<le> length self then take 12 api = take 12 self
                      else take 12 api = self)"

section \<open>Comparing and splitting\<close>

definition containerIDsMatch :: "string \<Rightarrow> string \<Rightarrow> bool" where
  "containerIDsMatch a b =
     (let a = ToLower (TrimPrefix a ''sha256:''); b = ToLower (TrimPrefix b ''sha256:'')
      in if a = b then True
         else if 12 \<le> length a \<and> 12 \<le> length b then take 12 a = take 12 b
         else False)"

definition splitContainerID :: "string \<Rightarrow> string \<times> string" where
  "splitContainerID raw =
     (let raw = TrimSpace raw
      in if raw = [] then ([], [])
         else case Index raw ''://'' of
                Some i \<Rightarrow> (take i raw, TrimPrefix (ToLower (drop (i + 3) raw)) ''sha256:'')
              | None \<Rightarrow> ([], TrimPrefix (ToLower raw) ''sha256:''))"

text \<open>The test of \<^verbatim>\<open>lookupTargetByPID\<close>: the cgroup text names the container.\<close>

definition cgroup_mentions :: "string \<Rightarrow> string \<Rightarrow> bool" where
  "cgroup_mentions s cid =
     (let needle = ToLower cid;
          needle = (if 12 < length needle then take 12 needle else needle)
      in Contains s (ToLower cid) \<or> (12 \<le> length needle \<and> Contains s needle))"

section \<open>Process of a container\<close>

record procEntry =
  peIsDir :: bool
  peName :: string
  peCgroup :: "string option"

datatype pid_error = IDTooShort string | ReadDirFailed | NoProcess string

text \<open>\<^verbatim>\<open>fmt.Sscanf(name, "%d", &pid)\<close> on a name whose first byte is a digit: the leading digits.\<close>

definition scan_pid :: "string \<Rightarrow> nat option" where
  "scan_pid name =
     (case digits_val 0 (takeWhile (\<lambda>c. digit_val c \<noteq> None) name) of
        None \<Rightarrow> None
      | Some n \<Rightarrow> if n < 2 ^ 63 then Some n else None)"

fun scan_proc :: "string \<Rightarrow> string \<Rightarrow> procEntry list \<Rightarrow> nat option" where
  "scan_proc short needle12 [] = None"
| "scan_proc short needle12 (e # es) =
     (if \<not> peIsDir e then scan_proc short needle12 es
      else let name = peName e
           in if name = [] \<or> (of_char (hd name) :: nat) < 49 \<or> 57 < (of_char (hd name) :: nat)
              then scan_proc short needle12 es
              else case scan_pid name of
                     None \<Rightarrow> scan_proc short needle12 es
                   | Some pid \<Rightarrow>
                       if pid \<le> 1 then scan_proc short needle12 es
                       else case peCgroup e of
                              None \<Rightarrow> scan_proc short needle12 es
                            | Some cg \<Rightarrow>
                                let s = ToLower cg
                                in if Contains s short \<or> Contains s needle12 then Some pid
                                   else scan_proc short needle12 es)"

definition findPIDByContainerID :: "procEntry list option \<Rightarrow> string \<Rightarrow> pid_error + nat" where
  "findPIDByContainerID dir containerID =
     (let cid = ToLower (TrimPrefix containerID ''sha256:'')
      in if length cid < 12 then Inl (IDTooShort containerID)
         else let short = (if 64 < length cid then take 64 cid else cid);
                  needle12 = (if 12 < length short then take 12 short else short)
              in case dir of
                   None \<Rightarrow> Inl ReadDirFailed
                 | Some entries \<Rightarrow>
                     (case scan_proc short needle12 entries of
                        Some pid \<Rightarrow> Inr pid
                      | None \<Rightarrow> Inl (NoProcess (shortID cid))))"

section \<open>Lemmas\<close>

lemma takeLeadingHex_hex: "list_all is_hex_lower (takeLeadingHex s)"
  by (induction s) auto

lemma cgroup_line_id_hex: "cgroup_line_id line = Some cid \<Longrightarrow> isDockerHexID cid"
  by (auto simp: cgroup_line_id_def Let_def split: option.splits if_splits)

lemma cgroup_lines_id_hex: "cgroup_lines_id ls = [] \<or> isDockerHexID (cgroup_lines_id ls)"
  by (induction ls) (auto simp: Let_def split: option.splits dest: cgroup_line_id_hex)

lemma lower_hex: "is_hex_any c \<Longrightarrow> is_hex_lower (lower_char c)"
  by (auto simp: is_hex_any_def is_hex_lower_def lower_char_def Let_def)

lemma hostname_hex: "dockerIDFromHostname h = [] \<or> isDockerHexID (dockerIDFromHostname h)"
proof (cases h)
  case (Some s)
  have "list_all is_hex_lower (ToLower (take n s))" if "list_all is_hex_any s" for n
    using that by (auto simp: ToLower_def list_all_iff dest!: in_set_takeD intro: lower_hex)
  from this [of 12] this [of "length s"] show ?thesis
    using Some by (auto simp: dockerIDFromHostname_def isDockerHexID_def Let_def)
qed (simp add: dockerIDFromHostname_def)

text \<open>What \<open>containerIDsMatch\<close> compares: the first twelve characters, or all of a shorter id.\<close>

definition id_class :: "string \<Rightarrow> string" where
  "id_class a = take 12 (ToLower (TrimPrefix a ''sha256:''))"

lemma containerIDsMatch_iff: "containerIDsMatch a b \<longleftrightarrow> id_class a = id_class b"
proof -
  define x y where "x = ToLower (TrimPrefix a ''sha256:'')" and "y = ToLower (TrimPrefix b ''sha256:'')"
  have "x = y" if "take 12 x = take 12 y" "\<not> (12 \<le> length x \<and> 12 \<le> length y)"
  proof -
    have "length (take 12 x) = length (take 12 y)" using that by simp
    then have "length x < 12 \<and> length y < 12" using that(2) by (auto simp: min_def split: if_splits)
    then show ?thesis using that(1) by simp
  qed
  then show ?thesis
    unfolding containerIDsMatch_def id_class_def x_def [symmetric] y_def [symmetric] Let_def
    by auto
qed

lemma cgroup_mentions_iff:
  "cgroup_mentions s cid \<longleftrightarrow>
     Contains s (if 12 \<le> length cid then take 12 (ToLower cid) else ToLower cid)"
  using Contains_take [of s "ToLower cid" 12]
  by (auto simp: cgroup_mentions_def Let_def)

lemma scan_proc_Some:
  "scan_proc short needle es = Some pid \<Longrightarrow>
     \<exists>e \<in> set es. \<exists>cg. scan_pid (peName e) = Some pid \<and> 1 < pid \<and> peCgroup e = Some cg \<and>
       (Contains (ToLower cg) short \<or> Contains (ToLower cg) needle)"
proof (induction es)
  case (Cons e es)
  show ?case
  proof (cases "scan_proc short needle es = Some pid")
    case True
    then show ?thesis using Cons.IH by auto
  next
    case False
    then show ?thesis using Cons.prems
      by (auto simp: Let_def not_le split: if_splits option.splits)
  qed
qed simp

section \<open>Properties\<close>

text \<open>What is taken for the container's own id is nothing or a well-formed id: 12 or 64 lower-case
  hexadecimal digits, from the cgroup file or else from the host name.\<close>

theorem self_id_well_formed:
  "detectSelfContainerID cgroup hostname = [] \<or> isDockerHexID (detectSelfContainerID cgroup hostname)"
  using hostname_hex cgroup_lines_id_hex
  by (auto simp: detectSelfContainerID_def dockerIDFromCgroup_def Let_def split: option.splits)

text \<open>Matching container ids is an equivalence that is decided by the first twelve characters after
  an optional \<^verbatim>\<open>sha256:\<close>, without regard to case: short and long forms of one id match, and ids that
  differ there do not.\<close>

theorem ids_match_equivalence:
  "equivp containerIDsMatch \<and>
   (containerIDsMatch a b \<longleftrightarrow> take 12 (ToLower (TrimPrefix a ''sha256:'')) = take 12 (ToLower (TrimPrefix b ''sha256:'')))"
  by (auto simp: containerIDsMatch_iff id_class_def intro!: equivpI reflpI sympI transpI)

text \<open>A process found for a container runs in it: its cgroup file contains the first 64 or the
  first 12 characters of the id, it is not process 1, and an id too short to be told apart is refused.\<close>

theorem find_pid_sound:
  assumes "findPIDByContainerID dir cid = Inr pid"
  shows "12 \<le> length (TrimPrefix cid ''sha256:'') \<and> 1 < pid \<and>
    (\<exists>es e cg. dir = Some es \<and> e \<in> set es \<and> scan_pid (peName e) = Some pid \<and> peCgroup e = Some cg \<and>
       Contains (ToLower cg) (take 12 (ToLower (TrimPrefix cid ''sha256:''))))"
proof -
  let ?c = "ToLower (TrimPrefix cid ''sha256:'')"
  define short where "short = (if 64 < length ?c then take 64 ?c else ?c)"
  define needle where "needle = (if 12 < length short then take 12 short else short)"
  have len: "12 \<le> length ?c" and dir: "\<exists>es. dir = Some es \<and> scan_proc short needle es = Some pid"
    using assms by (auto simp: findPIDByContainerID_def Let_def short_def needle_def split: if_splits option.splits)
  have nd: "needle = take 12 ?c" using len by (auto simp: needle_def short_def min_def)
  have sh: "Contains s short \<Longrightarrow> Contains s needle" for s
    using Contains_take [of s short 12] by (auto simp: needle_def)
  obtain es where es: "dir = Some es" "scan_proc short needle es = Some pid" using dir by blast
  from scan_proc_Some [OF es(2)] obtain e cg where "e \<in> set es" "scan_pid (peName e) = Some pid" "1 < pid"
    "peCgroup e = Some cg" "Contains (ToLower cg) short \<or> Contains (ToLower cg) needle" by blast
  then show ?thesis
    using es(1) len sh nd by auto
qed

theorem find_pid_sound_witness:
  "findPIDByContainerID (Some [\<lparr>peIsDir = True, peName = ''42'', peCgroup = Some ''/docker/0123456789ab''\<rparr>]) ''0123456789AB'' = Inr 42 \<and> 1 < (42 :: nat)"
proof -
  have low: "ToLower ''0123456789AB'' = ''0123456789ab''"
    and path: "ToLower ''/docker/0123456789ab'' = ''/docker/0123456789ab''"
    by code_simp+
  have "findPIDByContainerID (Some [\<lparr>peIsDir = True, peName = ''42'', peCgroup = Some ''/docker/0123456789ab''\<rparr>]) ''0123456789AB'' = Inr 42"
    by (simp add: findPIDByContainerID_def TrimPrefix_def HasPrefix_def Let_def low path Contains_def scan_pid_def digit_val_def)
  from find_pid_sound [OF this] this show ?thesis by simp
qed

end
