(* ===== verification/Container_Watch.thy ===== *)
theory Container_Watch
  imports Container_Ids Metrics
begin

text \<open>
  The registry of hooked containers, \<^verbatim>\<open>containerWatch\<close> of \<^verbatim>\<open>cmd/clawguard/main.go\<close>: which
  container has which uprobe links and which pod it belongs to; registering, detaching, and finding
  the container of a process. The mutex makes each operation one step. A link is a number; closing
  it is recorded in \<open>closedLinks\<close>, in order.

  A \<^verbatim>\<open>range\<close> over a Go map visits the keys in an order the runtime chooses: that order is an
  argument, a list without repetitions of exactly the keys (\<open>enumerates\<close>).
\<close>

section \<open>State\<close>

type_synonym link = nat

record targetMeta =
  podName :: string
  podNamespace :: string
  runtime :: string
  containerName :: string

definition no_meta :: targetMeta where
  "no_meta = \<lparr>podName = [], podNamespace = [], runtime = [], containerName = []\<rparr>"

record attachSet =
  links :: "link list"
  containerID :: string

record containerWatch =
  byID :: "string \<rightharpoonup> attachSet"
  metaByID :: "string \<rightharpoonup> targetMeta"
  selfContainerID :: string
  labelPairs :: "labelPair list"

record watchState =
  cw :: containerWatch
  wmetrics :: metrics
  closedLinks :: "link list"

definition enumerates :: "'k list \<Rightarrow> ('k \<rightharpoonup> 'v) \<Rightarrow> bool" where
  "enumerates ks m \<longleftrightarrow> distinct ks \<and> set ks = dom m"

section \<open>Registering and detaching\<close>

definition registerAttach :: "watchState \<Rightarrow> string \<Rightarrow> targetMeta \<Rightarrow> link list \<Rightarrow> watchState" where
  "registerAttach s cid meta ls =
     (case byID (cw s) cid of
        Some _ \<Rightarrow> s\<lparr>closedLinks := closedLinks s @ ls\<rparr>
      | None \<Rightarrow>
          let w = cw s;
              w = w\<lparr>byID := (byID w)(cid \<mapsto> \<lparr>links = ls, containerID = cid\<rparr>)\<rparr>;
              w = w\<lparr>metaByID := (metaByID w)(cid \<mapsto> meta)\<rparr>
          in s\<lparr>cw := w, wmetrics := setAttachedTargets (card (dom (byID w))) (wmetrics s)\<rparr>)"

text \<open>The loop over \<^verbatim>\<open>cw.byID\<close> in \<^verbatim>\<open>detachContainer\<close>: links to close and keys to remove.\<close>

fun detach_scan :: "(string \<rightharpoonup> attachSet) \<Rightarrow> string \<Rightarrow> string list \<Rightarrow> link list \<Rightarrow> string list \<Rightarrow>
    link list \<times> string list" where
  "detach_scan by cid [] toClose removed = (toClose, removed)"
| "detach_scan by cid (k # ks) toClose removed =
     (if k = cid \<or> containerIDsMatch k cid
      then detach_scan by cid ks
             (case by k of None \<Rightarrow> toClose | Some as \<Rightarrow> toClose @ links as) (removed @ [k])
      else detach_scan by cid ks toClose removed)"

definition map_delete :: "'k list \<Rightarrow> ('k \<rightharpoonup> 'v) \<Rightarrow> ('k \<rightharpoonup> 'v)" where
  "map_delete ks m = fold (\<lambda>k m. m(k := None)) ks m"

definition detachContainer :: "watchState \<Rightarrow> string list \<Rightarrow> string \<Rightarrow> watchState" where
  "detachContainer s order cid =
     (let w = cw s;
          (toClose, removed) = detach_scan (byID w) cid order [] [];
          w = w\<lparr>byID := map_delete removed (byID w), metaByID := map_delete removed (metaByID w)\<rparr>;
          n = card (dom (byID w));
          s = s\<lparr>cw := w, wmetrics := setAttachedTargets n (wmetrics s)\<rparr>
      in if toClose = [] then s else s\<lparr>closedLinks := closedLinks s @ toClose\<rparr>)"

text \<open>
  \<^verbatim>\<open>detachAll\<close> collects the keys and detaches each; the orders of the map ranges inside the calls
  are given by \<open>pick\<close>, which sees the map at that moment.
\<close>

fun detach_each :: "((string \<rightharpoonup> attachSet) \<Rightarrow> string list) list \<Rightarrow> string list \<Rightarrow> watchState \<Rightarrow> watchState" where
  "detach_each picks [] s = s"
| "detach_each (pick # picks) (k # ks) s = detach_each picks ks (detachContainer s (pick (byID (cw s))) k)"
| "detach_each [] (k # ks) s = s"

definition detachAll :: "watchState \<Rightarrow> string list \<Rightarrow> ((string \<rightharpoonup> attachSet) \<Rightarrow> string list) list \<Rightarrow> watchState" where
  "detachAll s ids picks = detach_each picks ids s"

section \<open>Attaching\<close>

text \<open>
  \<^verbatim>\<open>attachUprobes\<close>: \<open>env\<close> is the value of \<^verbatim>\<open>CLAWGUARD_RUNTIMES\<close>; \<open>openssl\<close> and \<open>go\<close> are what
  \<^verbatim>\<open>attachOpenSSL\<close> and \<^verbatim>\<open>attachGoTLS\<close> returned, \<open>None\<close> for an error.
\<close>

definition attachUprobes :: "watchState \<Rightarrow> string \<Rightarrow> targetMeta \<Rightarrow> string \<Rightarrow>
    link list option \<Rightarrow> link option \<Rightarrow> watchState" where
  "attachUprobes s cid meta env openssl go =
     (case byID (cw s) cid of
        Some _ \<Rightarrow> s\<lparr>cw := (cw s)\<lparr>metaByID := (metaByID (cw s))(cid \<mapsto> meta)\<rparr>\<rparr>
      | None \<Rightarrow>
          let (wantOpenSSL, wantGo) = parseRuntimes env;
              ls = (if wantOpenSSL then (case openssl of None \<Rightarrow> [] | Some l \<Rightarrow> l) else []);
              ls = (if wantGo then (case go of None \<Rightarrow> ls | Some l \<Rightarrow> ls @ [l]) else ls)
          in if ls = [] then s\<lparr>wmetrics := recordAttachError (wmetrics s)\<rparr>
             else registerAttach s cid meta ls)"

section \<open>The container of a process\<close>

definition lookupTargetByPID :: "containerWatch \<Rightarrow> string list \<Rightarrow> string list \<Rightarrow> string option \<Rightarrow>
    string \<times> targetMeta" where
  "lookupTargetByPID w metaOrder idOrder cgroup =
     (let found =
        (case cgroup of
           None \<Rightarrow> None
         | Some cg \<Rightarrow>
             (let s = ToLower cg
              in case find (cgroup_mentions s) metaOrder of
                   Some cid \<Rightarrow> Some (cid, (case metaByID w cid of Some m \<Rightarrow> m | None \<Rightarrow> no_meta))
                 | None \<Rightarrow>
                     (case find (cgroup_mentions s) idOrder of
                        Some cid \<Rightarrow> Some (cid, (case metaByID w cid of Some m \<Rightarrow> m | None \<Rightarrow> no_meta))
                      | None \<Rightarrow> None)))
      in case found of
           Some r \<Rightarrow> r
         | None \<Rightarrow>
             (case metaOrder of
                cid # _ \<Rightarrow> (cid, (case metaByID w cid of Some m \<Rightarrow> m | None \<Rightarrow> no_meta))
              | [] \<Rightarrow>
                  (case idOrder of
                     cid # _ \<Rightarrow> (cid, no_meta)
                   | [] \<Rightarrow> (''unknown'', no_meta))))"

section \<open>Invariant\<close>

text \<open>
  The two maps have the same keys, the gauge counts them, and no link is in two places or both in
  use and closed.
\<close>

definition active_links :: "watchState \<Rightarrow> link set" where
  "active_links s = (\<Union>as \<in> ran (byID (cw s)). set (links as))"

definition watch_ok :: "watchState \<Rightarrow> bool" where
  "watch_ok s \<longleftrightarrow>
     finite (dom (byID (cw s))) \<and> dom (metaByID (cw s)) = dom (byID (cw s)) \<and>
     attachedTargets (wmetrics s) = card (dom (byID (cw s))) \<and>
     (\<forall>k as. byID (cw s) k = Some as \<longrightarrow>
        containerID as = k \<and> links as \<noteq> [] \<and> distinct (links as) \<and> set (links as) \<inter> set (closedLinks s) = {}) \<and>
     (\<forall>k l as bs. byID (cw s) k = Some as \<longrightarrow> byID (cw s) l = Some bs \<longrightarrow> k \<noteq> l \<longrightarrow>
        set (links as) \<inter> set (links bs) = {}) \<and>
     distinct (closedLinks s)"

definition watch_init :: "string \<Rightarrow> labelPair list \<Rightarrow> watchState" where
  "watch_init self pairs =
     \<lparr>cw = \<lparr>byID = Map.empty, metaByID = Map.empty, selfContainerID = self, labelPairs = pairs\<rparr>,
      wmetrics = metrics_init, closedLinks = []\<rparr>"

lemma watch_ok_init: "watch_ok (watch_init self pairs)"
  by (simp add: watch_ok_def watch_init_def metrics_init_def)

section \<open>Lemmas\<close>

lemma map_delete_eq: "map_delete ks m = (\<lambda>k. if k \<in> set ks then None else m k)"
proof -
  have "fold (\<lambda>k m. m(k := None)) ks m = (\<lambda>k. if k \<in> set ks then None else m k)"
    by (induction ks arbitrary: m) (auto simp: fun_eq_iff)
  then show ?thesis by (simp add: map_delete_def)
qed

definition same_container :: "string \<Rightarrow> string \<Rightarrow> bool" where
  "same_container cid k \<longleftrightarrow> k = cid \<or> containerIDsMatch k cid"

lemma same_container_iff: "same_container cid k \<longleftrightarrow> id_class k = id_class cid"
  by (auto simp: same_container_def containerIDsMatch_iff)

lemma detach_scan_eq:
  "detach_scan by cid ks toClose removed =
     (toClose @ concat (map (\<lambda>k. case by k of None \<Rightarrow> [] | Some as \<Rightarrow> links as) (filter (same_container cid) ks)),
      removed @ filter (same_container cid) ks)"
  by (induction ks arbitrary: toClose removed) (auto simp: same_container_def split: option.splits)

definition closing :: "(string \<rightharpoonup> attachSet) \<Rightarrow> string \<Rightarrow> string list \<Rightarrow> link list" where
  "closing by cid order =
     concat (map (\<lambda>k. case by k of None \<Rightarrow> [] | Some as \<Rightarrow> links as) (filter (same_container cid) order))"

lemma detachContainer_obs:
  shows "byID (cw (detachContainer s order cid)) =
      (\<lambda>k. if k \<in> set order \<and> same_container cid k then None else byID (cw s) k)"
    and "metaByID (cw (detachContainer s order cid)) =
      (\<lambda>k. if k \<in> set order \<and> same_container cid k then None else metaByID (cw s) k)"
    and "closedLinks (detachContainer s order cid) = closedLinks s @ closing (byID (cw s)) cid order"
    and "wmetrics (detachContainer s order cid) =
      setAttachedTargets (card (dom (byID (cw (detachContainer s order cid))))) (wmetrics s)"
    and "selfContainerID (cw (detachContainer s order cid)) = selfContainerID (cw s)"
    and "labelPairs (cw (detachContainer s order cid)) = labelPairs (cw s)"
  by (simp_all add: detachContainer_def Let_def detach_scan_eq map_delete_eq closing_def)

lemma detach_maps:
  assumes "enumerates order (byID (cw s))" and "dom (metaByID (cw s)) = dom (byID (cw s))"
  shows "byID (cw (detachContainer s order cid)) = (\<lambda>k. if same_container cid k then None else byID (cw s) k)"
    and "metaByID (cw (detachContainer s order cid)) = (\<lambda>k. if same_container cid k then None else metaByID (cw s) k)"
proof -
  have "k \<in> set order \<or> byID (cw s) k = None \<and> metaByID (cw s) k = None" for k
    using assms by (auto simp: enumerates_def domIff set_eq_iff)
  then show "byID (cw (detachContainer s order cid)) = (\<lambda>k. if same_container cid k then None else byID (cw s) k)"
    and "metaByID (cw (detachContainer s order cid)) = (\<lambda>k. if same_container cid k then None else metaByID (cw s) k)"
    unfolding detachContainer_obs by (simp_all add: fun_eq_iff) metis+
qed

lemma in_closing:
  "x \<in> set (closing by cid order) \<longleftrightarrow>
     (\<exists>k \<in> set order. \<exists>as. same_container cid k \<and> by k = Some as \<and> x \<in> set (links as))"
proof (induction order)
  case (Cons k ks)
  have "set (closing by cid (k # ks)) =
      (if same_container cid k then (case by k of None \<Rightarrow> {} | Some as \<Rightarrow> set (links as)) else {}) \<union>
      set (closing by cid ks)"
    by (simp add: closing_def split: option.splits)
  then show ?case
    using Cons.IH by (auto split: option.splits if_splits)
qed (simp add: closing_def)

lemma set_closing:
  assumes "enumerates order by"
  shows "x \<in> set (closing by cid order) \<longleftrightarrow> (\<exists>k as. same_container cid k \<and> by k = Some as \<and> x \<in> set (links as))"
  using assms unfolding in_closing by (auto simp: enumerates_def)

lemma watch_okD:
  assumes "watch_ok s"
  shows "finite (dom (byID (cw s)))" and "dom (metaByID (cw s)) = dom (byID (cw s))"
    and "attachedTargets (wmetrics s) = card (dom (byID (cw s)))"
    and "byID (cw s) k = Some as \<Longrightarrow> containerID as = k \<and> links as \<noteq> [] \<and> distinct (links as) \<and>
      set (links as) \<inter> set (closedLinks s) = {}"
    and "byID (cw s) k = Some as \<Longrightarrow> byID (cw s) l = Some bs \<Longrightarrow> k \<noteq> l \<Longrightarrow> set (links as) \<inter> set (links bs) = {}"
    and "distinct (closedLinks s)"
  using assms unfolding watch_ok_def by blast+

lemma distinct_closing:
  assumes "distinct order" and "\<And>k as. by k = Some as \<Longrightarrow> distinct (links as)"
    and "\<And>k l as bs. by k = Some as \<Longrightarrow> by l = Some bs \<Longrightarrow> k \<noteq> l \<Longrightarrow> set (links as) \<inter> set (links bs) = {}"
  shows "distinct (closing by cid order)"
  using assms(1)
proof (induction order)
  case (Cons k ks)
  have disj: "set (links as) \<inter> set (closing by cid ks) = {}" if "by k = Some as" for as
  proof -
    have "x \<notin> set (closing by cid ks)" if "x \<in> set (links as)" for x
      using assms(3) [OF \<open>by k = Some as\<close>] Cons.prems that unfolding in_closing by fastforce
    then show ?thesis by blast
  qed
  show ?case
  proof (cases "same_container cid k")
    case True
    then have "closing by cid (k # ks) = (case by k of None \<Rightarrow> [] | Some as \<Rightarrow> links as) @ closing by cid ks"
      by (simp add: closing_def)
    then show ?thesis
      using Cons disj assms(2) by (simp split: option.splits)
  next
    case False
    then show ?thesis
      using Cons by (simp add: closing_def)
  qed
qed (simp add: closing_def)

text \<open>A step keeps the invariant if it only adds fresh links, or moves links from the map to the log.\<close>

lemma watch_okI:
  assumes "finite (dom (byID (cw s)))" and "dom (metaByID (cw s)) = dom (byID (cw s))"
    and "attachedTargets (wmetrics s) = card (dom (byID (cw s)))"
    and "\<And>k as. byID (cw s) k = Some as \<Longrightarrow> containerID as = k \<and> links as \<noteq> [] \<and> distinct (links as)"
    and "\<And>k as. byID (cw s) k = Some as \<Longrightarrow> set (links as) \<inter> set (closedLinks s) = {}"
    and "\<And>k l as bs. byID (cw s) k = Some as \<Longrightarrow> byID (cw s) l = Some bs \<Longrightarrow> k \<noteq> l \<Longrightarrow>
      set (links as) \<inter> set (links bs) = {}"
    and "distinct (closedLinks s)"
  shows "watch_ok s"
  using assms unfolding watch_ok_def by blast

lemma registerAttach_new:
  assumes "byID (cw s) cid = None"
  shows "byID (cw (registerAttach s cid meta ls)) = (byID (cw s))(cid \<mapsto> \<lparr>links = ls, containerID = cid\<rparr>)"
    and "metaByID (cw (registerAttach s cid meta ls)) = (metaByID (cw s))(cid \<mapsto> meta)"
    and "closedLinks (registerAttach s cid meta ls) = closedLinks s"
    and "attachedTargets (wmetrics (registerAttach s cid meta ls)) = card (insert cid (dom (byID (cw s))))"
  using assms by (simp_all add: registerAttach_def Let_def setAttachedTargets_def)

lemma registerAttach_old:
  assumes "byID (cw s) cid = Some as"
  shows "registerAttach s cid meta ls = s\<lparr>closedLinks := closedLinks s @ ls\<rparr>"
  using assms by (simp add: registerAttach_def)

lemma registerAttach_ok [inv_intros]:
  assumes ok: "watch_ok s" and fresh: "distinct ls" "ls \<noteq> []" "set ls \<inter> (active_links s \<union> set (closedLinks s)) = {}"
  shows "watch_ok (registerAttach s cid meta ls)"
proof (cases "byID (cw s) cid")
  case None
  note r = registerAttach_new [OF None, of meta ls]
  have new: "set ls \<inter> set (links as) = {}" if "byID (cw s) k = Some as" for k as
    using fresh(3) that by (auto simp: active_links_def ran_def)
  show ?thesis
  proof (rule watch_okI, goal_cases)
    case (4 k as)
    then show ?case using watch_okD(4) [OF ok, of k as] fresh by (auto simp: r split: if_splits)
  next
    case (5 k as)
    then show ?case using watch_okD(4) [OF ok, of k as] fresh by (auto simp: r split: if_splits)
  next
    case (6 k l as bs)
    then show ?case using watch_okD(5) [OF ok, of k as l bs] new [of k as] new [of l bs]
      by (auto simp: r split: if_splits)
  qed (use watch_okD [OF ok] in \<open>simp_all add: r\<close>)
next
  case (Some as)
  have new: "set (links as) \<inter> set ls = {}" if "byID (cw s) k = Some as" for k as
    using fresh(3) that by (auto simp: active_links_def ran_def)
  show ?thesis
    unfolding registerAttach_old [OF Some]
  proof (rule watch_okI, goal_cases)
    case (5 k as)
    then show ?case using watch_okD(4) [OF ok, of k as] new [of k as] by auto
  next
    case (6 k l as bs)
    then show ?case using watch_okD(5) [OF ok, of k as l bs] by simp
  next
    case 7
    then show ?case using watch_okD(6) [OF ok] fresh by auto
  qed (use watch_okD [OF ok] in simp_all)
qed

lemma detachContainer_ok [inv_intros]:
  assumes ok: "watch_ok s" and en: "enumerates order (byID (cw s))"
  shows "watch_ok (detachContainer s order cid)"
proof -
  note m = detach_maps [OF en watch_okD(2) [OF ok], of cid]
  note c = detachContainer_obs(3) [of s order cid]
  have gone: "set (links as) \<inter> set (closing (byID (cw s)) cid order) = {}"
    if "byID (cw s) k = Some as" "\<not> same_container cid k" for k as
    using that watch_okD(5) [OF ok, of k as] by (fastforce simp: set_closing [OF en])
  have new: "set (closing (byID (cw s)) cid order) \<inter> set (closedLinks s) = {}"
    using watch_okD(4) [OF ok] by (fastforce simp: set_closing [OF en])
  have dis: "distinct (closing (byID (cw s)) cid order)"
    using en watch_okD(4,5) [OF ok] by (intro distinct_closing) (auto simp: enumerates_def)
  show ?thesis
  proof (rule watch_okI, goal_cases)
    case 1
    show ?case by (rule finite_subset [OF _ watch_okD(1) [OF ok]]) (auto simp: m split: if_splits)
  next
    case 2
    then show ?case using watch_okD(2) [OF ok] by (auto simp: m dom_def set_eq_iff)
  next
    case 3
    then show ?case by (simp add: detachContainer_obs(4) setAttachedTargets_def)
  next
    case (4 k as)
    then show ?case using watch_okD(4) [OF ok, of k as] by (simp add: m split: if_splits)
  next
    case (5 k as)
    then show ?case using watch_okD(4) [OF ok, of k as] gone [of k as] by (auto simp: m c split: if_splits)
  next
    case (6 k l as bs)
    then show ?case using watch_okD(5) [OF ok, of k as l bs] by (simp add: m split: if_splits)
  next
    case 7
    then show ?case using watch_okD(6) [OF ok] new dis by (auto simp: c)
  qed
qed

end
