(* ===== verification/Reassembly.thy ===== *)
theory Reassembly
  imports Frag_Slots Wire Event Container_Watch
begin

text \<open>
  \<^verbatim>\<open>readLoop\<close> of \<^verbatim>\<open>cmd/clawguard/main.go\<close>: ring buffer samples are decoded, the fragments of one
  logical write (one \<^verbatim>\<open>reassemblyKey\<close>) are collected in chunk pool slots, a complete write becomes a
  \<^verbatim>\<open>CaptureEvent\<close> for the pipeline, and writes that stay incomplete longer than the time to live
  are discarded.

  One iteration is a function of the loop's state and of what it reads from outside
  (\<open>iterInput\<close>): every reading of the clock by its place in the code, the watch registry and the
  cgroup file that \<^verbatim>\<open>lookupTargetByPID\<close> sees, and the orders the runtime chooses for its map ranges.
  The pipeline is the one \<^verbatim>\<open>main\<close> sets; the events passed to its \<^verbatim>\<open>Emit\<close> are collected in order.
\<close>

section \<open>State\<close>

datatype reassemblyKey = RKey (kPID: u32) (kTID: u32) (kCallID: u32)

instantiation reassemblyKey :: linorder
begin

definition less_eq_reassemblyKey :: "reassemblyKey \<Rightarrow> reassemblyKey \<Rightarrow> bool" where
  "less_eq_reassemblyKey a b \<longleftrightarrow>
     kPID a < kPID b \<or> kPID a = kPID b \<and> (kTID a < kTID b \<or> kTID a = kTID b \<and> kCallID a \<le> kCallID b)"

definition less_reassemblyKey :: "reassemblyKey \<Rightarrow> reassemblyKey \<Rightarrow> bool" where
  "less_reassemblyKey a b \<longleftrightarrow>
     kPID a < kPID b \<or> kPID a = kPID b \<and> (kTID a < kTID b \<or> kTID a = kTID b \<and> kCallID a < kCallID b)"

instance
  by standard (auto simp: less_eq_reassemblyKey_def less_reassemblyKey_def reassemblyKey.expand)

end

record reassemblyState =
  origLen :: u32
  totalLen :: u32
  truncated :: bool
  fragCnt :: u32
  slots :: fragSlots
  firstAt :: time
  lastAt :: time

record loopState =
  reassemblies :: "reassemblyKey \<rightharpoonup> reassemblyState"
  pool :: ChunkPool
  lmetrics :: metrics
  lastCleanup :: time
  lastPoolGauge :: time
  emitted :: "CaptureEvent list"

record iterInput =
  tkFirst :: time
  tkLast :: time
  tkStamp :: time
  tkGauge :: time
  tkGaugeSet :: time
  tkClean :: time
  tkNow :: time
  inWatch :: containerWatch
  inCgroup :: "u32 \<Rightarrow> string option"
  inMetaOrder :: "string list"
  inIdOrder :: "string list"
  inExpireOrder :: "reassemblyKey list"

section \<open>One fragment\<close>

definition keyOf :: "sslEvent \<Rightarrow> reassemblyKey" where
  "keyOf ev = RKey (sePID ev) (seTID ev) (seCallID ev)"

definition invalid_fragment :: "sslEvent \<Rightarrow> bool" where
  "invalid_fragment ev \<longleftrightarrow> seFragCnt ev = 0 \<or> seFragCnt ev \<le> seFragIdx ev"

definition fragment_len :: "sslEvent \<Rightarrow> u32" where
  "fragment_len ev = (let n = seChunkLen ev in if of_nat maxChunkPayload < n then of_nat maxChunkPayload else n)"

definition new_reassembly :: "sslEvent \<Rightarrow> time \<Rightarrow> reassemblyState" where
  "new_reassembly ev now =
     \<lparr>origLen = seOrigLen ev, totalLen = seTotalLen ev, truncated = (seTruncated ev \<noteq> 0),
      fragCnt = seFragCnt ev, slots = newFragSlots (seFragCnt ev), firstAt = now, lastAt = 0\<rparr>"

definition touch :: "sslEvent \<Rightarrow> time \<Rightarrow> reassemblyState \<Rightarrow> reassemblyState" where
  "touch ev now st =
     (let st = st\<lparr>lastAt := now\<rparr>;
          st = (if origLen st < seOrigLen ev then st\<lparr>origLen := seOrigLen ev\<rparr> else st);
          st = (if totalLen st < seTotalLen ev then st\<lparr>totalLen := seTotalLen ev\<rparr> else st);
          st = (if seTruncated ev \<noteq> 0 then st\<lparr>truncated := True\<rparr> else st)
      in st)"

definition capture_event :: "iterInput \<Rightarrow> sslEvent \<Rightarrow> reassemblyState \<Rightarrow> bytes \<Rightarrow> CaptureEvent" where
  "capture_event inp ev st out =
     (let (cid, meta) = lookupTargetByPID (inWatch inp) (inMetaOrder inp) (inIdOrder inp) (inCgroup inp (sePID ev))
      in \<lparr>ceTimestamp = tkStamp inp, cePID = sePID ev, ceTID = seTID ev, ceCallID = seCallID ev,
          ceOrigLen = origLen st, ceCapturedLen = word_of_nat (length out), ceTruncated = truncated st,
          ceHookType = seHookType ev, cePayload = out, ceContainerID = cid, cePodName = podName meta,
          cePodNamespace = podNamespace meta, ceClawguardVersion = [], ceClawguardCommit = [],
          ceClawguardEdition = [], cePlugins = [], ceFindings = []\<rparr>)"

text \<open>The body of the loop from the lookup of the key to the label \<^verbatim>\<open>maybeCleanup\<close>.\<close>

definition handle_fragment :: "iterInput \<Rightarrow> sslEvent \<Rightarrow> loopState \<Rightarrow> loopState" where
  "handle_fragment inp ev s =
     (let n = fragment_len ev;
          k = keyOf ev;
          st = (case reassemblies s k of None \<Rightarrow> new_reassembly ev (tkFirst inp) | Some st \<Rightarrow> st);
          st = touch ev (tkLast inp) st;
          s = s\<lparr>reassemblies := (reassemblies s)(k \<mapsto> st)\<rparr>
      in if has (slots st) (seFragIdx ev) then s
         else
           let (poolIdx, p, m) = Alloc (pool s) (lmetrics s) (take (unat n) (sePayload ev))
           in if poolIdx < 0
              then let (sl, p) = releaseAll (slots st) p
                   in s\<lparr>pool := p, lmetrics := recordFragmentDrop m,
                        reassemblies := (reassemblies s)(k := None)\<rparr>
              else
                let (sl, isNew) = put (slots st) (seFragIdx ev) poolIdx (int (unat n))
                in if \<not> isNew
                   then s\<lparr>pool := Release p poolIdx, lmetrics := m\<rparr>
                   else
                     let st = st\<lparr>slots := sl\<rparr>;
                         s = s\<lparr>pool := p, lmetrics := m, reassemblies := (reassemblies s)(k \<mapsto> st)\<rparr>
                     in if complete (slots st)
                        then
                          let out = assemble (slots st) (pool s) (totalLen st);
                              (sl, p) = releaseAll (slots st) (pool s);
                              s = s\<lparr>pool := p, reassemblies := (reassemblies s)(k := None)\<rparr>
                          in (case out of
                                None \<Rightarrow> s
                              | Some out \<Rightarrow>
                                  s\<lparr>lmetrics := recordSSLWrite (seHookType ev) (truncated st) (length out) (lmetrics s),
                                    emitted := emitted s @ [capture_event inp ev st out]\<rparr>)
                        else s)"

section \<open>Cleanup\<close>

definition expire :: "time \<Rightarrow> time \<Rightarrow> reassemblyKey \<Rightarrow> loopState \<Rightarrow> loopState" where
  "expire ttl now k s =
     (case reassemblies s k of
        None \<Rightarrow> s
      | Some v \<Rightarrow>
          if now - lastAt v \<le> ttl then s
          else let (sl, p) = releaseAll (slots v) (pool s)
               in s\<lparr>pool := p, lmetrics := recordReassemblyTimeout (lmetrics s),
                    reassemblies := (reassemblies s)(k := None)\<rparr>)"

definition maybeCleanup :: "time \<Rightarrow> iterInput \<Rightarrow> loopState \<Rightarrow> loopState" where
  "maybeCleanup ttl inp s =
     (let s = (if 5000000000 \<le> tkGauge inp - lastPoolGauge s
               then s\<lparr>lmetrics := setChunkPoolFree (FreeApprox (pool s)) (lmetrics s),
                      lastPoolGauge := tkGaugeSet inp\<rparr>
               else s)
      in if tkClean inp - lastCleanup s < 1000000000 then s
         else let now = tkNow inp;
                  s = fold (expire ttl now) (inExpireOrder inp) s
              in s\<lparr>lastCleanup := now\<rparr>)"

section \<open>The loop\<close>

text \<open>A sample that does not decode, an invalid or an empty fragment skips the cleanup.\<close>

definition handle_sample :: "time \<Rightarrow> iterInput \<Rightarrow> bytes \<Rightarrow> loopState \<Rightarrow> loopState" where
  "handle_sample ttl inp raw s =
     (case decode_sslEvent raw of
        None \<Rightarrow> s
      | Some ev \<Rightarrow>
          if invalid_fragment ev then s\<lparr>lmetrics := recordFragmentDrop (lmetrics s)\<rparr>
          else if fragment_len ev = 0 then s\<lparr>lmetrics := recordFragmentDrop (lmetrics s)\<rparr>
          else maybeCleanup ttl inp (handle_fragment inp ev s))"

text \<open>What \<^verbatim>\<open>ringReader.Read()\<close> returned; before it the context was checked.\<close>

datatype read_result = RSample bytes | RClosed | RCanceled | REOF | RError

datatype loop_event = CtxDone "reassemblyKey list" | Iter iterInput read_result

definition release_reassembly :: "reassemblyKey \<Rightarrow> loopState \<Rightarrow> loopState" where
  "release_reassembly k s =
     (case reassemblies s k of
        None \<Rightarrow> s
      | Some st \<Rightarrow>
          let (sl, p) = releaseAll (slots st) (pool s)
          in s\<lparr>pool := p, reassemblies := (reassemblies s)(k \<mapsto> st\<lparr>slots := sl\<rparr>)\<rparr>)"

text \<open>The loop over the events it meets; the flag tells whether it has returned.\<close>

fun readLoop :: "time \<Rightarrow> loop_event list \<Rightarrow> loopState \<Rightarrow> loopState \<times> bool" where
  "readLoop ttl [] s = (s, False)"
| "readLoop ttl (CtxDone order # _) s = (fold release_reassembly order s, True)"
| "readLoop ttl (Iter inp r # es) s =
     (case r of
        RClosed \<Rightarrow> (s, True)
      | RCanceled \<Rightarrow> (s, True)
      | REOF \<Rightarrow> (s, True)
      | RError \<Rightarrow> readLoop ttl es s
      | RSample raw \<Rightarrow> readLoop ttl es (handle_sample ttl inp raw s))"

definition loop_init :: "ChunkPool \<Rightarrow> metrics \<Rightarrow> time \<Rightarrow> time \<Rightarrow> loopState" where
  "loop_init p m t1 t2 =
     \<lparr>reassemblies = Map.empty, pool = p, lmetrics = m, lastCleanup = t1, lastPoolGauge = t2, emitted = []\<rparr>"

end
