(* ===== verification/Reassembly_Inv.thy ===== *)
theory Reassembly_Inv
  imports Reassembly
begin

text \<open>
  The ownership invariant of the reassembly loop: every chunk of the pool is either free or held by
  exactly one slot of exactly one pending write. It is stated on the table of slots (\<open>table_ok\<close>),
  kept by each of the table's elementary changes, and lifted to the steps of the loop.
\<close>

section \<open>The table of slots\<close>

definition table_ok :: "('k \<rightharpoonup> fragSlots) \<Rightarrow> ChunkPool \<Rightarrow> bool" where
  "table_ok f p \<longleftrightarrow>
     pool_ok p \<and> finite (dom f) \<and>
     (\<forall>k sl. f k = Some sl \<longrightarrow> slots_ok p sl) \<and>
     (\<forall>k l sl su. f k = Some sl \<longrightarrow> f l = Some su \<longrightarrow> k \<noteq> l \<longrightarrow> set (held sl) \<inter> set (held su) = {}) \<and>
     (\<forall>i \<in> valid_idx p - free_idx p. \<exists>k sl. f k = Some sl \<and> i \<in> set (held sl))"

lemma table_okI:
  assumes "pool_ok p" and "finite (dom f)"
    and "\<And>k sl. f k = Some sl \<Longrightarrow> slots_ok p sl"
    and "\<And>k l sl su. f k = Some sl \<Longrightarrow> f l = Some su \<Longrightarrow> k \<noteq> l \<Longrightarrow> set (held sl) \<inter> set (held su) = {}"
    and "\<And>i. i \<in> valid_idx p \<Longrightarrow> i \<notin> free_idx p \<Longrightarrow> \<exists>k sl. f k = Some sl \<and> i \<in> set (held sl)"
  shows "table_ok f p"
  using assms unfolding table_ok_def by blast

lemma table_okD:
  assumes "table_ok f p"
  shows "pool_ok p" and "finite (dom f)"
    and "f k = Some sl \<Longrightarrow> slots_ok p sl"
    and "f k = Some sl \<Longrightarrow> f l = Some su \<Longrightarrow> k \<noteq> l \<Longrightarrow> set (held sl) \<inter> set (held su) = {}"
    and "i \<in> valid_idx p \<Longrightarrow> i \<notin> free_idx p \<Longrightarrow> \<exists>k sl. f k = Some sl \<and> i \<in> set (held sl)"
  using assms unfolding table_ok_def by blast+

lemma table_ok_empty:
  assumes "pool_ok p" and "free_idx p = valid_idx p"
  shows "table_ok Map.empty p"
  using assms by (intro table_okI) auto

lemma table_ok_new:
  assumes "table_ok f p" and "f k = None"
  shows "table_ok (f(k \<mapsto> newFragSlots n)) p"
proof (rule table_okI, goal_cases)
  case (3 l sl)
  then show ?case using table_okD(3) [OF assms(1)] by (auto simp: slots_ok_new split: if_splits)
next
  case (4 a b sl su)
  then show ?case using table_okD(4) [OF assms(1)] by (auto simp: slot_simps split: if_splits)
next
  case (5 i)
  then obtain l sl where "f l = Some sl" "i \<in> set (held sl)"
    using table_okD(5) [OF assms(1)] by blast
  then show ?case using assms(2) by (intro exI [of _ l] exI [of _ sl]) auto
qed (use table_okD(1,2) [OF assms(1)] in auto)

text \<open>Slots survive any change of the pool that only gives out free indices.\<close>

lemma slots_ok_mono:
  assumes "slots_ok p sl" and "valid_idx p' = valid_idx p" and "free_idx p' \<subseteq> free_idx p"
  shows "slots_ok p' sl"
  using assms by (auto simp: slots_ok_def)

lemma table_ok_alloc_fail:
  assumes ok: "table_ok f p" and al: "Alloc p m src = (i, p', m')" and "i < 0"
  shows "table_ok f p'" and "Slice p' = Slice p"
proof -
  note pok = table_okD(1) [OF ok]
  have "free_idx p = {}"
    using pool.alloc_neg_iff [OF pok al] assms(3) by simp
  from pool.alloc_empty [OF pok this al]
  have a: "pool_ok p'" "free_idx p' = free_idx p" "valid_idx p' = valid_idx p" "Slice p' = Slice p"
    using \<open>free_idx p = {}\<close> by simp_all
  then show "Slice p' = Slice p" by simp
  show "table_ok f p'"
  proof (rule table_okI, goal_cases)
    case (3 k sl)
    then show ?case using table_okD(3) [OF ok] slots_ok_mono a by blast
  next
    case (4 k l sl su)
    then show ?case using table_okD(4) [OF ok] by blast
  next
    case (5 i)
    then show ?case using table_okD(5) [OF ok] a by simp
  qed (use a table_okD(2) [OF ok] in simp_all)
qed

lemma alloc_fresh:
  assumes ok: "table_ok f p" and al: "Alloc p m src = (i, p', m')" and "0 \<le> i"
  shows "i \<in> valid_idx p" and "i \<in> free_idx p" and "free_idx p' = free_idx p - {i}"
    and "valid_idx p' = valid_idx p" and "pool_ok p'" and "f k = Some sl \<Longrightarrow> i \<notin> set (held sl)"
proof -
  note pok = table_okD(1) [OF ok]
  have ne: "free_idx p \<noteq> {}"
    using pool.alloc_neg_iff [OF pok al] assms(3) by auto
  note a = pool.alloc_takes [OF pok ne al]
  from a show "i \<in> free_idx p" "free_idx p' = free_idx p - {i}" "valid_idx p' = valid_idx p" "pool_ok p'"
    by simp_all
  then show "i \<in> valid_idx p" using pool.frees_valid [OF pok] by blast
  show "i \<notin> set (held sl)" if "f k = Some sl"
    using table_okD(3) [OF ok that] a by (auto simp: slots_ok_def)
qed

lemma table_ok_alloc_release:
  assumes ok: "table_ok f p" and al: "Alloc p m src = (i, p', m')" and "0 \<le> i"
  shows "table_ok f (Release p' i)"
proof -
  note pok = table_okD(1) [OF ok]
  note r = pool.alloc_release [OF pok al assms(3)]
  show ?thesis
  proof (rule table_okI, goal_cases)
    case (3 k sl)
    then show ?case using slots_ok_mono [OF table_okD(3) [OF ok]] r by blast
  next
    case (4 k l sl su)
    then show ?case using table_okD(4) [OF ok] by blast
  next
    case (5 j)
    then show ?case using table_okD(5) [OF ok] r by simp
  qed (use r table_okD(2) [OF ok] in simp_all)
qed

lemma held_put:
  assumes "put sl x i n = (sl', True)" and "0 \<le> i"
  shows "set (held sl') = insert i (set (held sl))" and "length (held sl') = Suc (length (held sl))"
    and "distinct (held sl) \<Longrightarrow> i \<notin> set (held sl) \<Longrightarrow> distinct (held sl')"
    and "count sl' = Suc (count sl)" and "length (idxs sl') = length (idxs sl)"
    and "length (lens sl') = length (lens sl)"
proof -
  have x: "unat x < length (idxs sl)" "\<not> 0 \<le> idxs sl ! unat x" and sl': "idxs sl' = (idxs sl)[unat x := i]"
    using assms(1) by (auto simp: put_def split: if_splits)
  show "set (held sl') = insert i (set (held sl))"
    unfolding held_def sl' using x assms(2) by (intro set_filter_update_fresh) auto
  show "length (held sl') = Suc (length (held sl))"
    unfolding held_def sl' using x assms(2) by (intro length_filter_update_fresh) auto
  show "distinct (held sl')" if "distinct (held sl)" "i \<notin> set (held sl)"
    using that unfolding held_def sl' using x assms(2) by (intro distinct_filter_update_fresh) auto
  show "count sl' = Suc (count sl)" "length (idxs sl') = length (idxs sl)" "length (lens sl') = length (lens sl)"
    using assms(1) by (auto simp: put_def split: if_splits)
qed

lemma table_ok_put:
  assumes ok: "table_ok f p" and f: "f k = Some sl" and al: "Alloc p m src = (i, p', m')" and i: "0 \<le> i"
    and pt: "put sl x i n = (sl', True)"
  shows "table_ok (f(k \<mapsto> sl')) p'"
proof -
  note a = alloc_fresh [OF ok al i]
  note h = held_put [OF pt i]
  have old: "slots_ok p' su" if "f l = Some su" for l su
    using slots_ok_mono [OF table_okD(3) [OF ok that]] a by blast
  have new: "slots_ok p' sl'"
    using table_okD(3) [OF ok f] a(1-4) h a(6) [OF f] by (auto simp: slots_ok_def)
  show ?thesis
  proof (rule table_okI, goal_cases)
    case (3 l su)
    then show ?case using old new by (auto split: if_splits)
  next
    case (4 l l' su su')
    have "set (held sl') \<inter> set (held su) = {}" if "f l = Some su" "l \<noteq> k" for l su
      using table_okD(4) [OF ok f that(1)] that a(6) [OF that(1)] h(1) by auto
    then show ?case using 4 table_okD(4) [OF ok] by (auto split: if_splits) blast+
  next
    case (5 j)
    show ?case
    proof (cases "j = i")
      case True
      then show ?thesis using h(1) by (intro exI [of _ k] exI [of _ sl']) simp
    next
      case False
      then obtain l su where l: "f l = Some su" "j \<in> set (held su)"
        using 5 a table_okD(5) [OF ok, of j] by auto
      then show ?thesis
        using h(1) f by (cases "l = k") (auto intro: exI [of _ k] exI [of _ l])
    qed
  qed (use a table_okD(2) [OF ok] in auto)
qed

lemma table_ok_release:
  assumes ok: "table_ok f p" and f: "f k = Some sl" and r: "releaseAll sl p = (sl', p')"
  shows "table_ok (f(k := None)) p'" and "Slice p' = Slice p" and "valid_idx p' = valid_idx p"
    and "free_idx p' = free_idx p \<union> set (held sl)" and "table_ok (f(k \<mapsto> sl')) p'"
proof -
  note pok = table_okD(1) [OF ok]
  note rel = releaseAll_spec [OF pok table_okD(3) [OF ok f] r]
  show "Slice p' = Slice p" "valid_idx p' = valid_idx p" "free_idx p' = free_idx p \<union> set (held sl)"
    using rel by simp_all
  have other: "slots_ok p' su" if "f l = Some su" "l \<noteq> k" for l su
    using table_okD(3) [OF ok that(1)] table_okD(4) [OF ok f that(1)] that rel(2,3) by (auto simp: slots_ok_def)
  have cover: "\<exists>l su. f l = Some su \<and> l \<noteq> k \<and> i \<in> set (held su)"
    if "i \<in> valid_idx p'" "i \<notin> free_idx p'" for i
    using table_okD(5) [OF ok, of i] that rel(2,3) f by fastforce
  show "table_ok (f(k := None)) p'"
  proof (rule table_okI, goal_cases)
    case (3 l su)
    then show ?case using other by (auto split: if_splits)
  next
    case (4 l l' su su')
    then show ?case using table_okD(4) [OF ok] by (auto split: if_splits)
  next
    case (5 i)
    then show ?case using cover [of i] by auto
  qed (use rel(1) table_okD(2) [OF ok] in auto)
  show "table_ok (f(k \<mapsto> sl')) p'"
  proof (rule table_okI, goal_cases)
    case (3 l su)
    then show ?case using other rel(6) by (auto split: if_splits)
  next
    case (4 l l' su su')
    then show ?case using table_okD(4) [OF ok] rel(5) by (auto split: if_splits)
  next
    case (5 i)
    then show ?case using cover [of i] by auto
  qed (use rel(1) table_okD(2) [OF ok] in auto)
qed

text \<open>Without a pending write, every chunk is free.\<close>

lemma table_ok_empty_free: "table_ok f p \<Longrightarrow> (\<forall>k sl. f k = Some sl \<longrightarrow> held sl = []) \<Longrightarrow> free_idx p = valid_idx p"
  using table_okD(5) [of f p] pool.frees_valid [OF table_okD(1), of f p] by fastforce

section \<open>One fragment, branch by branch\<close>

text \<open>The write a fragment belongs to, after the code has touched it, and the bytes it stores.\<close>

definition touched :: "iterInput \<Rightarrow> sslEvent \<Rightarrow> loopState \<Rightarrow> reassemblyState" where
  "touched inp ev s = touch ev (tkLast inp)
     (case reassemblies s (keyOf ev) of None \<Rightarrow> new_reassembly ev (tkFirst inp) | Some st \<Rightarrow> st)"

definition fragment_bytes :: "sslEvent \<Rightarrow> bytes" where
  "fragment_bytes ev = take (unat (fragment_len ev)) (sePayload ev)"

lemma touch_obs [simp]:
  "slots (touch ev now st) = slots st" "fragCnt (touch ev now st) = fragCnt st"
  "firstAt (touch ev now st) = firstAt st" "lastAt (touch ev now st) = now"
  by (simp_all add: touch_def Let_def)

lemma handle_fragment_unfold:
  "handle_fragment inp ev s =
     (let k = keyOf ev; st = touched inp ev s; s = s\<lparr>reassemblies := (reassemblies s)(k \<mapsto> st)\<rparr>
      in if has (slots st) (seFragIdx ev) then s
         else case Alloc (pool s) (lmetrics s) (fragment_bytes ev) of (poolIdx, p, m) \<Rightarrow>
           if poolIdx < 0
           then (case releaseAll (slots st) p of (sl, p) \<Rightarrow>
                   s\<lparr>pool := p, lmetrics := recordFragmentDrop m, reassemblies := (reassemblies s)(k := None)\<rparr>)
           else (case put (slots st) (seFragIdx ev) poolIdx (int (unat (fragment_len ev))) of (sl, isNew) \<Rightarrow>
             if \<not> isNew then s\<lparr>pool := Release p poolIdx, lmetrics := m\<rparr>
             else
               let st = st\<lparr>slots := sl\<rparr>;
                   s = s\<lparr>pool := p, lmetrics := m, reassemblies := (reassemblies s)(k \<mapsto> st)\<rparr>
               in if complete sl
                  then (case releaseAll sl p of (sl', p') \<Rightarrow>
                    let s = s\<lparr>pool := p', reassemblies := (reassemblies s)(k := None)\<rparr>
                    in (case assemble sl p (totalLen st) of
                          None \<Rightarrow> s
                        | Some out \<Rightarrow>
                            s\<lparr>lmetrics := recordSSLWrite (seHookType ev) (truncated st) (length out) (lmetrics s),
                              emitted := emitted s @ [capture_event inp ev st out]\<rparr>))
                  else s))"
  by (simp add: handle_fragment_def touched_def fragment_bytes_def Let_def split: prod.splits)

lemma handle_fragment_cases:
  fixes inp ev s
  defines "k \<equiv> keyOf ev" and "st \<equiv> touched inp ev s" and "s' \<equiv> handle_fragment inp ev s"
  obtains
    (dup) "has (slots st) (seFragIdx ev)" "s' = s\<lparr>reassemblies := (reassemblies s)(k \<mapsto> st)\<rparr>"
  | (full) i p m sl p' where "\<not> has (slots st) (seFragIdx ev)"
      "Alloc (pool s) (lmetrics s) (fragment_bytes ev) = (i, p, m)" "i < 0"
      "releaseAll (slots st) p = (sl, p')"
      "s' = s\<lparr>pool := p', lmetrics := recordFragmentDrop m, reassemblies := (reassemblies s)(k := None)\<rparr>"
  | (reject) i p m where "\<not> has (slots st) (seFragIdx ev)"
      "Alloc (pool s) (lmetrics s) (fragment_bytes ev) = (i, p, m)" "0 \<le> i"
      "length (idxs (slots st)) \<le> unat (seFragIdx ev)"
      "s' = s\<lparr>reassemblies := (reassemblies s)(k \<mapsto> st), pool := Release p i, lmetrics := m\<rparr>"
  | (store) i p m sl where "\<not> has (slots st) (seFragIdx ev)" "unat (seFragIdx ev) < length (idxs (slots st))"
      "Alloc (pool s) (lmetrics s) (fragment_bytes ev) = (i, p, m)" "0 \<le> i"
      "put (slots st) (seFragIdx ev) i (int (unat (fragment_len ev))) = (sl, True)" "\<not> complete sl"
      "s' = s\<lparr>pool := p, lmetrics := m, reassemblies := (reassemblies s)(k \<mapsto> st\<lparr>slots := sl\<rparr>)\<rparr>"
  | (finish) i p m sl sl' p' out where "\<not> has (slots st) (seFragIdx ev)" "unat (seFragIdx ev) < length (idxs (slots st))"
      "Alloc (pool s) (lmetrics s) (fragment_bytes ev) = (i, p, m)" "0 \<le> i"
      "put (slots st) (seFragIdx ev) i (int (unat (fragment_len ev))) = (sl, True)" "complete sl"
      "releaseAll sl p = (sl', p')" "assemble sl p (totalLen st) = out"
      "s' = (case out of
          None \<Rightarrow> s\<lparr>lmetrics := m, pool := p', reassemblies := (reassemblies s)(k := None)\<rparr>
        | Some out \<Rightarrow> s\<lparr>pool := p', reassemblies := (reassemblies s)(k := None),
            lmetrics := recordSSLWrite (seHookType ev) (truncated st) (length out) m,
            emitted := emitted s @ [capture_event inp ev (st\<lparr>slots := sl\<rparr>) out]\<rparr>)"
proof -
  note u = handle_fragment_unfold [of inp ev s, folded k_def st_def s'_def]
  show ?thesis
  proof (cases "has (slots st) (seFragIdx ev)")
    case True
    then show ?thesis using u by (intro dup) (simp_all add: Let_def)
  next
    case has: False
    obtain i p m where al: "Alloc (pool s) (lmetrics s) (fragment_bytes ev) = (i, p, m)"
      by (cases "Alloc (pool s) (lmetrics s) (fragment_bytes ev)")
    show ?thesis
    proof (cases "i < 0")
      case True
      obtain sl p' where "releaseAll (slots st) p = (sl, p')" by fastforce
      then show ?thesis using u has al True by (intro full) (simp_all add: Let_def)
    next
      case i: False
      show ?thesis
      proof (cases "unat (seFragIdx ev) < length (idxs (slots st))")
        case False
        then have "put (slots st) (seFragIdx ev) i (int (unat (fragment_len ev))) = (slots st, False)"
          by (simp add: put_def)
        then show ?thesis using u has al i False by (intro reject) (simp_all add: Let_def not_less)
      next
        case lt: True
        obtain sl where pt: "put (slots st) (seFragIdx ev) i (int (unat (fragment_len ev))) = (sl, True)"
          using put_True [OF lt has] by blast
        show ?thesis
        proof (cases "complete sl")
          case True
          obtain sl' p' where r: "releaseAll sl p = (sl', p')" by fastforce
          have "0 \<le> i" using i by simp
          note fin = finish [OF has lt al this pt True r]
          show ?thesis
          proof (cases "assemble sl p (totalLen st)")
            case None
            then have "s' = s\<lparr>lmetrics := m, pool := p', reassemblies := (reassemblies s)(k := None)\<rparr>"
              using u has al i pt True r by (simp add: Let_def)
            then show ?thesis by (intro fin [OF None]) simp
          next
            case (Some out)
            then have "s' = s\<lparr>pool := p', reassemblies := (reassemblies s)(k := None),
                lmetrics := recordSSLWrite (seHookType ev) (truncated st) (length out) m,
                emitted := emitted s @ [capture_event inp ev (st\<lparr>slots := sl\<rparr>) out]\<rparr>"
              using u has al i pt True r by (simp add: Let_def)
            then show ?thesis by (intro fin [OF Some]) simp
          qed
        next
          case False
          then show ?thesis using u has lt al i pt by (intro store) (simp_all add: Let_def)
        qed
      qed
    qed
  qed
qed

section \<open>The invariant of the loop\<close>

definition slots_of :: "loopState \<Rightarrow> reassemblyKey \<rightharpoonup> fragSlots" where
  "slots_of s = (\<lambda>k. map_option slots (reassemblies s k))"

text \<open>A pending write is never complete, and has as many slots as fragments were announced.\<close>

definition entry_ok :: "reassemblyState \<Rightarrow> bool" where
  "entry_ok st \<longleftrightarrow> \<not> complete (slots st) \<and> length (idxs (slots st)) = unat (fragCnt st) \<and> 0 < fragCnt st"

definition loop_ok :: "loopState \<Rightarrow> bool" where
  "loop_ok s \<longleftrightarrow> table_ok (slots_of s) (pool s) \<and> (\<forall>k st. reassemblies s k = Some st \<longrightarrow> entry_ok st)"

lemma loop_okI:
  "table_ok (slots_of s) (pool s) \<Longrightarrow> (\<And>k st. reassemblies s k = Some st \<Longrightarrow> entry_ok st) \<Longrightarrow> loop_ok s"
  by (simp add: loop_ok_def)

lemma loop_okD:
  assumes "loop_ok s"
  shows "table_ok (slots_of s) (pool s)" and "reassemblies s k = Some st \<Longrightarrow> entry_ok st"
    and "reassemblies s k = Some st \<Longrightarrow> slots_ok (pool s) (slots st)" and "pool_ok (pool s)"
    and "finite (dom (reassemblies s))"
proof -
  show t: "table_ok (slots_of s) (pool s)"
    using assms by (simp add: loop_ok_def)
  show "entry_ok st" if "reassemblies s k = Some st"
    using assms that by (auto simp: loop_ok_def)
  show "slots_ok (pool s) (slots st)" if "reassemblies s k = Some st"
    using table_okD(3) [OF t, of k "slots st"] that by (simp add: slots_of_def)
  show "pool_ok (pool s)"
    by (rule table_okD(1) [OF t])
  have "dom (slots_of s) = dom (reassemblies s)"
    by (auto simp: slots_of_def)
  then show "finite (dom (reassemblies s))"
    using table_okD(2) [OF t] by simp
qed

lemma loop_ok_init: "loop_ok (loop_init (newChunkPool n) m t1 t2)"
  by (intro loop_okI) (simp_all add: loop_init_def slots_of_def table_ok_empty pool_ok_new new_all_free)

lemma slots_of_upd [simp]:
  "reassemblies s' = (reassemblies s)(k \<mapsto> st) \<Longrightarrow> slots_of s' = (slots_of s)(k \<mapsto> slots st)"
  "reassemblies s' = (reassemblies s)(k := None) \<Longrightarrow> slots_of s' = (slots_of s)(k := None)"
  by (auto simp: slots_of_def fun_eq_iff)

lemma not_complete_new: "\<not> complete (newFragSlots n)"
  by (auto simp add: complete_def newFragSlots_def Let_def)

lemma entry_ok_touched:
  assumes "loop_ok s" and "\<not> invalid_fragment ev"
  shows "entry_ok (touched inp ev s)"
proof (cases "reassemblies s (keyOf ev)")
  case None
  then show ?thesis
    using assms(2) not_complete_new by (simp add: entry_ok_def touched_def new_reassembly_def invalid_fragment_def
        newFragSlots_def Let_def word_neq_0_conv)
next
  case (Some st)
  then show ?thesis
    using loop_okD(2) [OF assms(1) Some] by (simp add: entry_ok_def touched_def)
qed

lemma table_ok_touched:
  assumes "loop_ok s"
  shows "table_ok ((slots_of s)(keyOf ev \<mapsto> slots (touched inp ev s))) (pool s)"
proof (cases "reassemblies s (keyOf ev)")
  case None
  then show ?thesis
    using table_ok_new [OF loop_okD(1) [OF assms], of "keyOf ev"]
    by (simp add: touched_def new_reassembly_def slots_of_def)
next
  case (Some st)
  then have "(slots_of s)(keyOf ev \<mapsto> slots (touched inp ev s)) = slots_of s"
    by (auto simp: touched_def slots_of_def fun_eq_iff)
  then show ?thesis
    using loop_okD(1) [OF assms] by simp
qed

lemma handle_fragment_ok [inv_intros]:
  assumes ok: "loop_ok s" and valid: "\<not> invalid_fragment ev"
  shows "loop_ok (handle_fragment inp ev s)"
proof -
  let ?k = "keyOf ev" and ?st = "touched inp ev s"
  note t = table_ok_touched [OF ok, of ev inp]
  note e = entry_ok_touched [OF ok valid, of inp]
  note old = loop_okD(2) [OF ok]
  show ?thesis
  proof (cases rule: handle_fragment_cases [of inp ev s])
    case dup
    then show ?thesis
      using t e by (intro loop_okI) (auto dest: old split: if_splits)
  next
    case (full i p m sl p')
    have "table_ok ((slots_of s)(?k := None)) p'"
      using table_ok_release(1) [OF table_ok_alloc_fail(1) [OF t full(2,3)] _ full(4), of ?k] by simp
    then show ?thesis
      using full(5) by (intro loop_okI) (auto dest: old split: if_splits)
  next
    case (reject i p m)
    then show ?thesis
      using table_ok_alloc_release [OF t reject(2,3)] e by (intro loop_okI) (auto dest: old split: if_splits)
  next
    case (store i p m sl)
    have "table_ok ((slots_of s)(?k \<mapsto> sl)) p"
      using table_ok_put [OF t _ store(3,4,5), of ?k] by simp
    moreover have "entry_ok (?st\<lparr>slots := sl\<rparr>)"
      using e store(6) held_put(5) [OF store(5,4)] by (simp add: entry_ok_def)
    ultimately show ?thesis
      using store(7) by (intro loop_okI) (auto dest: old split: if_splits)
  next
    case (finish i p m sl sl' p' out)
    have "table_ok ((slots_of s)(?k \<mapsto> sl)) p"
      using table_ok_put [OF t _ finish(3,4,5), of ?k] by simp
    from table_ok_release(1) [OF this _ finish(7), of ?k]
    have "table_ok ((slots_of s)(?k := None)) p'" by simp
    then show ?thesis
      using finish(9) by (intro loop_okI) (auto dest: old split: if_splits option.splits)
  qed
qed

lemma expire_cases:
  obtains "expire ttl now k s = s" "\<And>st. reassemblies s k = Some st \<Longrightarrow> now - lastAt st \<le> ttl"
  | st sl p where "reassemblies s k = Some st" "ttl < now - lastAt st" "releaseAll (slots st) (pool s) = (sl, p)"
      "expire ttl now k s = s\<lparr>pool := p, lmetrics := recordReassemblyTimeout (lmetrics s),
         reassemblies := (reassemblies s)(k := None)\<rparr>"
proof (cases "reassemblies s k")
  case None
  then show ?thesis using that(1) by (simp add: expire_def)
next
  case (Some st)
  obtain sl p where r: "releaseAll (slots st) (pool s) = (sl, p)" by fastforce
  show ?thesis
  proof (cases "now - lastAt st \<le> ttl")
    case True
    then show ?thesis using that(1) Some by (simp add: expire_def)
  next
    case False
    then show ?thesis using that(2) [OF Some _ r] Some r by (simp add: expire_def)
  qed
qed

lemma expire_ok [inv_intros]:
  assumes ok: "loop_ok s"
  shows "loop_ok (expire ttl now k s)"
proof (cases rule: expire_cases [of ttl now k s])
  case 1
  then show ?thesis using ok by simp
next
  case (2 st sl p)
  have "table_ok ((slots_of s)(k := None)) p"
    using table_ok_release(1) [OF loop_okD(1) [OF ok] _ 2(3), of k] 2(1) by (simp add: slots_of_def)
  then show ?thesis
    using 2(4) loop_okD(2) [OF ok] by (intro loop_okI) (auto split: if_splits)
qed

lemma fold_expire_ok [inv_intros]: "loop_ok s \<Longrightarrow> loop_ok (fold (expire ttl now) ks s)"
  by (induction ks arbitrary: s) (auto intro: inv_intros)

lemma loop_ok_cong:
  "loop_ok s \<Longrightarrow> reassemblies s' = reassemblies s \<Longrightarrow> pool s' = pool s \<Longrightarrow> loop_ok s'"
  by (simp add: loop_ok_def slots_of_def)

lemma maybeCleanup_ok [inv_intros]:
  assumes "loop_ok s"
  shows "loop_ok (maybeCleanup ttl inp s)"
proof -
  have gauge: "loop_ok (s\<lparr>lmetrics := m, lastPoolGauge := t\<rparr>)" for m t
    by (rule loop_ok_cong [OF assms]) simp_all
  have stamp: "loop_ok (u\<lparr>lastCleanup := t\<rparr>)" if "loop_ok u" for u t
    by (rule loop_ok_cong [OF that]) simp_all
  show ?thesis
    by (simp add: maybeCleanup_def Let_def gauge stamp assms fold_expire_ok)
qed

lemma handle_sample_ok [inv_intros]:
  assumes "loop_ok s"
  shows "loop_ok (handle_sample ttl inp raw s)"
proof -
  have drop: "loop_ok (s\<lparr>lmetrics := m\<rparr>)" for m
    by (rule loop_ok_cong [OF assms]) simp_all
  have "loop_ok (maybeCleanup ttl inp (handle_fragment inp ev s))" if "\<not> invalid_fragment ev" for ev
    using assms that by (intro inv_intros)
  then show ?thesis
    using assms drop by (simp add: handle_sample_def split: option.split)
qed

lemma release_reassembly_ok [inv_intros]:
  assumes ok: "loop_ok s"
  shows "loop_ok (release_reassembly k s)"
proof (cases "reassemblies s k")
  case None
  then show ?thesis using ok by (simp add: release_reassembly_def)
next
  case (Some st)
  obtain sl p where r: "releaseAll (slots st) (pool s) = (sl, p)" by fastforce
  then have s': "release_reassembly k s = s\<lparr>pool := p, reassemblies := (reassemblies s)(k \<mapsto> st\<lparr>slots := sl\<rparr>)\<rparr>"
    using Some by (simp add: release_reassembly_def)
  have "table_ok ((slots_of s)(k \<mapsto> sl)) p"
    using table_ok_release(5) [OF loop_okD(1) [OF ok] _ r, of k] Some by (simp add: slots_of_def)
  moreover have "entry_ok (st\<lparr>slots := sl\<rparr>)"
    using loop_okD(2) [OF ok Some] r by (auto simp: entry_ok_def releaseAll_def complete_def)
  ultimately show ?thesis
    using s' loop_okD(2) [OF ok] by (intro loop_okI) (auto split: if_splits)
qed

lemma fold_release_ok [inv_intros]: "loop_ok s \<Longrightarrow> loop_ok (fold release_reassembly ks s)"
  by (induction ks arbitrary: s) (auto intro: inv_intros)

lemma readLoop_ok [inv_intros]: "loop_ok s \<Longrightarrow> loop_ok (fst (readLoop ttl es s))"
  by (induction ttl es s rule: readLoop.induct) (auto intro: inv_intros split: read_result.splits)

end
