(* ===== verification/Reassembly_Spec.thy ===== *)
theory Reassembly_Spec
  imports Reassembly_Inv
begin

text \<open>
  What the reassembly loop promises, without pool and slots: a pending write is the list of the
  fragments it still waits for or has (\<open>aFrags\<close>), and one fragment acts on one write. The loop
  refines this machine; the pool appears only as the question whether a chunk was free. From the
  refinement follow the behaviour of interleaved writes and the reconstruction of the payload.
\<close>

section \<open>The abstract machine\<close>

record absWrite =
  aOrig :: u32
  aTotal :: u32
  aTrunc :: bool
  aFrags :: "bytes option list"
  aLast :: time

definition spec_new :: "sslEvent \<Rightarrow> absWrite" where
  "spec_new ev = \<lparr>aOrig = seOrigLen ev, aTotal = seTotalLen ev, aTrunc = (seTruncated ev \<noteq> 0),
     aFrags = replicate (unat (seFragCnt ev)) None, aLast = 0\<rparr>"

definition spec_touch :: "time \<Rightarrow> sslEvent \<Rightarrow> absWrite option \<Rightarrow> absWrite" where
  "spec_touch now ev a =
     (let w = (case a of None \<Rightarrow> spec_new ev | Some w \<Rightarrow> w)
      in w\<lparr>aOrig := max (aOrig w) (seOrigLen ev), aTotal := max (aTotal w) (seTotalLen ev),
           aTrunc := (aTrunc w \<or> seTruncated ev \<noteq> 0), aLast := now\<rparr>)"

definition spec_payload :: "u32 \<Rightarrow> bytes option list \<Rightarrow> bytes" where
  "spec_payload tot fs =
     (let out = concat (map the fs)
      in if 0 < tot \<and> tot < (word_of_nat (length out) :: u32) then take (unat tot) out else out)"

definition spec_step :: "bool \<Rightarrow> time \<Rightarrow> sslEvent \<Rightarrow> absWrite option \<Rightarrow> absWrite option \<times> (absWrite \<times> bytes) option" where
  "spec_step room now ev a =
     (let w = spec_touch now ev a; i = unat (seFragIdx ev)
      in if i < length (aFrags w) \<and> aFrags w ! i \<noteq> None then (Some w, None)
         else if \<not> room then (None, None)
         else if length (aFrags w) \<le> i then (Some w, None)
         else let w = w\<lparr>aFrags := (aFrags w)[i := Some (fragment_bytes ev)]\<rparr>
              in if None \<in> set (aFrags w) then (Some w, None)
                 else (None, Some (w, spec_payload (aTotal w) (aFrags w))))"

definition spec_event :: "iterInput \<Rightarrow> sslEvent \<Rightarrow> absWrite \<Rightarrow> bytes \<Rightarrow> CaptureEvent" where
  "spec_event inp ev w out =
     (let (cid, meta) = lookupTargetByPID (inWatch inp) (inMetaOrder inp) (inIdOrder inp) (inCgroup inp (sePID ev))
      in \<lparr>ceTimestamp = tkStamp inp, cePID = sePID ev, ceTID = seTID ev, ceCallID = seCallID ev,
          ceOrigLen = aOrig w, ceCapturedLen = word_of_nat (length out), ceTruncated = aTrunc w,
          ceHookType = seHookType ev, cePayload = out, ceContainerID = cid, cePodName = podName meta,
          cePodNamespace = podNamespace meta, ceClawguardVersion = [], ceClawguardCommit = [],
          ceClawguardEdition = [], cePlugins = [], ceFindings = []\<rparr>)"

section \<open>Abstraction\<close>

definition abs_write :: "ChunkPool \<Rightarrow> reassemblyState \<Rightarrow> absWrite" where
  "abs_write p st = \<lparr>aOrig = origLen st, aTotal = totalLen st, aTrunc = truncated st,
     aFrags = frags p (slots st), aLast = lastAt st\<rparr>"

definition abs_loop :: "loopState \<Rightarrow> reassemblyKey \<rightharpoonup> absWrite" where
  "abs_loop s = (\<lambda>k. map_option (abs_write (pool s)) (reassemblies s k))"

text \<open>Changes of the pool that leave the held chunks alone do not change the fragments.\<close>

lemma frags_cong:
  assumes "\<And>i n. i \<in> set (held sl) \<Longrightarrow> Slice p' i n = Slice p i n"
  shows "frags p' sl = frags p sl"
  unfolding frags_def
proof (rule map_cong [OF refl], clarify)
  fix i l assume "(i, l) \<in> set (zip (idxs sl) (lens sl))"
  then have "i \<in> set (idxs sl)" by (rule set_zip_leftD)
  then show "(if i < 0 then None else Some (Slice p' i (int (unat l)))) =
      (if i < 0 then None else Some (Slice p i (int (unat l))))"
    using assms [of i] by (auto simp: held_def)
qed

lemma frags_alloc:
  assumes "pool_ok p" and "Alloc p m src = (i, p', m')" and "slots_ok p sl"
  shows "frags p' sl = frags p sl"
  using pool.alloc_keeps_held [OF assms(1,2)] slots_okD(4) [OF assms(3)] by (intro frags_cong) blast

lemma frags_Slice_eq: "Slice p' = Slice p \<Longrightarrow> frags p' sl = frags p sl"
  by (rule frags_cong) simp

lemma frags_put:
  assumes pok: "pool_ok p" and sok: "slots_ok p sl" and al: "Alloc p m src = (i, p', m')" and i: "0 \<le> i"
    and pt: "put sl x i (int n) = (sl', True)" and n: "n = length src" "n \<le> chunkSize"
  shows "frags p' sl' = (frags p sl)[unat x := Some src]"
proof (rule nth_equalityI)
  have len: "length (lens sl) = length (idxs sl)" using slots_okD(1) [OF sok] .
  have x: "unat x < length (idxs sl)" and sl': "idxs sl' = (idxs sl)[unat x := i]"
    "lens sl' = (lens sl)[unat x := word_of_int (int n)]"
    using pt by (auto simp: put_def split: if_splits)
  have len': "length (lens sl') = length (idxs sl')" using sl' len by simp
  show "length (frags p' sl') = length ((frags p sl)[unat x := Some src])"
    using len len' sl' by simp
  fix j assume "j < length (frags p' sl')"
  then have j: "j < length (idxs sl)" using len' sl' by simp
  have "free_idx p \<noteq> {}"
    using pool.alloc_neg_iff [OF pok al] i by auto
  then have stored: "Slice p' i (int (length src)) = src"
    using pool.alloc_stores [OF pok _ al] n by simp
  have "unat (word_of_int (int n) :: u16) = n"
    using n(2) by (simp add: chunkSize_def unat_of_nat take_bit_nat_eq_self)
  moreover have "frags p' sl ! j = frags p sl ! j"
    using frags_alloc [OF pok al sok] by simp
  ultimately show "frags p' sl' ! j = (frags p sl)[unat x := Some src] ! j"
    using j x i len len' n(1) stored
    by (cases "j = unat x") (auto simp: nth_frags sl' split: if_splits)
qed

section \<open>Refinement\<close>

lemma abs_touched:
  "abs_write p (touched inp ev s) =
     spec_touch (tkLast inp) ev (map_option (abs_write p) (reassemblies s (keyOf ev)))"
proof (cases "reassemblies s (keyOf ev)")
  case None
  then show ?thesis
    by (simp add: abs_write_def touched_def spec_touch_def spec_new_def new_reassembly_def touch_def Let_def
        slot_simps max_def)
next
  case (Some st)
  then show ?thesis
    by (auto simp: abs_write_def touched_def spec_touch_def touch_def Let_def max_def)
qed

lemma abs_loop_upd:
  assumes "\<And>l st. reassemblies s l = Some st \<Longrightarrow> l \<noteq> k \<Longrightarrow> frags p' (slots st) = frags (pool s) (slots st)"
    and "pool s' = p'" and "reassemblies s' = (reassemblies s)(k := x)"
  shows "abs_loop s' = (abs_loop s)(k := map_option (abs_write p') x)"
proof
  fix l
  show "abs_loop s' l = ((abs_loop s)(k := map_option (abs_write p') x)) l"
    using assms(1) [of l] assms(2,3) by (cases "reassemblies s l") (auto simp: abs_loop_def abs_write_def)
qed

lemma abs_loop_touched:
  assumes "loop_ok s"
  shows "abs_write (pool s) (touched inp ev s) = spec_touch (tkLast inp) ev (abs_loop s (keyOf ev))"
  by (simp add: abs_touched abs_loop_def)

lemma aFrags_abs [simp]: "aFrags (abs_write p st) = frags p (slots st)"
  by (simp add: abs_write_def)

lemma length_fragment_bytes:
  "length (sePayload ev) = maxChunkPayload \<Longrightarrow> length (fragment_bytes ev) = unat (fragment_len ev)"
  by (auto simp: fragment_bytes_def fragment_len_def Let_def maxChunkPayload_def word_less_nat_alt min_def)

lemma fragment_len_le: "unat (fragment_len ev) \<le> chunkSize"
  by (auto simp: fragment_len_def Let_def maxChunkPayload_def chunkSize_def word_less_nat_alt)

lemma handle_fragment_refines:
  fixes inp ev s
  assumes ok: "loop_ok s" and valid: "\<not> invalid_fragment ev" and pl: "length (sePayload ev) = maxChunkPayload"
  defines "r \<equiv> spec_step (free_idx (pool s) \<noteq> {}) (tkLast inp) ev (abs_loop s (keyOf ev))"
  shows "abs_loop (handle_fragment inp ev s) = (abs_loop s)(keyOf ev := fst r) \<and>
    emitted (handle_fragment inp ev s) =
      emitted s @ (case snd r of None \<Rightarrow> [] | Some (w, out) \<Rightarrow> [spec_event inp ev w out])"
proof -
  let ?k = "keyOf ev" and ?st = "touched inp ev s"
  note t = table_ok_touched [OF ok, of ev inp]
  note pok = loop_okD(4) [OF ok]
  note w = abs_loop_touched [OF ok, of inp ev, symmetric]
  have sok: "slots_ok (pool s) (slots ?st)"
    using table_okD(3) [OF t, of ?k "slots ?st"] by simp
  have keep: "frags p (slots su) = frags (pool s) (slots su)"
    if "reassemblies s l = Some su" "l \<noteq> ?k" "Alloc (pool s) (lmetrics s) (fragment_bytes ev) = (i, p, m)" for l su p i m
    using frags_alloc [OF pok that(3) loop_okD(3) [OF ok that(1)]] .
  have hasF: "has (slots ?st) (seFragIdx ev) \<longleftrightarrow>
      unat (seFragIdx ev) < length (frags (pool s) (slots ?st)) \<and> frags (pool s) (slots ?st) ! unat (seFragIdx ev) \<noteq> None"
    by (rule has_frags [OF sok])
  have lenF: "length (frags (pool s) (slots ?st)) = length (idxs (slots ?st))"
    using slots_okD(1) [OF sok] by simp
  note spec = r_def spec_step_def Let_def w
  show ?thesis
  proof (cases rule: handle_fragment_cases [of inp ev s])
    case dup
    have "abs_loop (handle_fragment inp ev s) = (abs_loop s)(?k := map_option (abs_write (pool s)) (Some ?st))"
      by (rule abs_loop_upd) (simp_all add: dup(2))
    moreover have "r = (Some (abs_write (pool s) ?st), None)"
      using dup(1) hasF by (simp add: spec)
    ultimately show ?thesis using dup(2) by simp
  next
    case (full i p m sl p')
    note f = table_ok_alloc_fail [OF t full(2,3)]
    have "Slice p' = Slice (pool s)"
      using table_ok_release(2) [OF f(1) _ full(4), of ?k] f(2) by simp
    then have "abs_loop (handle_fragment inp ev s) = (abs_loop s)(?k := map_option (abs_write p') None)"
      by (intro abs_loop_upd frags_Slice_eq) (simp_all add: full(5))
    moreover have "r = (None, None)"
      using full(1,3) hasF pool.alloc_neg_iff [OF pok full(2)] by (simp add: spec)
    ultimately show ?thesis using full(5) by simp
  next
    case (reject i p m)
    have "frags (Release p i) (slots su) = frags (pool s) (slots su)"
      if "reassemblies s l = Some su" "l \<noteq> ?k" for l su
      using keep [OF that reject(2)] frags_Slice_eq [OF Release_obs(1)] by simp
    then have "abs_loop (handle_fragment inp ev s) = (abs_loop s)(?k := map_option (abs_write (Release p i)) (Some ?st))"
      by (rule abs_loop_upd) (simp_all add: reject(5))
    moreover have "abs_write (Release p i) ?st = abs_write (pool s) ?st"
      using frags_alloc [OF pok reject(2) sok] frags_Slice_eq [OF Release_obs(1), of p i "slots ?st"]
      by (simp add: abs_write_def)
    moreover have "r = (Some (abs_write (pool s) ?st), None)"
      using reject(1,3,4) hasF lenF pool.alloc_neg_iff [OF pok reject(2)] by (simp add: spec not_le)
    ultimately show ?thesis using reject(5) by simp
  next
    case (store i p m sl)
    have fr: "frags p sl = (frags (pool s) (slots ?st))[unat (seFragIdx ev) := Some (fragment_bytes ev)]"
      using frags_put [OF pok sok store(3,4,5)] length_fragment_bytes [OF pl] fragment_len_le by simp
    have "abs_loop (handle_fragment inp ev s) = (abs_loop s)(?k := map_option (abs_write p) (Some (?st\<lparr>slots := sl\<rparr>)))"
      using keep store(3) by (intro abs_loop_upd) (simp_all add: store(7))
    moreover have "None \<in> set (frags p sl)"
      using store(6) complete_iff [OF table_okD(3) [OF table_ok_put [OF t _ store(3,4,5), of ?k], of ?k sl]]
        store(2) fr lenF by auto
    then have "r = (Some (abs_write p (?st\<lparr>slots := sl\<rparr>)), None)"
      using store(1,2,4) hasF lenF fr pool.alloc_neg_iff [OF pok store(3)]
      by (simp add: spec) (simp add: abs_write_def)
    ultimately show ?thesis using store(7) by simp
  next
    case (finish i p m sl sl' p' out)
    have fr: "frags p sl = (frags (pool s) (slots ?st))[unat (seFragIdx ev) := Some (fragment_bytes ev)]"
      using frags_put [OF pok sok finish(3,4,5)] length_fragment_bytes [OF pl] fragment_len_le by simp
    have t': "table_ok ((slots_of s)(?k \<mapsto> sl)) p"
      using table_ok_put [OF t _ finish(3,4,5), of ?k] by simp
    have sok': "slots_ok p sl"
      using table_okD(3) [OF t', of ?k sl] by simp
    have full: "None \<notin> set (frags p sl)"
      using finish(6) complete_iff [OF sok'] by simp
    have "Slice p' = Slice p"
      using table_ok_release(2) [OF t' _ finish(7), of ?k] by simp
    then have "frags p' (slots su) = frags (pool s) (slots su)" if "reassemblies s l = Some su" "l \<noteq> ?k" for l su
      using keep [OF that finish(3)] frags_Slice_eq by metis
    then have "abs_loop (handle_fragment inp ev s) = (abs_loop s)(?k := map_option (abs_write p') None)"
      by (rule abs_loop_upd) (simp_all add: finish(9) split: option.split)
    moreover have "out = Some (spec_payload (totalLen ?st) (frags p sl))"
      using finish(8) assemble_frags [OF sok'] full by (simp add: spec_payload_def Let_def)
    moreover have "aTotal (abs_write (pool s) ?st) = totalLen ?st" "aTrunc (abs_write (pool s) ?st) = truncated ?st"
      "aOrig (abs_write (pool s) ?st) = origLen ?st"
      by (simp_all add: abs_write_def)
    moreover from this have "r = (None, Some ((abs_write (pool s) ?st)\<lparr>aFrags := frags p sl\<rparr>, spec_payload (totalLen ?st) (frags p sl)))"
      using finish(1,2,4) hasF lenF fr full pool.alloc_neg_iff [OF pok finish(3)]
      by (simp add: spec)
    ultimately show ?thesis using finish(9) by (simp add: spec_event_def capture_event_def)
  qed
qed

end
