(* ===== verification/Reassembly_Runs.thy ===== *)
theory Reassembly_Runs
  imports Reassembly_Spec
begin

text \<open>
  Runs of the reassembly loop over many samples: cleanup on the abstract machine, how many chunks a
  run needs, the projection of a run to one write, and the reconstruction of a write whose fragments
  arrive in any order among those of other writes.
\<close>

section \<open>Cleanup on the abstract machine\<close>

definition spec_expire :: "time \<Rightarrow> time \<Rightarrow> absWrite option \<Rightarrow> absWrite option" where
  "spec_expire ttl now a = (case a of None \<Rightarrow> None | Some w \<Rightarrow> if now - aLast w \<le> ttl then Some w else None)"

definition cleaning :: "iterInput \<Rightarrow> loopState \<Rightarrow> bool" where
  "cleaning inp s \<longleftrightarrow> \<not> tkClean inp - lastCleanup s < 1000000000"

lemma expire_refines:
  assumes ok: "loop_ok s"
  shows "abs_loop (expire ttl now k s) = (abs_loop s)(k := spec_expire ttl now (abs_loop s k)) \<and>
      emitted (expire ttl now k s) = emitted s \<and> free_idx (pool s) \<subseteq> free_idx (pool (expire ttl now k s)) \<and>
      valid_idx (pool (expire ttl now k s)) = valid_idx (pool s) \<and>
      dom (reassemblies (expire ttl now k s)) \<subseteq> dom (reassemblies s)" (is ?concl)
proof (cases rule: expire_cases [of ttl now k s])
  case 1
  then have "spec_expire ttl now (abs_loop s k) = abs_loop s k"
    by (cases "reassemblies s k") (auto simp: spec_expire_def abs_loop_def abs_write_def)
  then show ?concl
    using 1 by simp
next
  case (2 st sl p)
  note r = table_ok_release [OF loop_okD(1) [OF ok] _ 2(3), of k]
  have sk: "slots_of s k = Some (slots st)" using 2(1) by (simp add: slots_of_def)
  have "abs_loop (expire ttl now k s) = (abs_loop s)(k := map_option (abs_write p) None)"
    using r(2) [OF sk] by (intro abs_loop_upd frags_Slice_eq) (simp_all add: 2(4))
  moreover have "spec_expire ttl now (abs_loop s k) = None"
    using 2(1,2) by (simp add: spec_expire_def abs_loop_def abs_write_def)
  ultimately show ?concl
    using r(3,4) [OF sk] by (auto simp: 2(4))
qed

lemma spec_expire_idem [simp]: "spec_expire ttl now (spec_expire ttl now a) = spec_expire ttl now a"
  by (simp add: spec_expire_def split: option.splits)

lemma fold_expire_refines:
  assumes "loop_ok s"
  shows "abs_loop (fold (expire ttl now) ks s) =
      (\<lambda>k. if k \<in> set ks then spec_expire ttl now (abs_loop s k) else abs_loop s k) \<and>
    emitted (fold (expire ttl now) ks s) = emitted s \<and>
    free_idx (pool s) \<subseteq> free_idx (pool (fold (expire ttl now) ks s)) \<and>
    valid_idx (pool (fold (expire ttl now) ks s)) = valid_idx (pool s) \<and>
    dom (reassemblies (fold (expire ttl now) ks s)) \<subseteq> dom (reassemblies s)"
  using assms
proof (induction ks arbitrary: s)
  case (Cons k ks)
  note e = expire_refines [OF Cons.prems, of ttl now k]
  note ih = Cons.IH [OF expire_ok [OF Cons.prems, of ttl now k]]
  have "abs_loop (fold (expire ttl now) (k # ks) s) =
      (\<lambda>l. if l \<in> set (k # ks) then spec_expire ttl now (abs_loop s l) else abs_loop s l)"
    using ih e by (auto simp: fun_eq_iff)
  moreover have "free_idx (pool s) \<subseteq> free_idx (pool (fold (expire ttl now) (k # ks) s))"
    using ih e by (simp del: fold_simps add: fold_simps(2)) (meson subset_trans)
  moreover have "dom (reassemblies (fold (expire ttl now) (k # ks) s)) \<subseteq> dom (reassemblies s)"
    using ih e by (simp del: fold_simps add: fold_simps(2)) (meson subset_trans)
  ultimately show ?case using ih e by simp
qed auto

lemma abs_loop_cong:
  "reassemblies s' = reassemblies s \<Longrightarrow> pool s' = pool s \<Longrightarrow> abs_loop s' = abs_loop s"
  by (simp add: abs_loop_def)

lemma dom_abs_loop [simp]: "dom (abs_loop s) = dom (reassemblies s)"
  by (auto simp: abs_loop_def)

lemma maybeCleanup_refines:
  assumes ok: "loop_ok s"
  shows "abs_loop (maybeCleanup ttl inp s) =
      (\<lambda>k. if cleaning inp s \<and> k \<in> set (inExpireOrder inp) then spec_expire ttl (tkNow inp) (abs_loop s k) else abs_loop s k)"
    and "emitted (maybeCleanup ttl inp s) = emitted s"
    and "free_idx (pool s) \<subseteq> free_idx (pool (maybeCleanup ttl inp s))"
    and "valid_idx (pool (maybeCleanup ttl inp s)) = valid_idx (pool s)"
    and "dom (reassemblies (maybeCleanup ttl inp s)) \<subseteq> dom (reassemblies s)"
proof -
  define u where "u = (if 5000000000 \<le> tkGauge inp - lastPoolGauge s
      then s\<lparr>lmetrics := setChunkPoolFree (FreeApprox (pool s)) (lmetrics s), lastPoolGauge := tkGaugeSet inp\<rparr> else s)"
  have u: "reassemblies u = reassemblies s" "pool u = pool s" "emitted u = emitted s" "lastCleanup u = lastCleanup s"
    by (simp_all add: u_def)
  have uok: "loop_ok u" by (rule loop_ok_cong [OF ok u(1,2)])
  have ua: "abs_loop u = abs_loop s" by (rule abs_loop_cong [OF u(1,2)])
  have m: "maybeCleanup ttl inp s = (if cleaning inp s then (fold (expire ttl (tkNow inp)) (inExpireOrder inp) u)\<lparr>lastCleanup := tkNow inp\<rparr> else u)"
    by (simp add: maybeCleanup_def u_def [symmetric] Let_def cleaning_def u(4))
  note f = fold_expire_refines [OF uok, of ttl "tkNow inp" "inExpireOrder inp"]
  have a: "abs_loop (v\<lparr>lastCleanup := t\<rparr>) = abs_loop v" for v t
    by (rule abs_loop_cong) simp_all
  show "abs_loop (maybeCleanup ttl inp s) =
      (\<lambda>k. if cleaning inp s \<and> k \<in> set (inExpireOrder inp) then spec_expire ttl (tkNow inp) (abs_loop s k) else abs_loop s k)"
    using f ua by (simp add: m a fun_eq_iff)
  show "emitted (maybeCleanup ttl inp s) = emitted s" "free_idx (pool s) \<subseteq> free_idx (pool (maybeCleanup ttl inp s))"
    "valid_idx (pool (maybeCleanup ttl inp s)) = valid_idx (pool s)"
    "dom (reassemblies (maybeCleanup ttl inp s)) \<subseteq> dom (reassemblies s)"
    using f u by (simp_all add: m)
qed

section \<open>Chunks a fragment needs\<close>

definition free_count :: "loopState \<Rightarrow> nat" where
  "free_count s = card (free_idx (pool s))"

lemma free_count_eq: "loop_ok s \<Longrightarrow> free_count s = FreeApprox (pool s)"
  using pool_okD(2) [OF loop_okD(4)] by (simp add: free_count_def FreeApprox_def free_idx_def distinct_card)

lemma finite_free [simp]: "finite (free_idx p)"
  by (simp add: free_idx_def)

lemma handle_fragment_free:
  assumes ok: "loop_ok s"
  shows "free_count s \<le> Suc (free_count (handle_fragment inp ev s))"
    and "valid_idx (pool (handle_fragment inp ev s)) = valid_idx (pool s)"
proof (atomize (full), cases rule: handle_fragment_cases [of inp ev s])
  case dup
  then show "free_count s \<le> Suc (free_count (handle_fragment inp ev s)) \<and>
      valid_idx (pool (handle_fragment inp ev s)) = valid_idx (pool s)"
    by (simp add: free_count_def)
next
  case (full i p m sl p')
  note t = table_ok_touched [OF ok, of ev inp]
  note f = table_ok_alloc_fail [OF t full(2,3)]
  note r = table_ok_release [OF f(1) _ full(4), of "keyOf ev"]
  have "free_idx (pool s) = {}"
    using pool.alloc_neg_iff [OF loop_okD(4) [OF ok] full(2)] full(3) by simp
  moreover have "valid_idx p' = valid_idx (pool s)"
    using r(3) pool.alloc_valids [OF loop_okD(4) [OF ok] full(2)] by simp
  ultimately show "free_count s \<le> Suc (free_count (handle_fragment inp ev s)) \<and>
      valid_idx (pool (handle_fragment inp ev s)) = valid_idx (pool s)"
    by (simp add: free_count_def full(5))
next
  case (reject i p m)
  note r = pool.alloc_release [OF loop_okD(4) [OF ok] reject(2,3)]
  show "free_count s \<le> Suc (free_count (handle_fragment inp ev s)) \<and>
      valid_idx (pool (handle_fragment inp ev s)) = valid_idx (pool s)"
    using r by (simp add: free_count_def reject(5))
next
  case (store i p m sl)
  note t = table_ok_touched [OF ok, of ev inp]
  note a = alloc_fresh [OF t store(3,4)]
  show "free_count s \<le> Suc (free_count (handle_fragment inp ev s)) \<and>
      valid_idx (pool (handle_fragment inp ev s)) = valid_idx (pool s)"
    using a by (simp add: free_count_def store(7) card_Suc_Diff1)
next
  case (finish i p m sl sl' p' out)
  note t = table_ok_touched [OF ok, of ev inp]
  note a = alloc_fresh [OF t finish(3,4)]
  have t': "table_ok ((slots_of s)(keyOf ev \<mapsto> sl)) p"
    using table_ok_put [OF t _ finish(3,4,5), of "keyOf ev"] by simp
  note r = table_ok_release [OF t' _ finish(7), of "keyOf ev"]
  have "free_idx (pool s) \<subseteq> free_idx p'"
    using r(4) a(3) held_put(1) [OF finish(5,4)] by auto
  then have "card (free_idx (pool s)) \<le> card (free_idx p')"
    by (simp add: card_mono)
  then show "free_count s \<le> Suc (free_count (handle_fragment inp ev s)) \<and>
      valid_idx (pool (handle_fragment inp ev s)) = valid_idx (pool s)"
    using r(3) a(4) by (auto simp: free_count_def finish(9) split: option.splits)
qed

section \<open>One sample\<close>

definition accepted :: "bytes \<Rightarrow> sslEvent option" where
  "accepted raw =
     (case decode_sslEvent raw of
        None \<Rightarrow> None
      | Some ev \<Rightarrow> if invalid_fragment ev \<or> fragment_len ev = 0 then None else Some ev)"

lemma accepted_valid:
  "accepted raw = Some ev \<Longrightarrow> \<not> invalid_fragment ev \<and> fragment_len ev \<noteq> 0 \<and> length (sePayload ev) = maxChunkPayload"
  by (auto simp: accepted_def decode_payload_length split: option.splits if_splits)

lemma handle_sample_accepted:
  "handle_sample ttl inp raw s =
     (case accepted raw of
        Some ev \<Rightarrow> maybeCleanup ttl inp (handle_fragment inp ev s)
      | None \<Rightarrow> (if decode_sslEvent raw = None then s else s\<lparr>lmetrics := recordFragmentDrop (lmetrics s)\<rparr>))"
  by (simp add: handle_sample_def accepted_def split: option.split)

lemma handle_sample_free:
  assumes "loop_ok s"
  shows "free_count s \<le> Suc (free_count (handle_sample ttl inp raw s))"
    and "valid_idx (pool (handle_sample ttl inp raw s)) = valid_idx (pool s)"
proof -
  have acc: "free_count s \<le> Suc (free_count (maybeCleanup ttl inp (handle_fragment inp ev s))) \<and>
      valid_idx (pool (maybeCleanup ttl inp (handle_fragment inp ev s))) = valid_idx (pool s)"
    if "accepted raw = Some ev" for ev
  proof -
    have ok: "loop_ok (handle_fragment inp ev s)"
      using assms accepted_valid [OF that] by (intro inv_intros) simp_all
    have "free_count (handle_fragment inp ev s) \<le> free_count (maybeCleanup ttl inp (handle_fragment inp ev s))"
      unfolding free_count_def by (intro card_mono maybeCleanup_refines(3) [OF ok]) simp
    then show ?thesis
      using handle_fragment_free [OF assms, of inp ev] maybeCleanup_refines(4) [OF ok, of ttl inp] by simp
  qed
  show "free_count s \<le> Suc (free_count (handle_sample ttl inp raw s))"
    and "valid_idx (pool (handle_sample ttl inp raw s)) = valid_idx (pool s)"
    using acc by (auto simp: handle_sample_accepted free_count_def split: option.split)
qed

section \<open>A run, seen from one write\<close>

definition run_samples :: "time \<Rightarrow> (iterInput \<times> bytes) list \<Rightarrow> loopState \<Rightarrow> loopState" where
  "run_samples ttl xs s = fold (\<lambda>(inp, raw). handle_sample ttl inp raw) xs s"

text \<open>The accepted fragments of one write, with the inputs of their iterations.\<close>

fun key_frags :: "reassemblyKey \<Rightarrow> (iterInput \<times> bytes) list \<Rightarrow> (iterInput \<times> sslEvent) list" where
  "key_frags k [] = []"
| "key_frags k ((inp, raw) # xs) =
     (case accepted raw of
        Some ev \<Rightarrow> if keyOf ev = k then (inp, ev) # key_frags k xs else key_frags k xs
      | None \<Rightarrow> key_frags k xs)"

fun spec_run :: "(iterInput \<times> sslEvent) list \<Rightarrow> absWrite option \<Rightarrow> absWrite option \<times> CaptureEvent list" where
  "spec_run [] a = (a, [])"
| "spec_run ((inp, ev) # xs) a =
     (let (a, done) = spec_step True (tkLast inp) ev a;
          (a, evs) = spec_run xs a
      in (a, (case done of None \<Rightarrow> [] | Some (w, out) \<Rightarrow> [spec_event inp ev w out]) @ evs))"

definition events_of :: "reassemblyKey \<Rightarrow> CaptureEvent list \<Rightarrow> CaptureEvent list" where
  "events_of k es = filter (\<lambda>e. RKey (cePID e) (ceTID e) (ceCallID e) = k) es"

lemma spec_event_key [simp]:
  "cePID (spec_event inp ev w out) = sePID ev" "ceTID (spec_event inp ev w out) = seTID ev"
  "ceCallID (spec_event inp ev w out) = seCallID ev"
  by (simp_all add: spec_event_def split: prod.split)

lemma events_of_spec_event:
  "events_of k [spec_event inp ev w out] = (if keyOf ev = k then [spec_event inp ev w out] else [])"
  by (simp add: events_of_def keyOf_def)

lemma events_of_append [simp]: "events_of k (xs @ ys) = events_of k xs @ events_of k ys"
  by (simp add: events_of_def)

lemma spec_step_aLast: "fst (spec_step room now ev a) = Some w \<Longrightarrow> aLast w = now"
  by (auto simp: spec_step_def spec_touch_def Let_def split: if_splits option.splits)

lemma handle_sample_key:
  fixes inp raw s
  assumes ok: "loop_ok s" and room: "0 < free_count s"
    and win: "t0 \<le> tkLast inp" "tkNow inp - t0 \<le> ttl" and old: "\<And>w. abs_loop s k = Some w \<Longrightarrow> t0 \<le> aLast w"
  defines "r \<equiv> spec_run (key_frags k [(inp, raw)]) (abs_loop s k)"
  shows "abs_loop (handle_sample ttl inp raw s) k = fst r"
    and "events_of k (emitted (handle_sample ttl inp raw s)) = events_of k (emitted s) @ snd r"
    and "\<And>w. abs_loop (handle_sample ttl inp raw s) k = Some w \<Longrightarrow> t0 \<le> aLast w"
proof -
  let ?s = "handle_sample ttl inp raw s"
  have fresh: "spec_expire ttl (tkNow inp) a = a" if "\<And>w. a = Some w \<Longrightarrow> t0 \<le> aLast w" for a
    using that win(2) by (fastforce simp: spec_expire_def split: option.split)
  have main: "abs_loop ?s k = fst r \<and> events_of k (emitted ?s) = events_of k (emitted s) @ snd r \<and>
      (\<forall>w. abs_loop ?s k = Some w \<longrightarrow> t0 \<le> aLast w)"
  proof (cases "accepted raw")
    case None
    then show ?thesis
      using old abs_loop_cong [of "s\<lparr>lmetrics := m\<rparr>" s for m]
      by (simp add: handle_sample_accepted r_def)
  next
    case (Some ev)
    note v = accepted_valid [OF Some]
    let ?h = "handle_fragment inp ev s"
    have hok: "loop_ok ?h" using ok v by (intro inv_intros) simp_all
    have "free_idx (pool s) \<noteq> {}" using room by (auto simp: free_count_def)
    then have h: "abs_loop ?h = (abs_loop s)(keyOf ev := fst (spec_step True (tkLast inp) ev (abs_loop s (keyOf ev))))"
        "emitted ?h = emitted s @ (case snd (spec_step True (tkLast inp) ev (abs_loop s (keyOf ev))) of
            None \<Rightarrow> [] | Some (w, out) \<Rightarrow> [spec_event inp ev w out])"
      using handle_fragment_refines [OF ok, of ev inp] v by simp_all
    have new: "abs_loop ?h k = Some w \<Longrightarrow> t0 \<le> aLast w" for w
      using h(1) old [of w] spec_step_aLast [of True "tkLast inp" ev "abs_loop s k" w] win(1)
      by (auto split: if_splits)
    have s: "?s = maybeCleanup ttl inp ?h"
      using Some by (simp add: handle_sample_accepted)
    have a: "abs_loop ?s k = abs_loop ?h k"
      using fresh [OF new] by (simp add: s maybeCleanup_refines(1) [OF hok])
    have e: "emitted ?s = emitted ?h"
      by (simp add: s maybeCleanup_refines(2) [OF hok])
    show ?thesis
      using new by (auto simp: a e h r_def Some events_of_spec_event Let_def events_of_def keyOf_def
          split: prod.splits option.splits)
  qed
  then show "abs_loop ?s k = fst r" "events_of k (emitted ?s) = events_of k (emitted s) @ snd r"
    "\<And>w. abs_loop ?s k = Some w \<Longrightarrow> t0 \<le> aLast w"
    by blast+
qed

lemma spec_run_append:
  "spec_run (xs @ ys) a = (let (b, es) = spec_run xs a; (c, fs) = spec_run ys b in (c, es @ fs))"
  by (induction xs a rule: spec_run.induct) (simp_all add: Let_def split: prod.splits)

lemma key_frags_append: "key_frags k (xs @ ys) = key_frags k xs @ key_frags k ys"
  by (induction k xs rule: key_frags.induct) (simp_all split: option.split)

text \<open>
  Writes do not influence each other: what happens to one write in a run is what its own fragments
  do to it, as long as the pool has a chunk for every sample and the run is within the time to live.
\<close>

lemma run_samples_key:
  assumes "loop_ok s" and "length xs \<le> free_count s"
    and "\<forall>(inp, raw) \<in> set xs. t0 \<le> tkLast inp \<and> tkNow inp - t0 \<le> ttl"
    and "\<And>w. abs_loop s k = Some w \<Longrightarrow> t0 \<le> aLast w"
  shows "loop_ok (run_samples ttl xs s) \<and>
    abs_loop (run_samples ttl xs s) k = fst (spec_run (key_frags k xs) (abs_loop s k)) \<and>
    events_of k (emitted (run_samples ttl xs s)) = events_of k (emitted s) @ snd (spec_run (key_frags k xs) (abs_loop s k))"
  using assms
proof (induction xs arbitrary: s)
  case Nil
  then show ?case by (simp add: run_samples_def)
next
  case (Cons x xs)
  obtain inp raw where x: "x = (inp, raw)" by fastforce
  let ?s = "handle_sample ttl inp raw s"
  have win: "t0 \<le> tkLast inp" "tkNow inp - t0 \<le> ttl" using Cons.prems(3) x by auto
  have room: "0 < free_count s" using Cons.prems(2) by simp
  note h = handle_sample_key [OF Cons.prems(1) room win Cons.prems(4), of k raw]
  have "length xs \<le> free_count ?s"
    using Cons.prems(2) handle_sample_free(1) [OF Cons.prems(1), of ttl inp raw] by simp
  with Cons.IH [OF handle_sample_ok [OF Cons.prems(1)], of ttl inp raw] Cons.prems(3) h(3)
  have ih: "loop_ok (run_samples ttl xs ?s) \<and>
      abs_loop (run_samples ttl xs ?s) k = fst (spec_run (key_frags k xs) (abs_loop ?s k)) \<and>
      events_of k (emitted (run_samples ttl xs ?s)) = events_of k (emitted ?s) @ snd (spec_run (key_frags k xs) (abs_loop ?s k))"
    by simp
  have k: "key_frags k (x # xs) = key_frags k [(inp, raw)] @ key_frags k xs"
    using key_frags_append [of k "[x]" xs] x by simp
  show ?case
    unfolding k spec_run_append using ih h(1,2)
    by (auto simp: run_samples_def x Let_def split: prod.splits)
qed

section \<open>Reconstruction of one write\<close>

text \<open>
  A logical write as its fragments describe it: key, number of fragments, lengths, flag, and the
  bytes of each fragment.
\<close>

record writeDesc =
  wdKey :: reassemblyKey
  wdCnt :: nat
  wdOrig :: u32
  wdTotal :: u32
  wdTrunc :: bool
  wdData :: "nat \<Rightarrow> bytes"

definition frag_idx :: "sslEvent \<Rightarrow> nat" where
  "frag_idx ev = unat (seFragIdx ev)"

definition fragment_of :: "writeDesc \<Rightarrow> sslEvent \<Rightarrow> bool" where
  "fragment_of d ev \<longleftrightarrow> keyOf ev = wdKey d \<and> unat (seFragCnt ev) = wdCnt d \<and> seOrigLen ev = wdOrig d \<and>
     seTotalLen ev = wdTotal d \<and> (seTruncated ev \<noteq> 0) = wdTrunc d \<and> frag_idx ev < wdCnt d \<and>
     fragment_bytes ev = wdData d (frag_idx ev)"

definition partial_frags :: "writeDesc \<Rightarrow> nat set \<Rightarrow> bytes option list" where
  "partial_frags d I = map (\<lambda>i. if i \<in> I then Some (wdData d i) else None) [0..<wdCnt d]"

definition partial_write :: "writeDesc \<Rightarrow> nat set \<Rightarrow> time \<Rightarrow> absWrite" where
  "partial_write d I now = \<lparr>aOrig = wdOrig d, aTotal = wdTotal d, aTrunc = wdTrunc d,
     aFrags = partial_frags d I, aLast = now\<rparr>"

text \<open>A pending state of the write that has exactly the fragments \<open>I\<close>.\<close>

definition pending :: "writeDesc \<Rightarrow> nat set \<Rightarrow> absWrite option \<Rightarrow> bool" where
  "pending d I a \<longleftrightarrow> (case a of None \<Rightarrow> I = {} | Some w \<Rightarrow> \<exists>t. w = partial_write d I t)"

definition write_payload :: "writeDesc \<Rightarrow> bytes" where
  "write_payload d =
     (let out = concat (map (wdData d) [0..<wdCnt d])
      in if 0 < wdTotal d \<and> wdTotal d < (word_of_nat (length out) :: u32) then take (unat (wdTotal d)) out else out)"

lemma spec_touch_pending:
  assumes "pending d I a" and "fragment_of d ev"
  shows "spec_touch now ev a = partial_write d I now"
  using assms
  by (cases a) (auto simp: pending_def spec_touch_def Let_def spec_new_def partial_write_def fragment_of_def
      partial_frags_def map_replicate_const)

lemma partial_frags_simps [simp]:
  "length (partial_frags d I) = wdCnt d"
  "i < wdCnt d \<Longrightarrow> partial_frags d I ! i = (if i \<in> I then Some (wdData d i) else None)"
  by (simp_all add: partial_frags_def)

lemma partial_write_simps [simp]:
  "aFrags (partial_write d I now) = partial_frags d I" "aTotal (partial_write d I now) = wdTotal d"
  "(partial_write d I now)\<lparr>aFrags := partial_frags d J\<rparr> = partial_write d J now"
  by (simp_all add: partial_write_def)

lemma partial_frags_insert:
  "i < wdCnt d \<Longrightarrow> (partial_frags d I)[i := Some (wdData d i)] = partial_frags d (insert i I)"
  by (intro nth_equalityI) (auto simp: nth_list_update)

lemma None_in_partial: "None \<in> set (partial_frags d I) \<longleftrightarrow> \<not> {0..<wdCnt d} \<subseteq> I"
  by (auto simp: partial_frags_def)

lemma spec_payload_full:
  assumes "{0..<wdCnt d} \<subseteq> I"
  shows "spec_payload (wdTotal d) (partial_frags d I) = write_payload d"
proof -
  have "map the (partial_frags d I) = map (wdData d) [0..<wdCnt d]"
    using assms by (auto simp: partial_frags_def)
  then show ?thesis by (simp add: spec_payload_def write_payload_def)
qed

lemma spec_step_pending:
  assumes pend: "pending d I a" and frag: "fragment_of d ev"
  defines "J \<equiv> insert (frag_idx ev) I"
  shows "frag_idx ev \<in> I \<Longrightarrow> spec_step True now ev a = (Some (partial_write d I now), None)"
    and "\<not> {0..<wdCnt d} \<subseteq> J \<Longrightarrow> spec_step True now ev a = (Some (partial_write d J now), None)"
    and "frag_idx ev \<notin> I \<Longrightarrow> {0..<wdCnt d} \<subseteq> J \<Longrightarrow>
      spec_step True now ev a = (None, Some (partial_write d J now, write_payload d))"
proof -
  have i: "unat (seFragIdx ev) < wdCnt d" "frag_idx ev = unat (seFragIdx ev)"
    "fragment_bytes ev = wdData d (unat (seFragIdx ev))"
    using frag by (simp_all add: fragment_of_def frag_idx_def)
  have nle: "\<not> wdCnt d \<le> unat (seFragIdx ev)" using i(1) by simp
  note step = spec_step_def Let_def spec_touch_pending [OF pend frag] i nle
  show a: "spec_step True now ev a = (Some (partial_write d I now), None)" if "frag_idx ev \<in> I"
    using that i by (simp add: step)
  show "spec_step True now ev a = (Some (partial_write d J now), None)" if "\<not> {0..<wdCnt d} \<subseteq> J"
  proof (cases "frag_idx ev \<in> I")
    case True
    then show ?thesis using a by (simp add: J_def insert_absorb)
  next
    case False
    then show ?thesis
      using that i None_in_partial [of d J] by (simp add: step partial_frags_insert J_def)
  qed
  show "spec_step True now ev a = (None, Some (partial_write d J now, write_payload d))"
    if "frag_idx ev \<notin> I" "{0..<wdCnt d} \<subseteq> J"
    using that i None_in_partial [of d J] spec_payload_full [of d J]
    by (simp add: step partial_frags_insert J_def)
qed

definition idx_set :: "(iterInput \<times> sslEvent) list \<Rightarrow> nat set" where
  "idx_set xs = (\<lambda>x. frag_idx (snd x)) ` set xs"

lemma spec_run_pending:
  assumes "pending d I a" and "\<forall>x \<in> set xs. fragment_of d (snd x)" and "\<not> {0..<wdCnt d} \<subseteq> I \<union> idx_set xs"
  shows "pending d (I \<union> idx_set xs) (fst (spec_run xs a)) \<and> snd (spec_run xs a) = []"
  using assms
proof (induction xs arbitrary: I a)
  case Nil
  then show ?case by (simp add: idx_set_def)
next
  case (Cons x xs)
  obtain inp ev where x: "x = (inp, ev)" by fastforce
  have sub: "\<not> {0..<wdCnt d} \<subseteq> insert (frag_idx ev) I"
    using Cons.prems(3) by (auto simp: idx_set_def x)
  have st: "spec_step True (tkLast inp) ev a = (Some (partial_write d (insert (frag_idx ev) I) (tkLast inp)), None)"
    using spec_step_pending(2) [OF Cons.prems(1) _ sub] Cons.prems(2) x by simp
  have I: "I \<union> idx_set (x # xs) = insert (frag_idx ev) I \<union> idx_set xs"
    by (auto simp: idx_set_def x)
  have "pending d (insert (frag_idx ev) I) (Some (partial_write d (insert (frag_idx ev) I) (tkLast inp)))"
    by (auto simp: pending_def)
  from Cons.IH [OF this] Cons.prems(2,3)
  show ?case unfolding I by (simp add: x st split: prod.splits)
qed

text \<open>
  When the last missing fragment arrives, the write is delivered once with its whole payload,
  whatever the order and the repetitions of the fragments before it.
\<close>

lemma spec_run_complete:
  assumes "\<forall>x \<in> set xs. fragment_of d (snd x)" and "fragment_of d ev" and "frag_idx ev \<notin> idx_set xs"
    and "insert (frag_idx ev) (idx_set xs) = {0..<wdCnt d}"
  shows "spec_run (xs @ [(inp, ev)]) None =
    (None, [spec_event inp ev (partial_write d {0..<wdCnt d} (tkLast inp)) (write_payload d)])"
proof -
  have "frag_idx ev < wdCnt d" using assms(2) by (simp add: fragment_of_def)
  then have "\<not> {0..<wdCnt d} \<subseteq> {} \<union> idx_set xs"
    using assms(3) by auto
  then have p: "pending d (idx_set xs) (fst (spec_run xs None))" "snd (spec_run xs None) = []"
    using spec_run_pending [of d "{}" None xs] assms(1) by (simp_all add: pending_def)
  obtain a where a: "spec_run xs None = (a, [])"
    using p(2) by (cases "spec_run xs None") auto
  have "spec_step True (tkLast inp) ev a =
      (None, Some (partial_write d {0..<wdCnt d} (tkLast inp), write_payload d))"
    using spec_step_pending(3) [OF p(1) assms(2,3), of "tkLast inp"] assms(4) a by simp
  then show ?thesis
    using a by (simp add: spec_run_append)
qed

lemma run_samples_complete:
  assumes ok: "loop_ok s" and room: "length xs \<le> free_count s"
    and win: "\<forall>(inp, raw) \<in> set xs. t0 \<le> tkLast inp \<and> tkNow inp - t0 \<le> ttl"
    and new: "reassemblies s (wdKey d) = None"
    and fr: "key_frags (wdKey d) xs = fs @ [(inp, ev)]"
    and frags: "\<forall>x \<in> set fs. fragment_of d (snd x)" "fragment_of d ev" "frag_idx ev \<notin> idx_set fs"
      "insert (frag_idx ev) (idx_set fs) = {0..<wdCnt d}"
  shows "reassemblies (run_samples ttl xs s) (wdKey d) = None \<and>
    events_of (wdKey d) (emitted (run_samples ttl xs s)) =
      events_of (wdKey d) (emitted s) @
      [spec_event inp ev (partial_write d {0..<wdCnt d} (tkLast inp)) (write_payload d)]"
proof -
  have none: "abs_loop s (wdKey d) = None" using new by (simp add: abs_loop_def)
  have "loop_ok (run_samples ttl xs s) \<and>
      abs_loop (run_samples ttl xs s) (wdKey d) = fst (spec_run (fs @ [(inp, ev)]) None) \<and>
      events_of (wdKey d) (emitted (run_samples ttl xs s)) =
        events_of (wdKey d) (emitted s) @ snd (spec_run (fs @ [(inp, ev)]) None)"
    using run_samples_key [OF ok room win, of "wdKey d"] by (simp add: none fr)
  then show ?thesis
    by (simp add: spec_run_complete [OF frags] abs_loop_def)
qed

end
