(* ===== verification/Bpf_Probe.thy ===== *)
theory Bpf_Probe
  imports Wire
begin

text \<open>
  The producer of the ring buffer records, \<^verbatim>\<open>bpf/ssl_write.bpf.c\<close>: the probe cuts the buffer of one
  write into fragments of 512 bytes and submits one record for each. User memory is a partial map
  from addresses to bytes, so that \<^verbatim>\<open>bpf_probe_read_user\<close> fails on a range that is not mapped (it then
  leaves zeros); whether the ring buffer had room for a fragment is a function of its index. The map
  of call states is passed and returned; that the kernel may evict entries of an LRU map between two
  calls is covered by the map being any map.
\<close>

definition CHUNK_SIZE :: u32 where
  "CHUNK_SIZE = 512"

definition BPF_LOOP_MAX :: u32 where
  "BPF_LOOP_MAX = 1048576"

definition DEDUP_WINDOW_NS :: u64 where
  "DEDUP_WINDOW_NS = 2000000"

type_synonym memory = "u64 \<Rightarrow> u8 option"

section \<open>Call identifiers\<close>

record call_state =
  last_buf :: u64
  last_num :: u32
  last_call_id :: u32
  last_ts_ns :: u64
  seq :: u32

definition next_call_id :: "(u64 \<rightharpoonup> call_state) \<Rightarrow> u64 \<Rightarrow> u64 \<Rightarrow> u32 \<Rightarrow> u64 \<Rightarrow> u32 \<times> (u64 \<rightharpoonup> call_state)" where
  "next_call_id call_states pid_tgid buf num now_ns =
     (case call_states pid_tgid of
        None \<Rightarrow>
          let init = \<lparr>last_buf = buf, last_num = num, last_call_id = 1, last_ts_ns = now_ns, seq = 1\<rparr>
          in (last_call_id init, call_states(pid_tgid \<mapsto> init))
      | Some st \<Rightarrow>
          let (call_id, st) =
                (if last_buf st = buf \<and> last_num st = num \<and> last_ts_ns st \<le> now_ns \<and>
                    now_ns - last_ts_ns st \<le> DEDUP_WINDOW_NS
                 then (last_call_id st, st)
                 else let st = st\<lparr>seq := seq st + 1\<rparr>;
                          st = (if seq st = 0 then st\<lparr>seq := 1\<rparr> else st)
                      in (seq st, st));
              st = st\<lparr>last_buf := buf, last_num := num, last_call_id := call_id, last_ts_ns := now_ns\<rparr>
          in (call_id, call_states(pid_tgid \<mapsto> st)))"

section \<open>Fragments\<close>

record emit_ctx =
  ecBuf :: u64
  ecPidTgid :: u64
  ecCallID :: u32
  ecOrigLen :: u32
  ecTotalLen :: u32
  ecTruncated :: u32
  ecFragCnt :: u32
  ecHookType :: u32

definition probe_read_user :: "memory \<Rightarrow> u64 \<Rightarrow> nat \<Rightarrow> bytes option" where
  "probe_read_user mem addr n = those (map (\<lambda>j. mem (addr + word_of_nat j)) [0..<n])"

text \<open>The record, the context after the call, and the return value (stop the loop).\<close>

definition emit_one_frag :: "memory \<Rightarrow> (u32 \<Rightarrow> bool) \<Rightarrow> u32 \<Rightarrow> emit_ctx \<Rightarrow> sslEvent list \<times> emit_ctx \<times> bool" where
  "emit_one_frag mem reserve index c =
     (if ecFragCnt c \<le> index then ([], c, True)
      else
        let offset = index * CHUNK_SIZE;
            chunk_len = ecTotalLen c - offset;
            chunk_len = (if CHUNK_SIZE < chunk_len then CHUNK_SIZE else chunk_len)
        in if \<not> reserve index then ([], c\<lparr>ecTruncated := 1\<rparr>, True)
           else
             let (payload, chunk_len) =
                   (case probe_read_user mem (ecBuf c + ucast offset) (unat CHUNK_SIZE) of
                      Some bs \<Rightarrow> (bs, chunk_len)
                    | None \<Rightarrow> (replicate (unat CHUNK_SIZE) 0, 0));
                 e = \<lparr>sePID = ucast (drop_bit 32 (ecPidTgid c)), seTID = ucast (ecPidTgid c),
                      seCallID = ecCallID c, seOrigLen = ecOrigLen c, seTotalLen = ecTotalLen c,
                      seTruncated = ecTruncated c, seFragIdx = index, seFragCnt = ecFragCnt c,
                      seChunkLen = chunk_len, seHookType = ecHookType c, sePayload = payload\<rparr>
             in ([e], c, False))"

text \<open>\<^verbatim>\<open>bpf_loop(n, emit_one_frag, &ec, 0)\<close>, from an index on.\<close>

fun bpf_loop :: "memory \<Rightarrow> (u32 \<Rightarrow> bool) \<Rightarrow> nat \<Rightarrow> u32 \<Rightarrow> emit_ctx \<Rightarrow> sslEvent list" where
  "bpf_loop mem reserve 0 index c = []"
| "bpf_loop mem reserve (Suc n) index c =
     (let (es, c, stop) = emit_one_frag mem reserve index c
      in if stop then es else es @ bpf_loop mem reserve n (index + 1) c)"

definition frag_count :: "u32 \<Rightarrow> u64" where
  "frag_count total_len = (ucast total_len + ucast CHUNK_SIZE - 1) div ucast CHUNK_SIZE"

definition emit_from_buf :: "memory \<Rightarrow> (u32 \<Rightarrow> bool) \<Rightarrow> u32 \<Rightarrow> u64 \<Rightarrow> u64 \<Rightarrow> (u64 \<rightharpoonup> call_state) \<Rightarrow>
    u64 \<Rightarrow> int \<Rightarrow> u32 \<Rightarrow> sslEvent list \<times> (u64 \<rightharpoonup> call_state)" where
  "emit_from_buf mem reserve max_cap pid_tgid now_ns call_states buf num_long hook_type =
     (if num_long < 0 \<or> 0x7fffffff < num_long then ([], call_states)
      else if num_long \<le> 0 \<or> buf = 0 then ([], call_states)
      else
        let orig_len = word_of_int num_long;
            total_len = orig_len;
            (total_len, truncated) = (if 0 < max_cap \<and> max_cap < total_len then (max_cap, 1) else (total_len, 0));
            frag64 = frag_count total_len
        in if frag64 = 0 then ([], call_states)
           else
             let (frag_cnt, total_len, truncated) =
                   (if ucast BPF_LOOP_MAX < frag64 then (BPF_LOOP_MAX, BPF_LOOP_MAX * CHUNK_SIZE, 1)
                    else (ucast frag64, total_len, truncated));
                 (call_id, call_states) = next_call_id call_states pid_tgid buf (word_of_int num_long) now_ns;
                 ec = \<lparr>ecBuf = buf, ecPidTgid = pid_tgid, ecCallID = call_id, ecOrigLen = orig_len,
                       ecTotalLen = total_len, ecTruncated = truncated, ecFragCnt = frag_cnt,
                       ecHookType = hook_type\<rparr>
             in (bpf_loop mem reserve (unat frag_cnt) 0 ec, call_states))"

section \<open>The record in the ring buffer\<close>

definition encode_ssl_event :: "sslEvent \<Rightarrow> bytes" where
  "encode_ssl_event e =
     put_le32 (sePID e) @ put_le32 (seTID e) @ put_le32 (seCallID e) @ put_le32 (seOrigLen e) @
     put_le32 (seTotalLen e) @ put_le32 (seTruncated e) @ put_le32 (seFragIdx e) @ put_le32 (seFragCnt e) @
     put_le32 (seChunkLen e) @ put_le32 (seHookType e) @ sePayload e"

lemma decode_encode:
  "length (sePayload e) = maxChunkPayload \<Longrightarrow> decode_sslEvent (encode_ssl_event e @ junk) = Some e"
  by (simp add: decode_sslEvent_def encode_ssl_event_def read_array_def)

lemma encode_decode:
  assumes "decode_sslEvent bs = Some e"
  shows "\<exists>junk. bs = encode_ssl_event e @ junk"
  using assms by (auto simp: decode_sslEvent_def encode_ssl_event_def read_array_iff read_u32_iff
      split: Option.bind_splits)

section \<open>Lemmas\<close>

lemma those_map_Some: "(\<forall>j \<in> set js. f j \<noteq> None) \<Longrightarrow> those (map f js) = Some (map (the \<circ> f) js)"
  by (induction js) auto

lemma those_None: "those xs = None \<longleftrightarrow> None \<in> set xs"
  by (induction xs) (auto split: option.splits)

text \<open>A mapped range of user memory and its bytes.\<close>

definition mapped :: "memory \<Rightarrow> u64 \<Rightarrow> nat \<Rightarrow> bool" where
  "mapped mem buf n \<longleftrightarrow> (\<forall>j < n. mem (buf + word_of_nat j) \<noteq> None)"

definition user_bytes :: "memory \<Rightarrow> u64 \<Rightarrow> nat \<Rightarrow> bytes" where
  "user_bytes mem buf n = map (\<lambda>j. the (mem (buf + word_of_nat j))) [0..<n]"

lemma length_user_bytes [simp]: "length (user_bytes mem buf n) = n"
  by (simp add: user_bytes_def)

lemma probe_read_mapped: "mapped mem addr n \<Longrightarrow> probe_read_user mem addr n = Some (user_bytes mem addr n)"
  unfolding probe_read_user_def user_bytes_def mapped_def
  by (subst those_map_Some) auto

lemma probe_read_length: "probe_read_user mem addr n = Some bs \<Longrightarrow> length bs = n"
proof -
  have "those xs = Some ys \<Longrightarrow> length ys = length xs" for xs :: "u8 option list" and ys
    by (induction xs arbitrary: ys) (auto split: option.splits)
  then show "probe_read_user mem addr n = Some bs \<Longrightarrow> length bs = n"
    by (force simp: probe_read_user_def)
qed

lemma user_bytes_split:
  "user_bytes mem buf (m + n) = user_bytes mem buf m @ user_bytes mem (buf + word_of_nat m) n"
proof -
  have "[0..<m + n] = [0..<m] @ [m..<m + n]"
    by (rule upt_add_eq_append) simp
  moreover have "[m..<m + n] = map (\<lambda>j. m + j) [0..<n]"
    using map_add_upt [of m n] by (simp add: add.commute)
  ultimately have "[0..<m + n] = [0..<m] @ map (\<lambda>j. m + j) [0..<n]"
    by simp
  then show ?thesis
    by (simp add: user_bytes_def add.assoc)
qed

lemma user_bytes_take: "n \<le> m \<Longrightarrow> take n (user_bytes mem buf m) = user_bytes mem buf n"
  by (simp add: user_bytes_def take_map)

lemma concat_chunks:
  "concat (map (\<lambda>i. user_bytes mem (buf + word_of_nat (c * i)) (min c (t - c * i))) [0..<n]) =
     user_bytes mem buf (min (c * n) t)"
proof (induction n)
  case (Suc n)
  have "min (c * Suc n) t = min (c * n) t + min c (t - c * n)"
    by (auto simp: min_def)
  moreover have "user_bytes mem (buf + word_of_nat (min (c * n) t)) (min c (t - c * n)) =
      user_bytes mem (buf + word_of_nat (c * n)) (min c (t - c * n))"
    by (cases "c * n \<le> t") (simp_all add: min_def user_bytes_def)
  ultimately show ?case
    using Suc by (simp add: user_bytes_split)
qed (simp add: user_bytes_def)

end
