(* ===== verification/Capture.thy ===== *)
theory Capture
  imports Reassembly_Runs Bpf_Probe "HOL-Library.Multiset"
begin

text \<open>
  Probe and reassembly loop together: the records that \<^verbatim>\<open>emit_from_buf\<close> submits for one write are
  the fragments of one \<open>writeDesc\<close>, so that the loop rebuilds the bytes of the user's buffer from
  them. \<open>captured_len\<close> is how much of a write is captured at all.
\<close>

section \<open>The fragments of a probe call\<close>

definition captured_len :: "u32 \<Rightarrow> nat \<Rightarrow> nat" where
  "captured_len max_cap num =
     (let t = (if 0 < max_cap \<and> unat max_cap < num then unat max_cap else num) in min t 536870912)"

definition frag_total :: "nat \<Rightarrow> nat" where
  "frag_total t = (t + 511) div 512"

definition frag_rec :: "memory \<Rightarrow> emit_ctx \<Rightarrow> u32 \<Rightarrow> sslEvent" where
  "frag_rec mem c index =
     (let chunk_len = ecTotalLen c - index * CHUNK_SIZE
      in \<lparr>sePID = ucast (drop_bit 32 (ecPidTgid c)), seTID = ucast (ecPidTgid c),
          seCallID = ecCallID c, seOrigLen = ecOrigLen c, seTotalLen = ecTotalLen c,
          seTruncated = ecTruncated c, seFragIdx = index, seFragCnt = ecFragCnt c,
          seChunkLen = (if CHUNK_SIZE < chunk_len then CHUNK_SIZE else chunk_len), seHookType = ecHookType c,
          sePayload = user_bytes mem (ecBuf c + ucast (index * CHUNK_SIZE)) 512\<rparr>)"

lemma unat_CHUNK_SIZE [simp]: "unat CHUNK_SIZE = 512"
  by (simp add: CHUNK_SIZE_def)

lemma unat_less: "unat (w :: u32) < 4294967296"
  using unsigned_less [of w] by simp

text \<open>The record when the read of user memory may fail: no bytes then, and length 0.\<close>

definition frag_out :: "memory \<Rightarrow> emit_ctx \<Rightarrow> u32 \<Rightarrow> sslEvent" where
  "frag_out mem c index =
     (if probe_read_user mem (ecBuf c + ucast (index * CHUNK_SIZE)) 512 = None
      then (frag_rec mem c index)\<lparr>seChunkLen := 0, sePayload := replicate 512 0\<rparr>
      else frag_rec mem c index)"

lemma probe_read_Some: "probe_read_user mem addr n = Some bs \<Longrightarrow> bs = user_bytes mem addr n"
proof -
  have "those (map f js) = Some bs \<Longrightarrow> bs = map (\<lambda>j. the (f j)) js" for f :: "nat \<Rightarrow> u8 option" and js
    by (induction js arbitrary: bs) (auto split: option.splits)
  then show "probe_read_user mem addr n = Some bs \<Longrightarrow> bs = user_bytes mem addr n"
    by (simp add: probe_read_user_def user_bytes_def)
qed

lemma emit_one_frag_ok:
  assumes "index < ecFragCnt c" and "reserve index"
  shows "emit_one_frag mem reserve index c = ([frag_out mem c index], c, False)"
  using assms
  by (auto simp: emit_one_frag_def frag_rec_def frag_out_def Let_def not_le probe_read_Some split: option.split)

lemma bpf_loop_ok:
  assumes "unat index + n = unat (ecFragCnt c)" and "\<And>i. reserve i"
  shows "bpf_loop mem reserve n index c = map (\<lambda>i. frag_out mem c (word_of_nat i)) [unat index..<unat (ecFragCnt c)]"
  using assms(1)
proof (induction n arbitrary: index)
  case 0
  then show ?case by simp
next
  case (Suc n)
  then have lt: "index < ecFragCnt c" by (simp add: word_less_nat_alt)
  then have next_idx: "unat (index + 1) = Suc (unat index)"
    using Suc.prems unat_less [of "ecFragCnt c"] by (simp add: unat_word_ariths)
  then have "bpf_loop mem reserve n (index + 1) c =
      map (\<lambda>i. frag_out mem c (word_of_nat i)) [Suc (unat index)..<unat (ecFragCnt c)]"
    using Suc.IH [of "index + 1"] Suc.prems by simp
  then show ?case
    using emit_one_frag_ok [OF lt assms(2)] Suc.prems by (simp add: upt_conv_Cons)
qed

text \<open>The context \<^verbatim>\<open>emit_from_buf\<close> builds, in terms of the captured length.\<close>

definition write_ctx :: "u32 \<Rightarrow> u64 \<Rightarrow> u32 \<Rightarrow> u64 \<Rightarrow> nat \<Rightarrow> u32 \<Rightarrow> emit_ctx" where
  "write_ctx max_cap pid_tgid call_id buf num hook =
     (let t = captured_len max_cap num
      in \<lparr>ecBuf = buf, ecPidTgid = pid_tgid, ecCallID = call_id, ecOrigLen = word_of_nat num,
          ecTotalLen = word_of_nat t, ecTruncated = (if t < num then 1 else 0),
          ecFragCnt = word_of_nat (frag_total t), ecHookType = hook\<rparr>)"

lemma captured_len_le: "captured_len max_cap num \<le> num" "captured_len max_cap num \<le> 536870912"
  by (auto simp: captured_len_def Let_def)

lemma captured_len_pos: "0 < num \<Longrightarrow> 0 < captured_len max_cap num"
  by (auto simp: captured_len_def Let_def word_less_nat_alt)

lemma unat_small: "n < 4294967296 \<Longrightarrow> unat (word_of_nat n :: u32) = n"
  by (simp add: unat_of_nat take_bit_nat_eq_self)

lemma unat_small64: "n < 18446744073709551616 \<Longrightarrow> unat (word_of_nat n :: u64) = n"
  by (simp add: unat_of_nat take_bit_nat_eq_self)

lemma frag_count_nat:
  assumes "unat t \<le> 0x7fffffff"
  shows "unat (frag_count t) = frag_total (unat t)"
proof -
  have a: "unat (ucast t + ucast CHUNK_SIZE - 1 :: u64) = unat t + 511"
  proof -
    have "(ucast t + ucast CHUNK_SIZE - 1 :: u64) = word_of_nat (unat t) + 511"
      by (simp add: CHUNK_SIZE_def)
    then have "(ucast t + ucast CHUNK_SIZE - 1 :: u64) = word_of_nat (unat t + 511)"
      by simp
    then show ?thesis
      using assms by (simp only: unat_small64)
  qed
  have "unat (ucast CHUNK_SIZE :: u64) = 512" by (simp add: CHUNK_SIZE_def)
  then show ?thesis
    using a by (simp add: frag_count_def frag_total_def unat_div)
qed

lemma emit_from_buf_eq:
  fixes call_states pid_tgid buf num now_ns max_cap hook
  assumes num: "0 < num" "num \<le> 0x7fffffff" and buf: "buf \<noteq> 0"
  defines "cid \<equiv> next_call_id call_states pid_tgid buf (word_of_nat num) now_ns"
  defines "c \<equiv> write_ctx max_cap pid_tgid (fst cid) buf num hook"
  shows "emit_from_buf mem reserve max_cap pid_tgid now_ns call_states buf (int num) hook =
    (bpf_loop mem reserve (unat (ecFragCnt c)) 0 c, snd cid)"
proof -
  define t where "t = (if 0 < max_cap \<and> unat max_cap < num then unat max_cap else num)"
  have tpos: "0 < t" "t \<le> num" using num by (auto simp: t_def word_less_nat_alt)
  have cl: "captured_len max_cap num = min t 536870912"
    by (simp add: captured_len_def t_def Let_def)
  have un: "unat (word_of_nat num :: u32) = num" using num by (intro unat_small) simp
  have cmp: "max_cap < (word_of_nat num :: u32) \<longleftrightarrow> unat max_cap < num"
    by (simp add: word_less_nat_alt un)
  have tw: "(if 0 < max_cap \<and> max_cap < word_of_nat num then (max_cap, 1) else (word_of_nat num, 0)) =
      (word_of_nat t :: u32, (if t < num then 1 else 0) :: u32)"
    using cmp by (auto simp: t_def)
  have ut: "unat (word_of_nat t :: u32) = t" using num tpos by (intro unat_small) simp
  have fc: "unat (frag_count (word_of_nat t)) = frag_total t"
    using frag_count_nat [of "word_of_nat t"] ut num tpos by simp
  have ft: "frag_total t \<noteq> 0" "frag_total t < 4294967296" using tpos num by (simp_all add: frag_total_def)
  then have nz: "frag_count (word_of_nat t) \<noteq> 0" using fc by (metis unat_0)
  have big: "ucast BPF_LOOP_MAX < frag_count (word_of_nat t) \<longleftrightarrow> 536870912 < t"
    by (simp add: word_less_nat_alt fc BPF_LOOP_MAX_def) (simp add: frag_total_def; linarith)
  have fcw: "ucast (frag_count (word_of_nat t)) = (word_of_nat (frag_total t) :: u32)"
    by (simp add: fc [symmetric])
  have parts: "(if ucast BPF_LOOP_MAX < frag_count (word_of_nat t)
       then (BPF_LOOP_MAX, BPF_LOOP_MAX * CHUNK_SIZE, 1)
       else (ucast (frag_count (word_of_nat t)), word_of_nat t, (if t < num then 1 else 0))) =
      (ecFragCnt c, ecTotalLen c, ecTruncated c)"
    unfolding big using tpos
    by (cases "536870912 < t") (simp_all add: fcw c_def write_ctx_def cl frag_total_def BPF_LOOP_MAX_def CHUNK_SIZE_def)
  obtain i m where ci: "next_call_id call_states pid_tgid buf (word_of_nat num) now_ns = (i, m)"
    by fastforce
  show ?thesis
    using num buf nz parts
    by (simp add: emit_from_buf_def tw Let_def cid_def ci) (simp add: c_def cid_def ci write_ctx_def Let_def)
qed

section \<open>They describe one write\<close>

definition write_key :: "u64 \<Rightarrow> u32 \<Rightarrow> reassemblyKey" where
  "write_key pid_tgid call_id = RKey (ucast (drop_bit 32 pid_tgid)) (ucast pid_tgid) call_id"

definition write_desc :: "memory \<Rightarrow> u32 \<Rightarrow> u64 \<Rightarrow> u32 \<Rightarrow> u64 \<Rightarrow> nat \<Rightarrow> writeDesc" where
  "write_desc mem max_cap pid_tgid call_id buf num =
     (let t = captured_len max_cap num
      in \<lparr>wdKey = write_key pid_tgid call_id, wdCnt = frag_total t, wdOrig = word_of_nat num,
          wdTotal = word_of_nat t, wdTrunc = (t < num),
          wdData = (\<lambda>i. user_bytes mem (buf + word_of_nat (512 * i)) (min 512 (t - 512 * i)))\<rparr>)"

lemma frag_total_bounds:
  assumes "t \<le> 536870912" and "i < frag_total t"
  shows "512 * i < t" and "frag_total t \<le> 1048576" and "512 * i < 536870912"
  using assms by (auto simp: frag_total_def)

lemma write_ctx_obs:
  fixes max_cap pid_tgid call_id buf num hook
  assumes "num \<le> 0x7fffffff"
  defines "c \<equiv> write_ctx max_cap pid_tgid call_id buf num hook" and "t \<equiv> captured_len max_cap num"
  shows "unat (ecTotalLen c) = t" and "unat (ecFragCnt c) = frag_total t" and "ecBuf c = buf" and "ecPidTgid c = pid_tgid" and "ecCallID c = call_id" and "ecHookType c = hook"
    and "ecOrigLen c = word_of_nat num" and "ecTotalLen c = word_of_nat t" and "(ecTruncated c \<noteq> 0) = (t < num)"
proof -
  have t: "t \<le> 536870912" by (simp add: t_def captured_len_le)
  then show "unat (ecTotalLen c) = t"
    by (simp add: c_def write_ctx_def t_def [symmetric] unat_small)
  show "unat (ecFragCnt c) = frag_total t"
    using t by (simp add: c_def write_ctx_def t_def [symmetric] frag_total_def unat_small)
qed (simp_all add: c_def write_ctx_def t_def Let_def)

lemma frag_index_numbers:
  assumes "t \<le> 536870912" and "i < frag_total t"
  shows "unat (word_of_nat i :: u32) = i" and "unat (word_of_nat i * CHUNK_SIZE) = 512 * i"
proof -
  note b = frag_total_bounds [OF assms]
  show ui: "unat (word_of_nat i :: u32) = i"
    using assms(2) b(2) by (intro unat_small) simp
  show "unat (word_of_nat i * CHUNK_SIZE) = 512 * i"
    using b(3) ui by (simp add: unat_word_ariths)
qed

lemma frag_rec_len:
  fixes mem max_cap pid_tgid call_id buf num hook i
  assumes num: "num \<le> 0x7fffffff" and i: "i < frag_total (captured_len max_cap num)"
  defines "c \<equiv> write_ctx max_cap pid_tgid call_id buf num hook"
  shows "unat (seChunkLen (frag_rec mem c (word_of_nat i))) = min 512 (captured_len max_cap num - 512 * i)"
proof -
  let ?t = "captured_len max_cap num"
  note o = write_ctx_obs [OF num, of max_cap pid_tgid call_id buf hook, folded c_def]
  note b = frag_total_bounds [OF captured_len_le(2) i]
  note n = frag_index_numbers [OF captured_len_le(2) i]
  have "unat (ecTotalLen c - word_of_nat i * CHUNK_SIZE) = ?t - 512 * i"
    using b(1) n(2) o(1) by (subst unat_sub) (simp_all add: word_le_nat_alt)
  then show ?thesis
    by (auto simp: frag_rec_def Let_def word_less_nat_alt)
qed

lemma frag_rec_fragment:
  fixes mem max_cap pid_tgid call_id buf num hook i
  assumes num: "num \<le> 0x7fffffff" and i: "i < frag_total (captured_len max_cap num)"
  defines "c \<equiv> write_ctx max_cap pid_tgid call_id buf num hook"
  defines "ev \<equiv> frag_rec mem c (word_of_nat i)"
  shows "fragment_of (write_desc mem max_cap pid_tgid call_id buf num) ev" and "frag_idx ev = i"
    and "\<not> invalid_fragment ev" and "fragment_len ev \<noteq> 0" and "length (sePayload ev) = maxChunkPayload"
    and "sePID ev = ucast (drop_bit 32 pid_tgid)" and "seHookType ev = hook"
proof -
  let ?t = "captured_len max_cap num"
  note o = write_ctx_obs [OF num, of max_cap pid_tgid call_id buf hook, folded c_def]
  note b = frag_total_bounds [OF captured_len_le(2) i]
  note n = frag_index_numbers [OF captured_len_le(2) i]
  have len: "unat (fragment_len ev) = min 512 (?t - 512 * i)"
    using frag_rec_len [OF num i, of mem pid_tgid call_id buf hook, folded c_def] by (auto simp: fragment_len_def ev_def maxChunkPayload_def Let_def word_less_nat_alt)
  have cl: "fragment_len ev \<noteq> 0"
    using len b(1) by auto
  then show "fragment_len ev \<noteq> 0" .
  show idx: "frag_idx ev = i"
    using n(1) by (simp add: frag_idx_def ev_def frag_rec_def Let_def)
  show "\<not> invalid_fragment ev"
    using n(1) i o(2) by (auto simp: invalid_fragment_def ev_def frag_rec_def Let_def word_le_nat_alt)
  show "length (sePayload ev) = maxChunkPayload"
    by (simp add: ev_def frag_rec_def Let_def maxChunkPayload_def)
  show "sePID ev = ucast (drop_bit 32 pid_tgid)" "seHookType ev = hook"
    by (simp_all add: ev_def frag_rec_def Let_def o)
  have addr: "ucast (word_of_nat i * CHUNK_SIZE) = (word_of_nat (512 * i) :: u64)"
    using n(2) by (metis of_nat_unat)
  have "fragment_bytes ev = take (min 512 (?t - 512 * i)) (user_bytes mem (buf + word_of_nat (512 * i)) 512)"
    using len by (simp add: fragment_bytes_def ev_def frag_rec_def Let_def o addr del: of_nat_mult)
  then have "fragment_bytes ev = user_bytes mem (buf + word_of_nat (512 * i)) (min 512 (?t - 512 * i))"
    by (simp add: user_bytes_take del: of_nat_mult)
  then show "fragment_of (write_desc mem max_cap pid_tgid call_id buf num) ev"
    using idx i o(2,9)
    by (simp add: fragment_of_def write_desc_def Let_def del: of_nat_mult)
      (simp add: ev_def frag_rec_def Let_def o keyOf_def write_key_def)
qed

lemma write_payload_desc:
  assumes "num \<le> 0x7fffffff"
  shows "write_payload (write_desc mem max_cap pid_tgid call_id buf num) = user_bytes mem buf (captured_len max_cap num)"
proof -
  let ?t = "captured_len max_cap num"
  have "512 * frag_total ?t \<ge> ?t" by (simp add: frag_total_def)
  then have out: "concat (map (\<lambda>i. user_bytes mem (buf + word_of_nat (512 * i)) (min 512 (?t - 512 * i))) [0..<frag_total ?t]) =
      user_bytes mem buf ?t"
    using concat_chunks [of mem buf 512 ?t "frag_total ?t"] by (simp add: min_absorb2 del: of_nat_mult)
  show ?thesis
    by (simp add: write_payload_def write_desc_def Let_def out del: of_nat_mult)
qed

text \<open>The records of a probe call, when the ring buffer has room for them.\<close>

lemma emit_from_buf_records:
  assumes num: "0 < num" "num \<le> 0x7fffffff" and buf: "buf \<noteq> 0" and res: "\<And>i. reserve i"
    and call: "next_call_id call_states pid_tgid buf (word_of_nat num) now_ns = (call_id, call_states')"
  shows "emit_from_buf mem reserve max_cap pid_tgid now_ns call_states buf (int num) hook =
    (map (\<lambda>i. frag_out mem (write_ctx max_cap pid_tgid call_id buf num hook) (word_of_nat i))
       [0..<frag_total (captured_len max_cap num)], call_states')"
proof -
  let ?t = "captured_len max_cap num" and ?c = "write_ctx max_cap pid_tgid call_id buf num hook"
  note o = write_ctx_obs [OF num(2), of max_cap pid_tgid call_id buf hook]
  have "bpf_loop mem reserve (unat (ecFragCnt ?c)) 0 ?c =
      map (\<lambda>i. frag_out mem ?c (word_of_nat i)) [0..<frag_total ?t]"
    using bpf_loop_ok [of 0 "unat (ecFragCnt ?c)" ?c reserve mem] res o(2) by simp
  then show ?thesis
    using emit_from_buf_eq [OF num buf, of mem reserve max_cap pid_tgid now_ns call_states hook] call by simp
qed

text \<open>The user memory that the read of fragment \<open>i\<close> needs is mapped.\<close>

definition frag_mapped :: "memory \<Rightarrow> u64 \<Rightarrow> nat \<Rightarrow> bool" where
  "frag_mapped mem buf i \<longleftrightarrow> mapped mem (buf + word_of_nat (512 * i)) 512"

lemma mapped_frag_mapped: "mapped mem buf (512 * n) \<Longrightarrow> i < n \<Longrightarrow> frag_mapped mem buf i"
proof -
  assume m: "mapped mem buf (512 * n)" and i: "i < n"
  have "512 * i + 512 \<le> 512 * n" using i by simp
  then have "j < 512 \<Longrightarrow> mem (buf + word_of_nat (512 * i + j)) \<noteq> None" for j
    using m by (simp add: mapped_def del: of_nat_add)
  then show ?thesis by (simp add: frag_mapped_def mapped_def add.assoc)
qed

lemma probe_read_None: "probe_read_user mem addr n = None \<longleftrightarrow> \<not> mapped mem addr n"
  by (force simp: probe_read_user_def mapped_def those_None image_iff)

lemma frag_out_cases:
  fixes max_cap pid_tgid call_id buf num hook mem i
  assumes num: "num \<le> 0x7fffffff" and i: "i < frag_total (captured_len max_cap num)"
  defines "c \<equiv> write_ctx max_cap pid_tgid call_id buf num hook"
  shows "frag_mapped mem buf i \<Longrightarrow> frag_out mem c (word_of_nat i) = frag_rec mem c (word_of_nat i)"
    and "\<not> frag_mapped mem buf i \<Longrightarrow> seChunkLen (frag_out mem c (word_of_nat i)) = 0"
    and "keyOf (frag_out mem c (word_of_nat i)) = write_key pid_tgid call_id"
    and "length (sePayload (frag_out mem c (word_of_nat i))) = maxChunkPayload"
proof -
  note o = write_ctx_obs [OF num, of max_cap pid_tgid call_id buf hook, folded c_def]
  have "(ucast (word_of_nat i * CHUNK_SIZE) :: u64) = word_of_nat (512 * i)"
    using frag_index_numbers(2) [OF captured_len_le(2) i] by (metis of_nat_unat)
  then have r: "probe_read_user mem (ecBuf c + ucast (word_of_nat i * CHUNK_SIZE)) 512 = None \<longleftrightarrow> \<not> frag_mapped mem buf i"
    using o(3) by (simp add: probe_read_None frag_mapped_def)
  show "frag_mapped mem buf i \<Longrightarrow> frag_out mem c (word_of_nat i) = frag_rec mem c (word_of_nat i)"
    "\<not> frag_mapped mem buf i \<Longrightarrow> seChunkLen (frag_out mem c (word_of_nat i)) = 0"
    unfolding frag_out_def r by simp_all
  show "keyOf (frag_out mem c (word_of_nat i)) = write_key pid_tgid call_id"
    "length (sePayload (frag_out mem c (word_of_nat i))) = maxChunkPayload"
    by (simp_all add: frag_out_def frag_rec_def Let_def keyOf_def write_key_def o maxChunkPayload_def)
qed

section \<open>From the probe to the event\<close>

text \<open>The samples of one write among those of a run.\<close>

definition samples_of :: "reassemblyKey \<Rightarrow> (iterInput \<times> bytes) list \<Rightarrow> bytes list" where
  "samples_of k xs = filter (\<lambda>raw. case decode_sslEvent raw of None \<Rightarrow> False | Some ev \<Rightarrow> keyOf ev = k) (map snd xs)"

lemma samples_of_Cons:
  "samples_of k ((inp, raw) # xs) =
     (case decode_sslEvent raw of
        None \<Rightarrow> samples_of k xs
      | Some ev \<Rightarrow> if keyOf ev = k then raw # samples_of k xs else samples_of k xs)"
  by (simp add: samples_of_def split: option.split)

lemma key_frags_samples:
  "map snd (key_frags k xs) = List.map_filter accepted (samples_of k xs)"
proof (induction k xs rule: key_frags.induct)
  case (2 k inp raw xs)
  then show ?case
    by (cases "decode_sslEvent raw") (auto simp: samples_of_Cons accepted_def map_filter_simps)
qed (simp add: samples_of_def map_filter_simps)

lemma mset_map_filter: "mset xs = mset ys \<Longrightarrow> mset (List.map_filter f xs) = mset (List.map_filter f ys)"
  by (simp add: map_filter_def)

lemma map_filter_map: "List.map_filter f (map g xs) = List.map_filter (\<lambda>x. f (g x)) xs"
  by (induction xs) (simp_all add: map_filter_simps split: option.split)

lemma accepted_encode:
  "length (sePayload e) = maxChunkPayload \<Longrightarrow>
   accepted (encode_ssl_event e) = (if invalid_fragment e \<or> fragment_len e = 0 then None else Some e)"
  using decode_encode [of e "[]"] by (simp add: accepted_def)

lemma perm_upt_last:
  assumes "mset js = mset [0..<n]" and "0 < n"
  shows "last js \<notin> set (butlast js)" and "insert (last js) (set (butlast js)) = {0..<n}" and "js \<noteq> []"
proof -
  show ne: "js \<noteq> []"
    using arg_cong [OF assms(1), of size] assms(2) by auto
  have "distinct (butlast js @ [last js])"
    using mset_eq_imp_distinct_iff [OF assms(1)] ne by simp
  then show "last js \<notin> set (butlast js)" by simp
  have "set (butlast js @ [last js]) = {0..<n}"
    using mset_eq_setD [OF assms(1)] ne by simp
  then show "insert (last js) (set (butlast js)) = {0..<n}" by simp
qed

text \<open>
  The records of one probe call, delivered in any order among the samples of other writes: the
  accepted ones are those whose user memory could be read.
\<close>

definition call_frags :: "memory \<Rightarrow> u32 \<Rightarrow> u64 \<Rightarrow> u32 \<Rightarrow> u64 \<Rightarrow> nat \<Rightarrow> u32 \<Rightarrow> nat list \<Rightarrow> sslEvent list" where
  "call_frags mem max_cap pid_tgid call_id buf num hook is =
     map (\<lambda>i. frag_rec mem (write_ctx max_cap pid_tgid call_id buf num hook) (word_of_nat i)) is"

lemma accepted_frag_out:
  fixes mem max_cap pid_tgid call_id buf num hook i
  assumes num: "num \<le> 0x7fffffff" and i: "i < frag_total (captured_len max_cap num)"
  defines "c \<equiv> write_ctx max_cap pid_tgid call_id buf num hook"
  shows "accepted (encode_ssl_event (frag_out mem c (word_of_nat i))) =
    (if frag_mapped mem buf i then Some (frag_rec mem c (word_of_nat i)) else None)"
proof -
  let ?e = "frag_out mem c (word_of_nat i)"
  have e: "accepted (encode_ssl_event ?e) = (if invalid_fragment ?e \<or> fragment_len ?e = 0 then None else Some ?e)"
    unfolding c_def by (rule accepted_encode [OF frag_out_cases(4) [OF num i]])
  show ?thesis
  proof (cases "frag_mapped mem buf i")
    case True
    have "?e = frag_rec mem c (word_of_nat i)"
      unfolding c_def by (rule frag_out_cases(1) [OF num i True])
    moreover have "\<not> invalid_fragment (frag_rec mem c (word_of_nat i))" "fragment_len (frag_rec mem c (word_of_nat i)) \<noteq> 0"
      unfolding c_def by (rule frag_rec_fragment(3,4) [OF num i])+
    ultimately show ?thesis using e True by simp
  next
    case False
    have "seChunkLen ?e = 0"
      unfolding c_def by (rule frag_out_cases(2) [OF num i False])
    then have "fragment_len ?e = 0" by (simp add: fragment_len_def Let_def)
    then show ?thesis using e False by simp
  qed
qed

lemma key_frags_of_call:
  fixes mem max_cap pid_tgid call_id buf num hook
  assumes num: "num \<le> 0x7fffffff"
  defines "n \<equiv> frag_total (captured_len max_cap num)"
    and "recs \<equiv> map (\<lambda>i. frag_out mem (write_ctx max_cap pid_tgid call_id buf num hook) (word_of_nat i))
       [0..<frag_total (captured_len max_cap num)]"
  assumes arr: "mset (samples_of k xs) = mset (map encode_ssl_event recs)"
  shows "mset (map snd (key_frags k xs)) =
    mset (call_frags mem max_cap pid_tgid call_id buf num hook (filter (frag_mapped mem buf) [0..<n]))"
proof -
  have acc: "List.map_filter (\<lambda>i. accepted (encode_ssl_event (frag_out mem (write_ctx max_cap pid_tgid call_id buf num hook) (word_of_nat i)))) js =
      call_frags mem max_cap pid_tgid call_id buf num hook (filter (frag_mapped mem buf) js)"
    if "\<forall>i \<in> set js. i < n" for js
    using that
  proof (induction js)
    case (Cons i js)
    then have i: "i < frag_total (captured_len max_cap num)" by (simp add: n_def)
    show ?case
      using Cons by (simp add: map_filter_simps accepted_frag_out [OF num i] call_frags_def)
  qed (simp add: map_filter_simps call_frags_def)
  have "mset (map snd (key_frags k xs)) = mset (List.map_filter accepted (map encode_ssl_event recs))"
    unfolding key_frags_samples by (rule mset_map_filter [OF arr])
  also have "List.map_filter accepted (map encode_ssl_event recs) =
      call_frags mem max_cap pid_tgid call_id buf num hook (filter (frag_mapped mem buf) [0..<n])"
    unfolding recs_def map_filter_map using acc [of "[0..<n]"] by (simp add: n_def)
  finally show ?thesis .
qed

lemma call_frags_fragment:
  assumes "num \<le> 0x7fffffff" and "\<forall>i \<in> set is. i < frag_total (captured_len max_cap num)"
  shows "\<forall>ev \<in> set (call_frags mem max_cap pid_tgid call_id buf num hook is).
      fragment_of (write_desc mem max_cap pid_tgid call_id buf num) ev \<and> seHookType ev = hook"
    and "map frag_idx (call_frags mem max_cap pid_tgid call_id buf num hook is) = is"
  using frag_rec_fragment(1,2,7) [OF assms(1)] assms(2) by (auto simp: call_frags_def intro!: map_idI)

text \<open>The iterations that see a fragment of the call, and the state they leave for its write.\<close>

lemma key_frags_call:
  assumes "num \<le> 0x7fffffff" and "js = filter (frag_mapped mem buf) [0..<frag_total (captured_len max_cap num)]"
    and "mset (map snd fs) = mset (call_frags mem max_cap pid_tgid call_id buf num hook js)"
  shows "\<forall>x \<in> set fs. fragment_of (write_desc mem max_cap pid_tgid call_id buf num) (snd x) \<and> seHookType (snd x) = hook"
    and "mset (map (frag_idx \<circ> snd) fs) = mset js"
proof -
  have lt: "\<forall>i \<in> set js. i < frag_total (captured_len max_cap num)" using assms(2) by simp
  note c = call_frags_fragment [OF assms(1) lt]
  have "snd ` set fs = set (call_frags mem max_cap pid_tgid call_id buf num hook js)"
    using mset_eq_setD [OF assms(3)] by simp
  then show "\<forall>x \<in> set fs. fragment_of (write_desc mem max_cap pid_tgid call_id buf num) (snd x) \<and> seHookType (snd x) = hook"
    using c(1) by blast
  have "image_mset frag_idx (mset (map snd fs)) = image_mset frag_idx (mset (call_frags mem max_cap pid_tgid call_id buf num hook js))"
    using assms(3) by simp
  then show "mset (map (frag_idx \<circ> snd) fs) = mset js"
    using arg_cong [OF c(2), of mset] by (simp add: multiset.map_comp)
qed

definition call_samples :: "memory \<Rightarrow> u32 \<Rightarrow> u64 \<Rightarrow> u64 \<Rightarrow> (u64 \<rightharpoonup> call_state) \<Rightarrow> u64 \<Rightarrow> nat \<Rightarrow> u32 \<Rightarrow> bytes list" where
  "call_samples mem max_cap pid_tgid now_ns call_states buf num hook =
     map encode_ssl_event (fst (emit_from_buf mem (\<lambda>_. True) max_cap pid_tgid now_ns call_states buf (int num) hook))"

definition call_key :: "u64 \<Rightarrow> u64 \<Rightarrow> (u64 \<rightharpoonup> call_state) \<Rightarrow> u64 \<Rightarrow> nat \<Rightarrow> reassemblyKey" where
  "call_key pid_tgid now_ns call_states buf num =
     write_key pid_tgid (fst (next_call_id call_states pid_tgid buf (word_of_nat num) now_ns))"

definition call_desc :: "memory \<Rightarrow> u32 \<Rightarrow> u64 \<Rightarrow> u64 \<Rightarrow> (u64 \<rightharpoonup> call_state) \<Rightarrow> u64 \<Rightarrow> nat \<Rightarrow> writeDesc" where
  "call_desc mem max_cap pid_tgid now_ns call_states buf num =
     write_desc mem max_cap pid_tgid (fst (next_call_id call_states pid_tgid buf (word_of_nat num) now_ns)) buf num"

text \<open>A run that delivers the samples of one call among others, with room and in time.\<close>

definition delivers :: "time \<Rightarrow> time \<Rightarrow> reassemblyKey \<Rightarrow> bytes list \<Rightarrow> (iterInput \<times> bytes) list \<Rightarrow> loopState \<Rightarrow> bool" where
  "delivers ttl t0 k raws xs s \<longleftrightarrow> loop_ok s \<and> reassemblies s k = None \<and> length xs \<le> free_count s \<and>
     (\<forall>(inp, raw) \<in> set xs. t0 \<le> tkLast inp \<and> tkNow inp - t0 \<le> ttl) \<and> mset (samples_of k xs) = mset raws"

lemma delivered_frags:
  fixes mem max_cap pid_tgid now_ns call_states buf num hook
  assumes num: "0 < num" "num \<le> 0x7fffffff" and buf: "buf \<noteq> 0"
  defines "k \<equiv> call_key pid_tgid now_ns call_states buf num" and "d \<equiv> call_desc mem max_cap pid_tgid now_ns call_states buf num"
    and "js \<equiv> filter (frag_mapped mem buf) [0..<frag_total (captured_len max_cap num)]"
  assumes del: "delivers ttl t0 k (call_samples mem max_cap pid_tgid now_ns call_states buf num hook) xs s"
  shows "\<forall>x \<in> set (key_frags k xs). fragment_of d (snd x) \<and> seHookType (snd x) = hook"
    and "mset (map (frag_idx \<circ> snd) (key_frags k xs)) = mset js"
    and "wdKey d = k" and "wdCnt d = frag_total (captured_len max_cap num)"
proof -
  obtain cid cs where call: "next_call_id call_states pid_tgid buf (word_of_nat num) now_ns = (cid, cs)"
    by fastforce
  have "mset (samples_of k xs) = mset (map encode_ssl_event
      (map (\<lambda>i. frag_out mem (write_ctx max_cap pid_tgid cid buf num hook) (word_of_nat i)) [0..<frag_total (captured_len max_cap num)]))"
    using del emit_from_buf_records [OF num buf _ call, of "\<lambda>_. True" mem max_cap hook]
    by (simp add: delivers_def call_samples_def)
  note f = key_frags_call [OF num(2) refl key_frags_of_call [OF num(2) this]]
  show "\<forall>x \<in> set (key_frags k xs). fragment_of d (snd x) \<and> seHookType (snd x) = hook"
    "mset (map (frag_idx \<circ> snd) (key_frags k xs)) = mset js"
    using f by (simp_all add: js_def d_def call_desc_def call)
  show "wdKey d = k" "wdCnt d = frag_total (captured_len max_cap num)"
    by (simp_all add: d_def call_desc_def write_desc_def Let_def k_def call_key_def)
qed

lemma capture_call:
  fixes mem max_cap pid_tgid now_ns call_states buf num hook
  assumes num: "0 < num" "num \<le> 0x7fffffff" and buf: "buf \<noteq> 0"
  defines "k \<equiv> call_key pid_tgid now_ns call_states buf num" and "t \<equiv> captured_len max_cap num"
  assumes mem: "mapped mem buf (512 * frag_total t)"
    and del: "delivers ttl t0 k (call_samples mem max_cap pid_tgid now_ns call_states buf num hook) xs s"
  obtains e where "reassemblies (run_samples ttl xs s) k = None"
    and "events_of k (emitted (run_samples ttl xs s)) = events_of k (emitted s) @ [e]"
    and "cePayload e = user_bytes mem buf t" and "ceCapturedLen e = word_of_nat t"
    and "ceOrigLen e = word_of_nat num" and "ceTruncated e = (t < num)" and "ceHookType e = hook"
proof -
  define d where "d = call_desc mem max_cap pid_tgid now_ns call_states buf num"
  note f = delivered_frags [OF num buf del [unfolded k_def], folded k_def d_def]
  have "filter (frag_mapped mem buf) [0..<frag_total (captured_len max_cap num)] = [0..<frag_total (captured_len max_cap num)]"
    using mapped_frag_mapped [OF mem] by (simp add: t_def)
  with f(2,4) have m: "mset (map (frag_idx \<circ> snd) (key_frags k xs)) = mset [0..<wdCnt d]" by simp
  have pos: "0 < wdCnt d"
    using captured_len_pos [OF num(1), of max_cap] f(4) by (simp add: frag_total_def)
  note p = perm_upt_last [OF m pos]
  let ?fs = "butlast (key_frags k xs)" and ?inp = "fst (last (key_frags k xs))" and ?ev = "snd (last (key_frags k xs))"
  have ne: "key_frags k xs \<noteq> []" using p(3) by simp
  then have kf: "key_frags (wdKey d) xs = ?fs @ [(?inp, ?ev)]" by (simp add: f(3))
  have idx: "frag_idx ?ev \<notin> idx_set ?fs" "insert (frag_idx ?ev) (idx_set ?fs) = {0..<wdCnt d}"
    using p(1,2) ne by (simp_all add: idx_set_def last_map map_butlast [symmetric])
  have frag: "\<forall>x \<in> set ?fs. fragment_of d (snd x)" "fragment_of d ?ev" "seHookType ?ev = hook"
    using f(1) ne by (auto dest: in_set_butlastD)
  have del': "loop_ok s" "reassemblies s (wdKey d) = None" "length xs \<le> free_count s"
    "\<forall>(inp, raw) \<in> set xs. t0 \<le> tkLast inp \<and> tkNow inp - t0 \<le> ttl"
    using del f(3) by (auto simp: delivers_def)
  note r = run_samples_complete [OF del'(1,3,4,2) kf frag(1,2) idx, unfolded f(3)]
  have pay: "write_payload d = user_bytes mem buf t"
    unfolding d_def call_desc_def t_def by (rule write_payload_desc [OF num(2)])
  have "wdOrig d = word_of_nat num" "wdTrunc d = (t < num)"
    by (simp_all add: d_def call_desc_def write_desc_def Let_def t_def)
  then show thesis
    using r frag(3) by (intro that) (auto simp: pay spec_event_def partial_write_def split: prod.splits)
qed

text \<open>A fragment whose 512-byte read fails keeps the whole write from being delivered.\<close>

lemma capture_lost:
  fixes mem max_cap pid_tgid now_ns call_states buf num hook
  assumes num: "0 < num" "num \<le> 0x7fffffff" and buf: "buf \<noteq> 0"
  defines "k \<equiv> call_key pid_tgid now_ns call_states buf num" and "t \<equiv> captured_len max_cap num"
  assumes bad: "i < frag_total t" "\<not> frag_mapped mem buf i"
    and del: "delivers ttl t0 k (call_samples mem max_cap pid_tgid now_ns call_states buf num hook) xs s"
  shows "events_of k (emitted (run_samples ttl xs s)) = events_of k (emitted s)"
proof -
  define d where "d = call_desc mem max_cap pid_tgid now_ns call_states buf num"
  note f = delivered_frags [OF num buf del [unfolded k_def], folded k_def d_def]
  have "idx_set (key_frags k xs) = set (filter (frag_mapped mem buf) [0..<frag_total (captured_len max_cap num)])"
    using mset_eq_setD [OF f(2)] by (auto simp: idx_set_def)
  then have "\<not> {0..<wdCnt d} \<subseteq> {} \<union> idx_set (key_frags k xs)"
    using bad f(4) by (auto simp: t_def)
  then have "snd (spec_run (key_frags k xs) None) = []"
    using spec_run_pending [of d "{}" None "key_frags k xs"] f(1) by (simp add: pending_def)
  moreover have "loop_ok s" "abs_loop s k = None" "length xs \<le> free_count s"
    "\<forall>(inp, raw) \<in> set xs. t0 \<le> tkLast inp \<and> tkNow inp - t0 \<le> ttl"
    using del by (auto simp: delivers_def abs_loop_def)
  ultimately show ?thesis
    using run_samples_key [of s xs t0 ttl k] by simp
qed

end
