(* ===== verification/Reassembly_Props.thy ===== *)
theory Reassembly_Props
  imports Reassembly_Runs
begin

text \<open>
  What the read loop of \<^verbatim>\<open>cmd/clawguard/main.go\<close> guarantees: who owns the chunks of the pool, what
  one fragment does to the write it belongs to, what exhaustion, duplicates and the cleanup do, and
  that a write is reassembled independently of all others.
\<close>

section \<open>Helpers\<close>

text \<open>The chunks of the pool that no pending write holds are free, and a chunk has one holder.\<close>

definition chunk_owners :: "loopState \<Rightarrow> int \<Rightarrow> reassemblyKey set" where
  "chunk_owners s i = {k. \<exists>st. reassemblies s k = Some st \<and> i \<in> set (held (slots st))}"

lemma chunk_owners_ok:
  assumes "loop_ok s" and "i \<in> valid_idx (pool s)"
  shows "if i \<in> free_idx (pool s) then chunk_owners s i = {} else \<exists>k. chunk_owners s i = {k}"
proof (cases "i \<in> free_idx (pool s)")
  case True
  have "i \<notin> set (held (slots st))" if "reassemblies s k = Some st" for k st
    using slots_okD(4) [OF loop_okD(3) [OF assms(1) that]] True by blast
  then show ?thesis using True by (simp add: chunk_owners_def)
next
  case False
  note t = loop_okD(1) [OF assms(1)]
  from table_okD(5) [OF t assms(2) False] obtain k st
    where k: "reassemblies s k = Some st" "i \<in> set (held (slots st))"
    unfolding slots_of_def by (metis map_option_eq_Some)
  have "l = k" if "reassemblies s l = Some su" "i \<in> set (held (slots su))" for l su
  proof (rule ccontr)
    assume "l \<noteq> k"
    have "slots_of s l = Some (slots su)" "slots_of s k = Some (slots st)"
      using k that by (simp_all add: slots_of_def)
    from table_okD(4) [OF t this \<open>l \<noteq> k\<close>] k that show False by blast
  qed
  then have "chunk_owners s i = {k}" unfolding chunk_owners_def using k by blast
  with False show ?thesis by auto
qed

lemma reachable_ok: "loop_ok (fst (readLoop ttl es (loop_init (newChunkPool n) m t1 t2)))"
  by (intro inv_intros loop_ok_init)

lemma release_reassembly_held:
  "reassemblies (release_reassembly k s) = (reassemblies s)(k := map_option
     (\<lambda>st. st\<lparr>slots := fst (releaseAll (slots st) (pool s))\<rparr>) (reassemblies s k))"
  by (auto simp: release_reassembly_def Let_def split: option.splits prod.splits)

lemma held_released: "held (fst (releaseAll sl p)) = []"
  by (auto simp: releaseAll_def held_def filter_empty_conv)

lemma fold_release_held_empty:
  "reassemblies (fold release_reassembly ks s) k = Some st \<Longrightarrow>
     (\<exists>su. reassemblies s k = Some su \<and> (held (slots st) = held (slots su) \<or> held (slots st) = [])) \<and>
     (k \<in> set ks \<longrightarrow> held (slots st) = [])"
proof (induction ks arbitrary: s)
  case (Cons x ks)
  from Cons.IH [of "release_reassembly x s"] Cons.prems show ?case
    by (auto simp: release_reassembly_held held_released split: if_splits)
qed auto

lemma fold_release_table:
  assumes "loop_ok s" and "set order = dom (reassemblies s)"
  shows "FreeApprox (pool (fold release_reassembly order s)) = Cap (pool (fold release_reassembly order s))"
proof -
  let ?r = "fold release_reassembly order s"
  have ok: "loop_ok ?r" by (intro inv_intros assms)
  have "held (slots st) = []" if "reassemblies ?r k = Some st" for k st
    using fold_release_held_empty [OF that] assms(2) by blast
  then have "\<forall>k sl. slots_of ?r k = Some sl \<longrightarrow> held sl = []"
    by (auto simp: slots_of_def)
  from table_ok_empty_free [OF loop_okD(1) [OF ok] this]
  have "card (free_idx (pool ?r)) = Cap (pool ?r)" by (simp add: valid_idx_def Cap_def)
  then show ?thesis using free_count_eq [OF ok] by (simp add: free_count_def)
qed

section \<open>Properties\<close>

text \<open>C4: Whatever samples arrive in whatever order, every chunk of the pool is either free or held by
  exactly one pending write, and no pending write has all its fragments: none is leaked, shared between
  two writes or given back twice.\<close>

theorem loop_owns_chunks:
  assumes "s = fst (readLoop ttl es (loop_init (newChunkPool n) m t1 t2))"
  shows "(\<forall>i \<in> valid_idx (pool s). if i \<in> free_idx (pool s) then chunk_owners s i = {} else \<exists>k. chunk_owners s i = {k}) \<and>
    distinct (free (pool s)) \<and> (\<forall>k st. reassemblies s k = Some st \<longrightarrow> \<not> complete (slots st))"
proof -
  have ok: "loop_ok s" using reachable_ok assms by simp
  then show ?thesis
    using chunk_owners_ok [OF ok] loop_okD(2) [OF ok] pool_okD(2) [OF loop_okD(4) [OF ok]]
    unfolding entry_ok_def by blast
qed

theorem loop_owns_chunks_witness:
  "\<exists>s. s = fst (readLoop 5 [CtxDone []] (loop_init (newChunkPool 524288) metrics_init 0 0)) \<and> distinct (free (pool s))"
  using loop_owns_chunks [OF refl, of 5 "[CtxDone []]" 524288 metrics_init 0 0] by blast

text \<open>When the context ends, the loop returns and every chunk of the pool is free again.\<close>

theorem shutdown_frees_all:
  assumes "s = fst (readLoop ttl es (loop_init (newChunkPool n) m t1 t2))" and "set order = dom (reassemblies s)"
  shows "snd (readLoop ttl (CtxDone order # rest) s) \<and>
    FreeApprox (pool (fst (readLoop ttl (CtxDone order # rest) s))) = Cap (pool (fst (readLoop ttl (CtxDone order # rest) s)))"
  using fold_release_table [of s order] reachable_ok [of ttl es n m t1 t2] assms by simp

theorem shutdown_frees_all_witness:
  "\<exists>s. s = fst (readLoop 5 [] (loop_init (newChunkPool 524288) metrics_init 0 0)) \<and>
     snd (readLoop 5 (CtxDone [] # []) s) \<and>
     FreeApprox (pool (fst (readLoop 5 (CtxDone [] # []) s))) = Cap (pool (fst (readLoop 5 (CtxDone [] # []) s)))"
proof -
  have "set [] = dom (reassemblies (fst (readLoop 5 [] (loop_init (newChunkPool 524288) metrics_init 0 0))))"
    by (simp add: loop_init_def)
  from shutdown_frees_all [OF refl this, of "[]"] show ?thesis by blast
qed

text \<open>A one-fragment write \<^verbatim>\<open>hi\<close> of process 7 and an iteration that reads the clock at 1 s.\<close>

definition example_fragment :: sslEvent where
  "example_fragment = \<lparr>sePID = 7, seTID = 7, seCallID = 1, seOrigLen = 2, seTotalLen = 2, seTruncated = 0,
     seFragIdx = 0, seFragCnt = 1, seChunkLen = 2, seHookType = 1, sePayload = [104, 105] @ replicate 510 0\<rparr>"

definition example_iter :: iterInput where
  "example_iter = \<lparr>tkFirst = 1000000000, tkLast = 1000000000, tkStamp = 1000000000, tkGauge = 1000000000,
     tkGaugeSet = 1000000000, tkClean = 1000000000, tkNow = 1000000000,
     inWatch = \<lparr>byID = Map.empty, metaByID = Map.empty, selfContainerID = [], labelPairs = []\<rparr>,
     inCgroup = (\<lambda>_. None), inMetaOrder = [], inIdOrder = [], inExpireOrder = []\<rparr>"

definition example_loop :: loopState where
  "example_loop = loop_init (newChunkPool 524288) metrics_init 0 0"

lemma example_loop_ok: "loop_ok example_loop"
  by (simp add: example_loop_def loop_ok_init)

lemma example_loop_obs:
  "abs_loop example_loop = Map.empty" "emitted example_loop = []" "reassemblies example_loop = Map.empty"
  "free_idx (newChunkPool 524288) \<noteq> {}" "pool example_loop = newChunkPool 524288"
  by (simp_all add: example_loop_def loop_init_def abs_loop_def fun_eq_iff new_all_free valid_idx_def)
     (simp add: newChunkPool_def chunkSize_def)

lemma example_fragment_obs:
  "\<not> invalid_fragment example_fragment" "length (sePayload example_fragment) = maxChunkPayload"
  by (simp_all add: example_fragment_def invalid_fragment_def maxChunkPayload_def)

lemma example_spec:
  "\<exists>w. spec_step True t example_fragment None = (None, Some (w, [104, 105]))"
  by (simp add: example_fragment_def spec_step_def spec_touch_def spec_new_def fragment_bytes_def fragment_len_def
      maxChunkPayload_def spec_payload_def Let_def)

text \<open>C5: One fragment acts on its own write only and does there what the abstract machine says: it is
  ignored if it is there already, discards the write if no chunk is free, fills its slot otherwise, and
  the fragment that fills the last slot emits one event with the fragments in index order.\<close>

theorem fragment_refines_spec:
  assumes "loop_ok s" and "\<not> invalid_fragment ev" and "length (sePayload ev) = maxChunkPayload"
  shows "abs_loop (handle_fragment inp ev s) =
      (abs_loop s)(keyOf ev := fst (spec_step (free_idx (pool s) \<noteq> {}) (tkLast inp) ev (abs_loop s (keyOf ev)))) \<and>
    emitted (handle_fragment inp ev s) = emitted s @
      (case snd (spec_step (free_idx (pool s) \<noteq> {}) (tkLast inp) ev (abs_loop s (keyOf ev))) of
         None \<Rightarrow> [] | Some (w, out) \<Rightarrow> [spec_event inp ev w out]) \<and>
    loop_ok (handle_fragment inp ev s)"
  using handle_fragment_refines [OF assms, of inp] handle_fragment_ok [OF assms(1,2), of inp] by blast

theorem fragment_refines_spec_witness:
  "loop_ok example_loop \<and> abs_loop (handle_fragment example_iter example_fragment example_loop) = Map.empty \<and>
   map cePayload (emitted (handle_fragment example_iter example_fragment example_loop)) = [[104, 105]]"
proof -
  obtain w where "spec_step True (tkLast example_iter) example_fragment None = (None, Some (w, [104, 105]))"
    using example_spec by blast
  moreover have "cePayload (spec_event inp ev w out) = out" for inp ev w out
    by (simp add: spec_event_def split: prod.split)
  ultimately show ?thesis
    using fragment_refines_spec [OF example_loop_ok example_fragment_obs, of example_iter] example_loop_ok
    by (simp add: example_loop_obs)
qed

text \<open>C8: When the pool has no free chunk, a new fragment takes its whole write with it: the write is
  forgotten, its chunks are free again, nothing is emitted, other writes stay, and the loss is counted.\<close>

theorem exhaustion_drops_write:
  assumes "loop_ok s" and "free_idx (pool s) = {}"
    and "\<not> (case reassemblies s (keyOf ev) of None \<Rightarrow> False | Some st \<Rightarrow> has (slots st) (seFragIdx ev))"
  shows "reassemblies (handle_fragment inp ev s) = (reassemblies s)(keyOf ev := None) \<and>
    emitted (handle_fragment inp ev s) = emitted s \<and>
    free_idx (pool (handle_fragment inp ev s)) = {i. keyOf ev \<in> chunk_owners s i} \<and>
    fragmentDrops (lmetrics (handle_fragment inp ev s)) = fragmentDrops (lmetrics s) + 1 \<and>
    chunkPoolExhausted (lmetrics (handle_fragment inp ev s)) = chunkPoolExhausted (lmetrics s) + 1"
proof -
  let ?st = "touched inp ev s"
  have al: "Alloc (pool s) (lmetrics s) (fragment_bytes ev) =
      (-1, (pool s)\<lparr>misses := misses (pool s) + 1\<rparr>, recordChunkPoolExhausted (lmetrics s))"
    by (rule Alloc_exhausted [OF assms(2)])
  note t = table_ok_touched [OF assms(1), of ev inp]
  have held: "set (held (slots ?st)) = {i. keyOf ev \<in> chunk_owners s i}"
    by (cases "reassemblies s (keyOf ev)") (simp_all add: touched_def new_reassembly_def chunk_owners_def slot_simps)
  have nh: "\<not> has (slots ?st) (seFragIdx ev)"
    using assms(3) by (cases "reassemblies s (keyOf ev)")
      (simp_all add: touched_def new_reassembly_def has_def newFragSlots_def Let_def)
  from handle_fragment_cases [of inp ev s] show ?thesis
  proof cases
    case (full i p m sl p')
    have p: "p = (pool s)\<lparr>misses := misses (pool s) + 1\<rparr>" "m = recordChunkPoolExhausted (lmetrics s)"
      using full(2) al by simp_all
    have "free_idx p = {}" using p(1) assms(2) by (simp add: free_idx_def)
    then have "free_idx p' = {i. keyOf ev \<in> chunk_owners s i}"
      using table_ok_release(4) [OF table_ok_alloc_fail(1) [OF t full(2,3)] _ full(4), of "keyOf ev"] held by simp
    then show ?thesis
      using full(5) p(2) by (simp add: recordFragmentDrop_def recordChunkPoolExhausted_def)
  qed (use nh al in simp_all)
qed

definition no_chunks :: loopState where
  "no_chunks = loop_init \<lparr>chunks = [], free = [], freeCap = 0, misses = 0\<rparr> metrics_init 0 0"

lemma no_chunks_ok: "loop_ok no_chunks" "free_idx (pool no_chunks) = {}" "reassemblies no_chunks = Map.empty"
proof -
  have "pool_ok (pool no_chunks)" "free_idx (pool no_chunks) = valid_idx (pool no_chunks)"
    by (simp_all add: no_chunks_def loop_init_def pool_ok_def free_idx_def valid_idx_def)
  moreover have "slots_of no_chunks = Map.empty"
    by (simp add: slots_of_def no_chunks_def loop_init_def)
  ultimately show "loop_ok no_chunks"
    by (intro loop_okI) (simp_all add: table_ok_empty no_chunks_def loop_init_def)
qed (simp_all add: no_chunks_def loop_init_def free_idx_def)

theorem exhaustion_drops_write_witness:
  "free_idx (pool no_chunks) = {} \<and>
   reassemblies (handle_fragment example_iter example_fragment no_chunks) = Map.empty \<and>
   emitted (handle_fragment example_iter example_fragment no_chunks) = emitted no_chunks"
proof -
  have "\<not> (case reassemblies no_chunks (keyOf example_fragment) of None \<Rightarrow> False
      | Some st \<Rightarrow> has (slots st) (seFragIdx example_fragment))"
    by (simp add: no_chunks_ok)
  from exhaustion_drops_write [OF no_chunks_ok(1,2) this, of example_iter] show ?thesis
    by (simp add: no_chunks_ok)
qed

lemma cleanup_dom:
  assumes "loop_ok s" and "set (inExpireOrder inp) = dom (reassemblies s)"
  shows "dom (reassemblies (maybeCleanup ttl inp s)) =
    {k. \<exists>st. reassemblies s k = Some st \<and> (cleaning inp s \<longrightarrow> tkNow inp - lastAt st \<le> ttl)}"
proof -
  have "dom (abs_loop (maybeCleanup ttl inp s)) =
      {k. \<exists>st. reassemblies s k = Some st \<and> (cleaning inp s \<longrightarrow> tkNow inp - lastAt st \<le> ttl)}"
    unfolding maybeCleanup_refines(1) [OF assms(1)]
    using assms(2) by (auto simp: abs_loop_def spec_expire_def abs_write_def split: if_splits)
  then show ?thesis by simp
qed

text \<open>C7: The cleanup discards exactly the writes that have been silent for longer than the time to
  live, and only when a second has passed since the last one. It emits nothing, it keeps the fragments
  of the writes that stay, and the chunks of the others are free afterwards.\<close>

theorem cleanup_expires_stale:
  assumes "loop_ok s" and "set (inExpireOrder inp) = dom (reassemblies s)"
  shows "dom (reassemblies (maybeCleanup ttl inp s)) =
      {k. \<exists>st. reassemblies s k = Some st \<and> (tkClean inp - lastCleanup s < 1000000000 \<or> tkNow inp - lastAt st \<le> ttl)} \<and>
    (\<forall>k \<in> dom (reassemblies (maybeCleanup ttl inp s)). abs_loop (maybeCleanup ttl inp s) k = abs_loop s k) \<and>
    emitted (maybeCleanup ttl inp s) = emitted s \<and> loop_ok (maybeCleanup ttl inp s)"
proof -
  have "abs_loop (maybeCleanup ttl inp s) k = abs_loop s k" if "k \<in> dom (reassemblies (maybeCleanup ttl inp s))" for k
  proof -
    have "k \<in> dom (abs_loop (maybeCleanup ttl inp s))" using that by simp
    then show ?thesis unfolding maybeCleanup_refines(1) [OF assms(1)]
      by (auto simp: spec_expire_def split: if_splits option.splits)
  qed
  then show ?thesis
    using cleanup_dom [OF assms, of ttl] maybeCleanup_refines(2) [OF assms(1), of ttl inp]
      maybeCleanup_ok [OF assms(1), of ttl inp] unfolding cleaning_def by blast
qed

theorem cleanup_expires_stale_witness:
  "loop_ok example_loop \<and> dom (reassemblies (maybeCleanup 5 example_iter example_loop)) = {} \<and>
   emitted (maybeCleanup 5 example_iter example_loop) = []"
proof -
  have "set (inExpireOrder example_iter) = dom (reassemblies example_loop)"
    by (simp add: example_iter_def example_loop_obs)
  from cleanup_expires_stale [OF example_loop_ok this, of 5] show ?thesis
    using example_loop_ok by (simp add: example_loop_obs)
qed

text \<open>C6: Interleaved writes do not disturb each other: while chunks last and nothing gets stale, what
  becomes of one write after any run of samples is what its own fragments alone make of it, and its
  events are those of a run over these fragments.\<close>

theorem writes_independent:
  assumes "loop_ok s" and "length xs \<le> FreeApprox (pool s)"
    and "\<forall>(inp, raw) \<in> set xs. t0 \<le> tkLast inp \<and> tkNow inp - t0 \<le> ttl"
    and "reassemblies s k = None"
  shows "abs_loop (run_samples ttl xs s) k = fst (spec_run (key_frags k xs) None) \<and>
    events_of k (emitted (run_samples ttl xs s)) = events_of k (emitted s) @ snd (spec_run (key_frags k xs) None)"
proof -
  have none: "abs_loop s k = None" using assms(4) by (simp add: abs_loop_def)
  have "length xs \<le> free_count s" using assms(2) free_count_eq [OF assms(1)] by simp
  from run_samples_key [OF assms(1) this assms(3), of k] show ?thesis using none by simp
qed

theorem writes_independent_witness:
  "abs_loop (run_samples 5 [(example_iter, [1, 2])] example_loop) (RKey 7 7 1) = None \<and>
   events_of (RKey 7 7 1) (emitted (run_samples 5 [(example_iter, [1, 2])] example_loop)) = []"
proof -
  have len: "length [(example_iter, [1, 2 :: u8])] \<le> FreeApprox (pool example_loop)"
    by (simp add: example_loop_obs FreeApprox_def newChunkPool_def chunkSize_def)
  have win: "\<forall>(inp, raw) \<in> set [(example_iter, [1, 2 :: u8])]. 1000000000 \<le> tkLast inp \<and> tkNow inp - 1000000000 \<le> (5 :: time)"
    by (simp add: example_iter_def)
  have none: "reassemblies example_loop (RKey 7 7 1) = None" by (simp add: example_loop_obs)
  have "key_frags (RKey 7 7 1) [(example_iter, [1, 2 :: u8])] = []"
    by (simp add: accepted_def decode_sslEvent_def)
  with writes_independent [OF example_loop_ok len win none] show ?thesis
    by (simp add: example_loop_obs events_of_def)
qed

end
