(* ===== verification/Capture_Props.thy ===== *)
theory Capture_Props
  imports Capture Reassembly_Props
begin

text \<open>
  Properties of the probes (\<^verbatim>\<open>bpf/ssl_write.bpf.c\<close>) and of the path from a probe call to the event
  that the read loop emits: the record layout, call ids, the records of a full ring buffer, the
  end-to-end payload, and what an unmapped page does to it.
\<close>

section \<open>Helpers\<close>

lemma bpf_loop_take:
  "\<exists>k. bpf_loop mem reserve n index c = take k (bpf_loop mem (\<lambda>_. True) n index c)"
proof (induction n arbitrary: index)
  case (Suc n)
  obtain k where k: "bpf_loop mem reserve n (index + 1) c = take k (bpf_loop mem (\<lambda>_. True) n (index + 1) c)"
    using Suc.IH by blast
  show ?case
  proof (cases "ecFragCnt c \<le> index")
    case True
    then show ?thesis by (simp add: emit_one_frag_def)
  next
    case False
    then have t: "emit_one_frag mem (\<lambda>_. True) index c = ([frag_out mem c index], c, False)"
      using emit_one_frag_ok [of index c "\<lambda>_. True" mem] by simp
    show ?thesis
    proof (cases "reserve index")
      case True
      have r: "emit_one_frag mem reserve index c = ([frag_out mem c index], c, False)"
        using emit_one_frag_ok [of index c reserve mem] False True by simp
      have "bpf_loop mem reserve (Suc n) index c = take (Suc k) (bpf_loop mem (\<lambda>_. True) (Suc n) index c)"
        using t r k by simp
      then show ?thesis by blast
    next
      case res: False
      have "bpf_loop mem reserve (Suc n) index c = take 0 (bpf_loop mem (\<lambda>_. True) (Suc n) index c)"
        using False res by (simp add: emit_one_frag_def Let_def)
      then show ?thesis by blast
    qed
  qed
qed simp

lemma emit_from_buf_take:
  "\<exists>k. fst (emit_from_buf mem reserve max_cap pid_tgid now_ns call_states buf num hook) =
     take k (fst (emit_from_buf mem (\<lambda>_. True) max_cap pid_tgid now_ns call_states buf num hook))"
  by (auto simp: emit_from_buf_def Let_def split: prod.splits intro: bpf_loop_take exI [of _ 0])

lemma emit_from_buf_empty:
  assumes "\<not> (0 < num \<and> num \<le> 0x7fffffff \<and> buf \<noteq> 0)"
  shows "emit_from_buf mem reserve max_cap pid_tgid now_ns call_states buf num hook = ([], call_states)"
  using assms by (auto simp: emit_from_buf_def)

text \<open>What \<^verbatim>\<open>next_call_id\<close> keeps of the \<^verbatim>\<open>call_states\<close> map: the last id is the thread's counter, never 0.\<close>

definition calls_ok :: "(u64 \<rightharpoonup> call_state) \<Rightarrow> bool" where
  "calls_ok cs \<longleftrightarrow> (\<forall>p st. cs p = Some st \<longrightarrow> last_call_id st = seq st \<and> seq st \<noteq> 0)"

lemma next_call_id_cases:
  assumes "next_call_id cs p buf num now = (i, cs')"
  obtains (first) "cs p = None" "i = 1"
      "cs' = cs(p \<mapsto> \<lparr>last_buf = buf, last_num = num, last_call_id = 1, last_ts_ns = now, seq = 1\<rparr>)"
  | (again) st where "cs p = Some st" "last_buf st = buf" "last_num st = num" "last_ts_ns st \<le> now"
      "now - last_ts_ns st \<le> DEDUP_WINDOW_NS" "i = last_call_id st"
      "cs' = cs(p \<mapsto> \<lparr>last_buf = buf, last_num = num, last_call_id = i, last_ts_ns = now, seq = seq st\<rparr>)"
  | (other) st where "cs p = Some st"
      "\<not> (last_buf st = buf \<and> last_num st = num \<and> last_ts_ns st \<le> now \<and> now - last_ts_ns st \<le> DEDUP_WINDOW_NS)"
      "i = (if seq st + 1 = 0 then 1 else seq st + 1)"
      "cs' = cs(p \<mapsto> \<lparr>last_buf = buf, last_num = num, last_call_id = i, last_ts_ns = now, seq = i\<rparr>)"
proof (cases "cs p")
  case None
  then show ?thesis using assms by (intro first) (auto simp: next_call_id_def Let_def)
next
  case (Some st)
  show ?thesis
  proof (cases "last_buf st = buf \<and> last_num st = num \<and> last_ts_ns st \<le> now \<and> now - last_ts_ns st \<le> DEDUP_WINDOW_NS")
    case True
    then show ?thesis using assms Some by (intro again) (auto simp: next_call_id_def Let_def)
  next
    case False
    then show ?thesis using assms Some
      by (intro other [OF Some False]) (auto simp: next_call_id_def Let_def split: if_splits)
  qed
qed

lemma next_seq: "(if w + 1 = 0 then 1 else w + 1) \<noteq> (w :: u32)"
proof (cases "w + 1 = 0")
  case True
  then have "w = - 1" by (simp add: add_eq_0_iff2)
  then show ?thesis by simp
qed simp

lemma next_call_id_ok:
  assumes "calls_ok cs" and "next_call_id cs p buf num now = (i, cs')"
  shows "calls_ok cs'" and "i \<noteq> 0" and "\<exists>st. cs' p = Some st \<and> last_buf st = buf \<and> last_num st = num \<and>
      last_ts_ns st = now \<and> last_call_id st = i" and "q \<noteq> p \<Longrightarrow> cs' q = cs q"
  using next_call_id_cases [OF assms(2)] by (cases; use assms(1) in \<open>auto simp: calls_ok_def\<close>)+

lemma call_samples_eq:
  assumes "0 < num" and "num \<le> 0x7fffffff" and "buf \<noteq> 0"
  shows "call_samples mem max_cap pid_tgid now_ns cs buf num hook =
    map (\<lambda>i. encode_ssl_event (frag_out mem (write_ctx max_cap pid_tgid
        (fst (next_call_id cs pid_tgid buf (word_of_nat num) now_ns)) buf num hook) (word_of_nat i)))
      [0..<frag_total (captured_len max_cap num)]"
proof -
  obtain i cs' where "next_call_id cs pid_tgid buf (word_of_nat num) now_ns = (i, cs')" by fastforce
  from emit_from_buf_records [OF assms, of "\<lambda>_. True", OF TrueI this, of mem max_cap hook] this
  show ?thesis by (simp add: call_samples_def comp_def)
qed

lemma call_samples_decode:
  assumes "0 < num" and "num \<le> 0x7fffffff" and "buf \<noteq> 0"
    and "raw \<in> set (call_samples mem max_cap pid_tgid now_ns cs buf num hook)"
  shows "\<exists>ev. decode_sslEvent raw = Some ev \<and> keyOf ev = call_key pid_tgid now_ns cs buf num"
proof -
  let ?c = "write_ctx max_cap pid_tgid (fst (next_call_id cs pid_tgid buf (word_of_nat num) now_ns)) buf num hook"
  obtain i where i: "i < frag_total (captured_len max_cap num)" and raw: "raw = encode_ssl_event (frag_out mem ?c (word_of_nat i))"
    using assms(4) unfolding call_samples_eq [OF assms(1-3)] by auto
  note f = frag_out_cases(3,4) [OF assms(2) i, where mem = mem and pid_tgid = pid_tgid and buf = buf and hook = hook
      and call_id = "fst (next_call_id cs pid_tgid buf (word_of_nat num) now_ns)"]
  show ?thesis
    using decode_encode [OF f(2), of "[]"] f(1) raw by (simp add: call_key_def)
qed

lemma samples_of_all:
  assumes "\<And>raw. raw \<in> set raws \<Longrightarrow> \<exists>ev. decode_sslEvent raw = Some ev \<and> keyOf ev = k"
  shows "samples_of k (map (Pair inp) raws) = raws"
proof -
  have "\<forall>raw \<in> set raws. case decode_sslEvent raw of None \<Rightarrow> False | Some ev \<Rightarrow> keyOf ev = k"
    using assms by fastforce
  then show ?thesis by (simp add: samples_of_def comp_def filter_id_conv)
qed

text \<open>A write of 700 bytes, that is two fragments, delivered last fragment first.\<close>

definition example_memory :: memory where
  "example_memory = (\<lambda>a. Some (ucast a))"

definition example_run :: "memory \<Rightarrow> (iterInput \<times> bytes) list" where
  "example_run mem = map (Pair example_iter) (rev (call_samples mem 0 7 100 Map.empty 4096 700 1))"

lemma example_delivers:
  "delivers 5 1000000000 (call_key 7 100 Map.empty 4096 700) (call_samples mem 0 7 100 Map.empty 4096 700 1)
     (example_run mem) example_loop"
proof -
  let ?raws = "call_samples mem 0 7 100 Map.empty 4096 700 1"
  have len: "length ?raws = 2"
    by (subst call_samples_eq) (simp_all add: frag_total_def captured_len_def)
  have "samples_of (call_key 7 100 Map.empty 4096 700) (example_run mem) = rev ?raws"
    unfolding example_run_def
    by (rule samples_of_all) (rule call_samples_decode [where mem = mem and max_cap = 0 and hook = 1], simp_all)
  moreover have "free_count example_loop = FreeApprox (pool example_loop)"
    by (rule free_count_eq [OF example_loop_ok])
  moreover have "\<forall>(inp, raw) \<in> set (example_run mem). 1000000000 \<le> tkLast inp \<and> tkNow inp - 1000000000 \<le> 5"
    by (auto simp: example_run_def example_iter_def)
  moreover have "length (example_run mem) = 2" using len by (simp add: example_run_def)
  moreover have "2 \<le> FreeApprox (pool example_loop)"
    by (simp add: example_loop_obs FreeApprox_def newChunkPool_def chunkSize_def)
  ultimately show ?thesis
    using example_loop_ok by (simp add: delivers_def example_loop_obs)
qed

section \<open>Properties\<close>

text \<open>A thread's call gets the id of its previous call exactly when it writes as much from the same
  buffer within the window of two milliseconds (the nested hooks of one write); any other call gets a
  new id. Ids are never 0 and the state of other threads is untouched.\<close>

theorem call_ids_deduplicate:
  assumes "calls_ok cs" and "next_call_id cs p buf num t1 = (i, cs1)" and "next_call_id cs1 p buf' num' t2 = (j, cs2)"
  shows "(j = i \<longleftrightarrow> buf' = buf \<and> num' = num \<and> t1 \<le> t2 \<and> t2 - t1 \<le> DEDUP_WINDOW_NS) \<and> j \<noteq> 0 \<and>
    calls_ok cs2 \<and> (\<forall>q. q \<noteq> p \<longrightarrow> cs2 q = cs q)"
proof -
  note one = next_call_id_ok [OF assms(1,2)]
  note two = next_call_id_ok [OF one(1) assms(3)]
  obtain st where st: "cs1 p = Some st" "last_buf st = buf" "last_num st = num" "last_ts_ns st = t1" "last_call_id st = i"
    using one(3) by blast
  have "seq st = i" using one(1) st(1,5) by (simp add: calls_ok_def)
  have "j = i \<longleftrightarrow> buf' = buf \<and> num' = num \<and> t1 \<le> t2 \<and> t2 - t1 \<le> DEDUP_WINDOW_NS"
    using assms(3)
  proof (cases rule: next_call_id_cases)
    case (other su)
    then show ?thesis using st \<open>seq st = i\<close> next_seq [of i] by auto
  qed (use st in auto)
  then show ?thesis using one(4) two by auto
qed

theorem call_ids_deduplicate_witness:
  "calls_ok Map.empty \<and>
   (\<exists>i j cs1 cs2. next_call_id Map.empty 7 4096 5 100 = (i, cs1) \<and> next_call_id cs1 7 4096 5 200 = (j, cs2) \<and> j = i)"
proof -
  obtain i cs1 where i: "next_call_id Map.empty 7 4096 5 100 = (i, cs1)" by fastforce
  obtain j cs2 where j: "next_call_id cs1 7 4096 5 200 = (j, cs2)" by fastforce
  have "calls_ok Map.empty" by (simp add: calls_ok_def)
  from call_ids_deduplicate [OF this i j] this i j show ?thesis by (auto simp: DEDUP_WINDOW_NS_def)
qed

text \<open>C1: End to end: a hooked write of less than 2 GiB becomes exactly one event, whatever the order in which its records reach
  the loop and whatever samples of other keys come between them, if the memory is mapped from the buffer up to the end of the
  last 512-byte chunk that the probe reads (which may lie behind the end of the buffer), all records of the call arrive, nothing of its
  key (process, thread, call id) is pending and no other sample carries this key, the pool has a free chunk for every
  sample of the run, and the run is not longer than the time to live of a pending write. The event's payload is what the
  application passed to the write, cut at the captured length (the capture limit, and 512 MiB at most), and it says
  whether and how much was cut; nothing of the write stays pending.\<close>

theorem capture_end_to_end:
  assumes "0 < num" and "num \<le> 0x7fffffff" and "buf \<noteq> 0"
    and "mapped mem buf (512 * frag_total (captured_len max_cap num))"
    and "delivers ttl t0 (call_key pid_tgid now_ns cs buf num) (call_samples mem max_cap pid_tgid now_ns cs buf num hook) xs s"
  shows "\<exists>e. events_of (call_key pid_tgid now_ns cs buf num) (emitted (run_samples ttl xs s)) =
        events_of (call_key pid_tgid now_ns cs buf num) (emitted s) @ [e] \<and>
      cePayload e = user_bytes mem buf (captured_len max_cap num) \<and> ceOrigLen e = word_of_nat num \<and>
      ceCapturedLen e = word_of_nat (captured_len max_cap num) \<and> ceTruncated e = (captured_len max_cap num < num) \<and>
      ceHookType e = hook \<and> reassemblies (run_samples ttl xs s) (call_key pid_tgid now_ns cs buf num) = None"
  using capture_call [OF assms] by metis

theorem capture_end_to_end_witness:
  "\<exists>e. events_of (call_key 7 100 Map.empty 4096 700) (emitted (run_samples 5 (example_run example_memory) example_loop)) = [e] \<and>
     cePayload e = user_bytes example_memory 4096 700 \<and> \<not> ceTruncated e"
proof -
  have len: "captured_len 0 700 = 700" by (simp add: captured_len_def)
  have "mapped example_memory 4096 (512 * frag_total (captured_len 0 700))"
    by (simp add: mapped_def example_memory_def)
  from capture_end_to_end [OF _ _ _ this example_delivers] show ?thesis
    by (simp add: len example_loop_obs events_of_def) blast
qed

text \<open>C36: One unmapped fragment loses the whole write: the probe reads 512 bytes for every fragment, the
  last one too, so if they are not all mapped no event of the call's key is emitted, even when every byte the application
  wrote is readable, and even when all records of the call arrive in time, with room for them and no other sample of
  this key.\<close>

theorem unmapped_fragment_loses_write:
  assumes "0 < num" and "num \<le> 0x7fffffff" and "buf \<noteq> 0"
    and "i < frag_total (captured_len max_cap num)" and "\<not> frag_mapped mem buf i"
    and "delivers ttl t0 (call_key pid_tgid now_ns cs buf num) (call_samples mem max_cap pid_tgid now_ns cs buf num hook) xs s"
  shows "events_of (call_key pid_tgid now_ns cs buf num) (emitted (run_samples ttl xs s)) =
    events_of (call_key pid_tgid now_ns cs buf num) (emitted s)"
  by (rule capture_lost [OF assms])

text \<open>The buffer ends with its page: the 700 bytes are mapped, the byte after them is not.\<close>

definition page_end_memory :: memory where
  "page_end_memory = (\<lambda>a. if 4096 \<le> a \<and> a < 4796 then Some (ucast a) else None)"

theorem unmapped_fragment_loses_write_witness:
  "mapped page_end_memory 4096 700 \<and>
   events_of (call_key 7 100 Map.empty 4096 700) (emitted (run_samples 5 (example_run page_end_memory) example_loop)) = []"
proof -
  have "4096 + word_of_nat j < (4796 :: u64) \<and> 4096 \<le> 4096 + (word_of_nat j :: u64)" if "j < 700" for j
    using that by (simp add: word_less_nat_alt word_le_nat_alt unat_word_ariths unat_of_nat)
  then have m: "mapped page_end_memory 4096 700" by (simp add: mapped_def page_end_memory_def)
  have one: "1 < frag_total (captured_len 0 700)" by (simp add: frag_total_def captured_len_def)
  have "page_end_memory (4096 + word_of_nat (512 * 1) + word_of_nat 188) = None"
    by (simp add: page_end_memory_def)
  then have bad: "\<not> frag_mapped page_end_memory 4096 1"
    by (auto simp: frag_mapped_def mapped_def intro!: exI [of _ 188])
  from unmapped_fragment_loses_write [OF _ _ _ one bad example_delivers] m show ?thesis
    by (simp add: example_loop_obs events_of_def)
qed

text \<open>The kernel's record layout and the decoder of the read loop agree: a submitted record decodes
  to itself whatever follows it, and a sample that decodes is such a record, so a short one never does.\<close>

theorem record_round_trip:
  assumes "length (sePayload e) = maxChunkPayload"
  shows "decode_sslEvent (encode_ssl_event e @ junk) = Some e \<and>
    (decode_sslEvent bs = Some e \<longrightarrow> (\<exists>more. bs = encode_ssl_event e @ more) \<and> 552 \<le> length bs)"
proof -
  have "length (encode_ssl_event e) = 552"
    using assms by (simp add: encode_ssl_event_def put_le32_def maxChunkPayload_def)
  then show ?thesis
    using decode_encode [OF assms, of junk] encode_decode [of bs e] by fastforce
qed

theorem record_round_trip_witness:
  "decode_sslEvent (encode_ssl_event example_fragment @ [0]) = Some example_fragment"
  using record_round_trip [OF example_fragment_obs(2), of "[0]"] by blast

text \<open>C35: A probe call submits at most 2^20 records, and they are numbered from 0 on: a ring buffer
  without room cuts the sequence off, it never leaves a gap. A length the C code refuses submits none.\<close>

theorem probe_records:
  "\<exists>k. let es = fst (emit_from_buf mem reserve max_cap pid_tgid now_ns cs buf num hook) in
     length es = k \<and> k \<le> 1048576 \<and> map seFragIdx es = map word_of_nat [0..<k] \<and>
     (num \<le> 0 \<or> 0x7fffffff < num \<or> buf = 0 \<longrightarrow> k = 0)"
proof (cases "0 < num \<and> num \<le> 0x7fffffff \<and> buf \<noteq> 0")
  case False
  then have "emit_from_buf mem reserve max_cap pid_tgid now_ns cs buf num hook = ([], cs)"
    by (rule emit_from_buf_empty)
  then show ?thesis by simp
next
  case True
  define n where "n = nat num"
  have n: "num = int n" "0 < n" "n \<le> 0x7fffffff" using True unfolding n_def by (auto simp: nat_le_iff)
  obtain i cs' where "next_call_id cs pid_tgid buf (word_of_nat n) now_ns = (i, cs')" by fastforce
  note full = emit_from_buf_records [OF n(2,3) _ TrueI this, of mem max_cap hook]
  obtain j where j: "fst (emit_from_buf mem reserve max_cap pid_tgid now_ns cs buf num hook) =
      take j (fst (emit_from_buf mem (\<lambda>_. True) max_cap pid_tgid now_ns cs buf num hook))"
    using emit_from_buf_take by blast
  define k where "k = min j (frag_total (captured_len max_cap n))"
  have idx: "seFragIdx (frag_out mem c i) = i" for c i
    by (simp add: frag_out_def frag_rec_def Let_def)
  have "k \<le> 1048576"
    using captured_len_le(2) [of max_cap n] by (simp add: k_def frag_total_def)
  then show ?thesis
    unfolding j using True by (intro exI [of _ k]) (simp add: full n(1) k_def take_map comp_def idx min_def)
qed

theorem probe_records_witness:
  "(0 :: int) \<le> 0 \<and> length (fst (emit_from_buf example_memory (\<lambda>_. False) 0 7 100 Map.empty 4096 0 1)) = 0"
  using probe_records [of example_memory "\<lambda>_. False" 0 7 100 Map.empty 4096 0 1] by (simp add: Let_def)

end
