(* ===== verification/Capture_Bound.thy ===== *)
theory Capture_Bound
  imports Capture_Props
begin

text \<open>
  How large a captured write can be: it is emitted only when every fragment has a chunk of the pool, so
  that the size of the pool bounds every event, whatever \<^verbatim>\<open>CLAWGUARD_MAX_CAPTURE_BYTES\<close> says.
\<close>

section \<open>Lemmas\<close>

lemma length_concat_le: "\<forall>x \<in> set xs. length x \<le> n \<Longrightarrow> length (concat xs) \<le> n * length xs"
  by (induction xs) auto

lemma length_Slice_le: "length (Slice p i n) \<le> chunkSize"
  by (auto simp: Slice_def Let_def min_def)

lemma Cap_cong: "valid_idx q = valid_idx p \<Longrightarrow> Cap q = Cap p"
proof -
  assume "valid_idx q = valid_idx p"
  then have "card (valid_idx q) = card (valid_idx p)" by simp
  then show ?thesis by (simp add: valid_idx_def Cap_def)
qed

text \<open>A complete set of slots holds one chunk for each fragment.\<close>

lemma complete_slots_le:
  assumes "slots_ok p sl" and "complete sl"
  shows "length (idxs sl) \<le> Cap p"
proof -
  note ok = slots_okD [OF assms(1)]
  have "card (set (held sl)) \<le> card (valid_idx p)"
    using ok(4) by (intro card_mono) (auto simp: valid_idx_def)
  then show ?thesis
    using assms(2) ok(2,3) by (simp add: complete_def distinct_card valid_idx_def Cap_def)
qed

lemma assembled_le:
  assumes "slots_ok p sl" and "complete sl" and "assemble sl p totlen = Some out"
  shows "length out \<le> chunkSize * Cap p"
proof -
  have slice: "length b \<le> chunkSize" if "Some b \<in> set (frags p sl)" for b
    using that length_Slice_le by (auto simp: frags_def split: if_splits)
  have "\<forall>x \<in> set (map the (frags p sl)). length x \<le> chunkSize" if none: "None \<notin> set (frags p sl)"
  proof
    fix x assume "x \<in> set (map the (frags p sl))"
    with none have "Some x \<in> set (frags p sl)" by (metis (no_types) imageE list.set_map option.collapse)
    then show "length x \<le> chunkSize" by (rule slice)
  qed
  moreover have none: "None \<notin> set (frags p sl)" using assms(1,2) by (simp add: complete_iff)
  ultimately have "length (concat (map the (frags p sl))) \<le> chunkSize * length (map the (frags p sl))"
    by (intro length_concat_le) blast
  also have "\<dots> \<le> chunkSize * Cap p"
    using complete_slots_le [OF assms(1,2)] slots_okD(1) [OF assms(1)] by simp
  finally show ?thesis
    using assms(3) none by (auto simp: assemble_frags [OF assms(1)] Let_def split: if_splits)
qed

text \<open>The events so far, and the number of chunks, over one step.\<close>

definition bounded :: "nat \<Rightarrow> loopState \<Rightarrow> bool" where
  "bounded c s \<longleftrightarrow> loop_ok s \<and> Cap (pool s) = c \<and> (\<forall>e \<in> set (emitted s). length (cePayload e) \<le> chunkSize * c)"

lemma handle_fragment_bounded:
  assumes "bounded c s" and valid: "\<not> invalid_fragment ev"
  shows "bounded c (handle_fragment inp ev s)"
proof -
  have ok: "loop_ok s" and cap: "Cap (pool s) = c" and em: "\<forall>e \<in> set (emitted s). length (cePayload e) \<le> chunkSize * c"
    using assms(1) by (simp_all add: bounded_def)
  note po = loop_okD(4) [OF ok]
  have ok': "loop_ok (handle_fragment inp ev s)" by (rule handle_fragment_ok [OF ok valid])
  let ?k = "keyOf ev" and ?st = "touched inp ev s"
  let ?f = "(slots_of s)(?k \<mapsto> slots ?st)"
  note t = table_ok_touched [OF ok, of ev inp]
  have alloc: "valid_idx p = valid_idx (pool s)" if "Alloc (pool s) (lmetrics s) (fragment_bytes ev) = (i, p, m)" for i p m
    using pool.alloc_valids [OF po that] by simp
  have "Cap (pool (handle_fragment inp ev s)) = c \<and>
      (\<forall>e \<in> set (emitted (handle_fragment inp ev s)). length (cePayload e) \<le> chunkSize * c)"
    proof (cases rule: handle_fragment_cases [of inp ev s])
    case dup
    then show ?thesis using cap em by simp
  next
    case (full i p m sl p')
    have "table_ok ?f p" by (rule table_ok_alloc_fail(1) [OF t full(2,3)])
    from table_ok_release(3) [OF this _ full(4), of ?k] have "valid_idx p' = valid_idx (pool s)"
      using alloc [OF full(2)] by simp
    then show ?thesis using cap em full(5) Cap_cong [of p' "pool s"] by simp
  next
    case (reject i p m)
    have "valid_idx (Release p i) = valid_idx p" by (auto simp: valid_idx_def Release_def)
    then show ?thesis using cap em reject(5) Cap_cong [of "Release p i" "pool s"] alloc [OF reject(2)] by simp
  next
    case (store i p m sl)
    then show ?thesis using cap em Cap_cong [OF alloc [OF store(3)]] by simp
  next
    case (finish i p m sl sl' p' out)
    have tp: "table_ok (?f(?k \<mapsto> sl)) p" by (rule table_ok_put [OF t _ finish(3,4,5)]) simp
    have sl: "slots_ok p sl" using table_okD(3) [OF tp, of ?k sl] by simp
    have "valid_idx p' = valid_idx (pool s)"
      using table_ok_release(3) [OF tp _ finish(7), of ?k] alloc [OF finish(3)] by simp
    then have c': "Cap p' = c" "Cap p = c" using cap Cap_cong alloc [OF finish(3)] by blast+
    show ?thesis
    proof (cases out)
      case None
      then show ?thesis using finish(9) c' em by simp
    next
      case (Some b)
      have "length b \<le> chunkSize * c" using assembled_le [OF sl finish(6)] finish(8) Some c'(2) by simp
      then show ?thesis using finish(9) c' em Some by (simp add: capture_event_def Let_def split: prod.split)
    qed
  qed
  then show ?thesis using ok' by (simp add: bounded_def)
qed

lemma release_Cap: "Cap (snd (releaseAll sl p)) = Cap p"
proof -
  have "Cap (fold (\<lambda>idx p. if 0 \<le> idx then Release p idx else p) is p) = Cap p" for "is" p
    by (induction "is" arbitrary: p) (simp_all add: Release_def Cap_def)
  then show ?thesis by (simp add: releaseAll_def)
qed

lemma expire_bounded: "bounded c s \<Longrightarrow> bounded c (expire ttl now k s)"
proof -
  assume b: "bounded c s"
  then have "loop_ok (expire ttl now k s)" by (simp add: bounded_def expire_ok)
  moreover have "Cap (pool (expire ttl now k s)) = Cap (pool s)" "emitted (expire ttl now k s) = emitted s"
    using release_Cap by (auto simp: expire_def Let_def split: option.split prod.split) (metis snd_conv)
  ultimately show ?thesis using b by (simp add: bounded_def)
qed

lemma fold_expire_bounded: "bounded c s \<Longrightarrow> bounded c (fold (expire ttl now) ks s)"
  by (induction ks arbitrary: s) (simp_all add: expire_bounded)

lemma bounded_cong:
  "bounded c s \<Longrightarrow> reassemblies s' = reassemblies s \<Longrightarrow> pool s' = pool s \<Longrightarrow> emitted s' = emitted s \<Longrightarrow> bounded c s'"
  using loop_ok_cong [of s s'] by (simp add: bounded_def)

lemma handle_sample_bounded:
  assumes "bounded c s"
  shows "bounded c (handle_sample ttl inp raw s)"
proof -
  have m: "bounded c (s\<lparr>lmetrics := x\<rparr>)" for x by (rule bounded_cong [OF assms]) simp_all
  have clean: "bounded c (maybeCleanup ttl inp s)" if "bounded c s" for s
  proof -
    let ?s = "if 5000000000 \<le> tkGauge inp - lastPoolGauge s
               then s\<lparr>lmetrics := setChunkPoolFree (FreeApprox (pool s)) (lmetrics s), lastPoolGauge := tkGaugeSet inp\<rparr>
               else s"
    have b: "bounded c ?s" using bounded_cong [OF that, of ?s] by simp
    then have "bounded c ((fold (expire ttl (tkNow inp)) (inExpireOrder inp) ?s)\<lparr>lastCleanup := tkNow inp\<rparr>)"
      by (intro bounded_cong [OF fold_expire_bounded [OF b, of ttl "tkNow inp" "inExpireOrder inp"]]) simp_all
    then show ?thesis using b unfolding maybeCleanup_def Let_def by simp
  qed
  show ?thesis
    using assms m clean handle_fragment_bounded [OF assms] by (simp add: handle_sample_def split: option.split)
qed

lemma fold_release_emitted: "emitted (fold release_reassembly ks s) = emitted s"
proof -
  have "emitted (release_reassembly k s) = emitted s" for k s
    by (simp add: release_reassembly_def Let_def split: option.split prod.split)
  then show ?thesis by (induction ks arbitrary: s) simp_all
qed

lemma readLoop_bounded:
  "bounded c s \<Longrightarrow> \<forall>e \<in> set (emitted (fst (readLoop ttl es s))). length (cePayload e) \<le> chunkSize * c"
proof (induction ttl es s rule: readLoop.induct)
  case (3 ttl inp r es s)
  then show ?case using handle_sample_bounded [OF 3(3)] by (cases r) (simp_all add: bounded_def)
qed (simp_all add: bounded_def fold_release_emitted)

section \<open>Writes that do not fit\<close>

text \<open>A write is finished only with a chunk for each of its slots.\<close>

lemma finish_fits:
  assumes "loop_ok s" and "\<not> has (slots (touched inp ev s)) (seFragIdx ev)" and "\<not> invalid_fragment ev"
    and "unat (seFragIdx ev) < length (idxs (slots (touched inp ev s)))"
    and "Alloc (pool s) (lmetrics s) (fragment_bytes ev) = (i, p, m)" and "0 \<le> i"
    and "put (slots (touched inp ev s)) (seFragIdx ev) i (int (unat (fragment_len ev))) = (sl, True)" and "complete sl"
  shows "length (idxs (slots (touched inp ev s))) \<le> Cap (pool s)"
proof -
  let ?f = "(slots_of s)(keyOf ev \<mapsto> slots (touched inp ev s))"
  note t = table_ok_touched [OF assms(1), of ev inp]
  have "table_ok (?f(keyOf ev \<mapsto> sl)) p" by (rule table_ok_put [OF t _ assms(5-7)]) simp
  from table_okD(3) [OF this, of "keyOf ev" sl] have "slots_ok p sl" by simp
  then have "length (idxs sl) \<le> Cap p" by (rule complete_slots_le [OF _ assms(8)])
  moreover have "length (idxs sl) = length (idxs (slots (touched inp ev s)))"
    using assms(7) by (auto simp: put_def split: if_splits)
  moreover have "valid_idx p = valid_idx (pool s)"
    using pool.alloc_valids [OF loop_okD(4) [OF assms(1)] assms(5)] by simp
  ultimately show ?thesis using Cap_cong by metis
qed

text \<open>Nothing of the key has been emitted, and what is pending of it has more slots than there are chunks.\<close>

definition starved :: "nat \<Rightarrow> reassemblyKey \<Rightarrow> loopState \<Rightarrow> bool" where
  "starved c k s \<longleftrightarrow> bounded c s \<and> events_of k (emitted s) = [] \<and>
     (\<forall>st. reassemblies s k = Some st \<longrightarrow> c < length (idxs (slots st)))"

lemma starved_cong:
  "starved c k s \<Longrightarrow> reassemblies s' = reassemblies s \<Longrightarrow> pool s' = pool s \<Longrightarrow> emitted s' = emitted s \<Longrightarrow> starved c k s'"
  using bounded_cong [of c s s'] by (simp add: starved_def)

lemma handle_fragment_starved:
  assumes "starved c k s" and valid: "\<not> invalid_fragment ev" and big: "keyOf ev = k \<Longrightarrow> c < unat (seFragCnt ev)"
  shows "starved c k (handle_fragment inp ev s)"
proof -
  have b: "bounded c s" "loop_ok s" "Cap (pool s) = c" and em: "events_of k (emitted s) = []"
    and pend: "\<And>st. reassemblies s k = Some st \<Longrightarrow> c < length (idxs (slots st))"
    using assms(1) by (simp_all add: starved_def bounded_def)
  have b': "bounded c (handle_fragment inp ev s)" by (rule handle_fragment_bounded [OF b(1) valid])
  have new: "c < length (idxs (slots (touched inp ev s)))" if "keyOf ev = k"
    using pend big that by (auto simp: touched_def new_reassembly_def newFragSlots_def Let_def split: option.split)
  have "events_of k (emitted (handle_fragment inp ev s)) = [] \<and>
      (\<forall>st. reassemblies (handle_fragment inp ev s) k = Some st \<longrightarrow> c < length (idxs (slots st)))"
  proof (cases rule: handle_fragment_cases [of inp ev s])
    case (store i p m sl)
    have "length (idxs sl) = length (idxs (slots (touched inp ev s)))"
      using store(5) by (auto simp: put_def split: if_splits)
    then show ?thesis using store(7) em pend new by auto
  next
    case (finish i p m sl sl' p' out)
    have "length (idxs (slots (touched inp ev s))) \<le> c"
      using finish_fits [OF b(2) finish(1) valid finish(2-6)] b(3) by simp
    then have "keyOf ev \<noteq> k" using new by force
    moreover have "events_of k [capture_event inp ev st out] = []" if "keyOf ev \<noteq> k" for st out
      using that by (simp add: events_of_def capture_event_def keyOf_def split: prod.split)
    ultimately show ?thesis using finish(9) em pend by (simp split: option.split)
  qed (use em pend new in \<open>auto split: if_splits\<close>)
  then show ?thesis using b' by (simp add: starved_def)
qed

lemma expire_starved: "starved c k s \<Longrightarrow> starved c k (expire ttl now k' s)"
  using expire_bounded [of c s ttl now k']
  by (cases rule: expire_cases [of ttl now k' s]) (auto simp: starved_def)

lemma fold_expire_starved: "starved c k s \<Longrightarrow> starved c k (fold (expire ttl now) ks s)"
  by (induction ks arbitrary: s) (simp_all add: expire_starved)

lemma maybeCleanup_starved:
  assumes "starved c k s"
  shows "starved c k (maybeCleanup ttl inp s)"
proof -
  let ?s = "if 5000000000 \<le> tkGauge inp - lastPoolGauge s
             then s\<lparr>lmetrics := setChunkPoolFree (FreeApprox (pool s)) (lmetrics s), lastPoolGauge := tkGaugeSet inp\<rparr>
             else s"
  have b: "starved c k ?s" using starved_cong [OF assms, of ?s] by simp
  then have "starved c k ((fold (expire ttl (tkNow inp)) (inExpireOrder inp) ?s)\<lparr>lastCleanup := tkNow inp\<rparr>)"
    by (intro starved_cong [OF fold_expire_starved [OF b, of ttl "tkNow inp" "inExpireOrder inp"]]) simp_all
  then show ?thesis using b unfolding maybeCleanup_def Let_def by simp
qed

lemma handle_sample_starved:
  assumes "starved c k s" and "\<And>ev. decode_sslEvent raw = Some ev \<Longrightarrow> keyOf ev = k \<Longrightarrow> c < unat (seFragCnt ev)"
  shows "starved c k (handle_sample ttl inp raw s)"
proof -
  have m: "starved c k (s\<lparr>lmetrics := x\<rparr>)" for x by (rule starved_cong [OF assms(1)]) simp_all
  then show ?thesis
    using assms by (simp add: handle_sample_def maybeCleanup_starved handle_fragment_starved split: option.split)
qed

text \<open>The fragments of a key among the samples of a run.\<close>

definition arrives :: "reassemblyKey \<Rightarrow> loop_event list \<Rightarrow> bytes \<Rightarrow> sslEvent \<Rightarrow> bool" where
  "arrives k es raw ev \<longleftrightarrow> (\<exists>inp. Iter inp (RSample raw) \<in> set es) \<and> decode_sslEvent raw = Some ev \<and> keyOf ev = k"

lemma readLoop_starved:
  "starved c k s \<Longrightarrow> (\<And>raw ev. arrives k es raw ev \<Longrightarrow> c < unat (seFragCnt ev)) \<Longrightarrow>
     events_of k (emitted (fst (readLoop ttl es s))) = []"
proof (induction ttl es s rule: readLoop.induct)
  case (3 ttl inp r es s)
  have rest: "arrives k (Iter inp r # es) raw ev" if "arrives k es raw ev" for raw ev
    using that by (auto simp: arrives_def)
  show ?case
  proof (cases r)
    case (RSample raw)
    have "starved c k (handle_sample ttl inp raw s)"
      using 3(4) by (intro handle_sample_starved [OF 3(3)]) (auto simp: arrives_def RSample)
    then show ?thesis using 3(1) [OF RSample] 3(4) [OF rest] RSample by simp
  next
    case RError
    then show ?thesis using 3(2) [OF RError 3(3)] 3(4) [OF rest] RError by simp
  qed (use 3(3) in \<open>simp_all add: starved_def\<close>)
qed (simp_all add: starved_def fold_release_emitted)

text \<open>Every record of a hooked write announces all its fragments.\<close>

lemma call_record_cnt:
  assumes "0 < num" and "num \<le> 0x7fffffff" and "buf \<noteq> 0" and "decode_sslEvent raw = Some ev"
    and "raw \<in> set (call_samples mem max_cap pid_tgid now_ns cs buf num hook)"
  shows "unat (seFragCnt ev) = frag_total (captured_len max_cap num)"
proof -
  let ?c = "write_ctx max_cap pid_tgid (fst (next_call_id cs pid_tgid buf (word_of_nat num) now_ns)) buf num hook"
  obtain i where i: "i < frag_total (captured_len max_cap num)" and raw: "raw = encode_ssl_event (frag_out mem ?c (word_of_nat i))"
    using assms(5) unfolding call_samples_eq [OF assms(1-3)] by auto
  note f = frag_out_cases(3,4) [OF assms(2) i, where mem = mem and pid_tgid = pid_tgid and buf = buf and hook = hook
      and call_id = "fst (next_call_id cs pid_tgid buf (word_of_nat num) now_ns)"]
  have "ev = frag_out mem ?c (word_of_nat i)" using decode_encode [OF f(2), of "[]"] raw assms(4) by simp
  then have "seFragCnt ev = ecFragCnt ?c" by (auto simp: frag_out_def frag_rec_def Let_def)
  then show ?thesis using write_ctx_obs(2) [OF assms(2)] by metis
qed

section \<open>A run that emits\<close>

lemma readLoop_run_samples:
  "readLoop ttl (map (\<lambda>(inp, raw). Iter inp (RSample raw)) xs) s = (run_samples ttl xs s, False)"
  by (induction xs arbitrary: s) (auto simp: run_samples_def)

lemma example_emits:
  obtains e where "e \<in> set (emitted (run_samples 5 (example_run example_memory) example_loop))" "length (cePayload e) = 700"
proof -
  have len: "captured_len 0 700 = 700" by (simp add: captured_len_def)
  have "mapped example_memory 4096 (512 * frag_total (captured_len 0 700))"
    by (simp add: mapped_def example_memory_def)
  note call = capture_call [OF _ _ _ this example_delivers]
  obtain e where "events_of (call_key 7 100 Map.empty 4096 700) (emitted (run_samples 5 (example_run example_memory) example_loop)) =
       events_of (call_key 7 100 Map.empty 4096 700) (emitted example_loop) @ [e]"
    "cePayload e = user_bytes example_memory 4096 700"
    by (rule call) (simp_all add: len)
  then have "e \<in> set (events_of (call_key 7 100 Map.empty 4096 700) (emitted (run_samples 5 (example_run example_memory) example_loop)))"
    "length (cePayload e) = 700"
    by simp_all
  then show thesis by (intro that [of e]) (simp_all add: events_of_def)
qed

section \<open>Properties\<close>

text \<open>C9: The pool bounds what can be captured: no event the read loop emits is larger than the pool, 512 bytes
  for each of its chunks. A write whose fragments announce more of them than the pool has chunks is never
  emitted, not even in part, whatever else arrives and when. So a hooked write that is captured in more fragments than
  that is lost even when it is alone and capturing is called unlimited (all records of its key being
  records of this call).\<close>

theorem events_fit_pool:
  assumes "readLoop ttl es (loop_init (newChunkPool n) m t1 t2) = (s, r)"
  shows "(\<forall>e \<in> set (emitted s). length (cePayload e) \<le> 512 * Cap (newChunkPool n)) \<and>
    (\<forall>k. (\<forall>raw ev. arrives k es raw ev \<longrightarrow> Cap (newChunkPool n) < unat (seFragCnt ev)) \<longrightarrow> events_of k (emitted s) = []) \<and>
    (\<forall>mem max_cap pid_tgid now_ns cs buf num hook.
       0 < num \<and> num \<le> 0x7fffffff \<and> buf \<noteq> 0 \<and> Cap (newChunkPool n) < frag_total (captured_len max_cap num) \<and>
       (\<forall>raw ev. arrives (call_key pid_tgid now_ns cs buf num) es raw ev \<longrightarrow>
          raw \<in> set (call_samples mem max_cap pid_tgid now_ns cs buf num hook)) \<longrightarrow>
       events_of (call_key pid_tgid now_ns cs buf num) (emitted s) = [])"
proof -
  let ?c = "Cap (newChunkPool n)"
  have b: "bounded ?c (loop_init (newChunkPool n) m t1 t2)"
    by (simp add: bounded_def loop_ok_init) (simp add: loop_init_def)
  have len: "\<forall>e \<in> set (emitted s). length (cePayload e) \<le> 512 * ?c"
    using readLoop_bounded [OF b] assms by (metis chunkSize_def fst_conv)
  have big: "events_of k (emitted s) = []" if "\<And>raw ev. arrives k es raw ev \<Longrightarrow> ?c < unat (seFragCnt ev)" for k
  proof -
    have "starved ?c k (loop_init (newChunkPool n) m t1 t2)"
      using b by (simp add: starved_def) (simp add: loop_init_def events_of_def)
    from readLoop_starved [OF this, of es ttl] that show ?thesis using assms by simp
  qed
  have call: "events_of (call_key pid_tgid now_ns cs buf num) (emitted s) = []"
    if "0 < num \<and> num \<le> 0x7fffffff \<and> buf \<noteq> 0 \<and> ?c < frag_total (captured_len max_cap num) \<and>
       (\<forall>raw ev. arrives (call_key pid_tgid now_ns cs buf num) es raw ev \<longrightarrow>
          raw \<in> set (call_samples mem max_cap pid_tgid now_ns cs buf num hook))"
    for mem max_cap pid_tgid now_ns cs buf num hook
  proof (rule big)
    fix raw ev assume a: "arrives (call_key pid_tgid now_ns cs buf num) es raw ev"
    then have "raw \<in> set (call_samples mem max_cap pid_tgid now_ns cs buf num hook)" "decode_sslEvent raw = Some ev"
      using that by (auto simp: arrives_def)
    then show "?c < unat (seFragCnt ev)"
      using call_record_cnt [of num buf raw ev mem max_cap pid_tgid now_ns cs hook] that by simp
  qed
  show ?thesis
    by (intro conjI allI impI) (rule len, blast intro: big, rule call)
qed

text \<open>A write of 600000 bytes and a pool of 1024 chunks, with all its records.\<close>

theorem events_fit_pool_witness:
  "(\<exists>e \<in> set (emitted (run_samples 5 (example_run example_memory) example_loop)).
      length (cePayload e) = 700 \<and> length (cePayload e) \<le> 512 * Cap (newChunkPool 524288)) \<and>
   (let xs = map (Pair example_iter) (call_samples example_memory 0 7 100 Map.empty 4096 600000 1)
    in xs \<noteq> [] \<and> events_of (call_key 7 100 Map.empty 4096 600000) (emitted (run_samples 5 xs example_loop)) = [])"
proof -
  obtain e where e: "e \<in> set (emitted (run_samples 5 (example_run example_memory) example_loop))" "length (cePayload e) = 700"
    by (rule example_emits)
  let ?raws = "call_samples example_memory 0 7 100 Map.empty 4096 600000 1"
  let ?xs = "map (Pair example_iter) ?raws"
  have n: "frag_total (captured_len 0 600000) = 1172" by (simp add: frag_total_def captured_len_def)
  have ne: "?raws \<noteq> []" by (subst call_samples_eq) (simp_all add: n)
  have cap: "Cap (newChunkPool 524288) = 1024" by (simp add: Cap_def newChunkPool_def chunkSize_def)
  have fits: "Cap (newChunkPool 524288) < frag_total (captured_len 0 600000)" by (simp add: n cap)
  note run = readLoop_run_samples [of 5 _ example_loop, unfolded example_loop_def]
  have "events_of (call_key 7 100 Map.empty 4096 600000) (emitted (run_samples 5 ?xs example_loop)) = []"
    using events_fit_pool [OF run [of ?xs], THEN conjunct2, THEN conjunct2, rule_format,
        of 600000 4096 0 7 100 Map.empty example_memory 1] fits
    by (auto simp: arrives_def example_loop_def)
  then show ?thesis
    using events_fit_pool [OF run [of "example_run example_memory"]] e ne by (auto simp: example_loop_def Let_def)
qed

end
