(* ===== verification/Hook_Attach.thy ===== *)
theory Hook_Attach
  imports Container_Watch "HOL-Library.Word"
begin

text \<open>
  Attaching uprobes to the processes of a container: \<^verbatim>\<open>attachOpenSSL\<close>, \<^verbatim>\<open>discoverLibSSLUnderProcRoot\<close>
  and \<^verbatim>\<open>discoverNodeExecutableUnderProcRoot\<close> of \<^verbatim>\<open>main.go\<close>, \<^verbatim>\<open>attachGoTLS\<close> of \<^verbatim>\<open>go_tls.go\<close>, the
  symbol lookup of \<^verbatim>\<open>symbols.go\<close>, and \<^verbatim>\<open>attachUprobes\<close> with its environment. What the file
  system, the ELF readers and the kernel answer is a record of functions, \<open>hookEnv\<close>. A link that the
  kernel hands out is the next number of a counter.
\<close>

section \<open>File offsets of symbols\<close>

record elfProg =
  pgLoad :: bool
  pgExec :: bool
  pgVaddr :: u64
  pgMemsz :: u64
  pgOff :: u64

record elfSym =
  syName :: string
  syValue :: u64

text \<open>An open ELF file: program headers, symbols, dynamic symbols, and the functions of its pclntab.\<close>

record elfFile =
  efProgs :: "elfProg list"
  efSyms :: "elfSym list"
  efDyn :: "elfSym list"
  efFuncs :: "elfSym list option"

definition goTLSWriteCandidates :: "string list" where
  "goTLSWriteCandidates = [''crypto/tls.(*Conn).Write'', ''crypto/tls.(*Conn).writeRecordLocked'']"

definition in_segment :: "u64 \<Rightarrow> elfProg \<Rightarrow> bool" where
  "in_segment addr pg \<longleftrightarrow> pgVaddr pg \<le> addr \<and> addr < pgVaddr pg + pgMemsz pg"

fun prog_offset :: "elfProg list \<Rightarrow> u64 \<Rightarrow> u64 option" where
  "prog_offset [] addr = None"
| "prog_offset (pg # pgs) addr =
     (if \<not> pgLoad pg \<or> \<not> pgExec pg then prog_offset pgs addr
      else if in_segment addr pg then Some (addr - pgVaddr pg + pgOff pg)
      else prog_offset pgs addr)"

definition symFileOffset :: "elfFile \<Rightarrow> u64 \<Rightarrow> u64 option" where
  "symFileOffset f addr = prog_offset (efProgs f) addr"

text \<open>The first entry that qualifies and lies in an executable segment, with its offset.\<close>

fun first_offset :: "elfFile \<Rightarrow> (elfSym \<Rightarrow> bool) \<Rightarrow> elfSym list \<Rightarrow> (u64 \<times> elfSym) option" where
  "first_offset f P [] = None"
| "first_offset f P (s # ss) =
     (if P s then (case symFileOffset f (syValue s) of Some off \<Rightarrow> Some (off, s) | None \<Rightarrow> first_offset f P ss)
      else first_offset f P ss)"

fun lookup_syms :: "elfFile \<Rightarrow> string list \<Rightarrow> (u64 \<times> string) option" where
  "lookup_syms f [] = None"
| "lookup_syms f (cand # cands) =
     (case first_offset f (\<lambda>s. syName s = cand \<and> syValue s \<noteq> 0) (efSyms f @ efDyn f) of
        Some (off, s) \<Rightarrow> Some (off, cand)
      | None \<Rightarrow> lookup_syms f cands)"

definition mangled_write :: "string \<Rightarrow> bool" where
  "mangled_write name \<longleftrightarrow> Contains name ''crypto/tls.(*Conn).Write'' \<and> \<not> Contains name ''writeRecord''"

fun lookup_funcs :: "elfFile \<Rightarrow> elfSym list \<Rightarrow> string list \<Rightarrow> (u64 \<times> string) option" where
  "lookup_funcs f fns [] = None"
| "lookup_funcs f fns (cand # cands) =
     (case first_offset f (\<lambda>fn. syName fn = cand) fns of
        Some (off, fn) \<Rightarrow> Some (off, cand)
      | None \<Rightarrow>
          (case first_offset f (\<lambda>fn. mangled_write (syName fn)) fns of
             Some (off, fn) \<Rightarrow> Some (off, syName fn)
           | None \<Rightarrow> lookup_funcs f fns cands))"

text \<open>\<open>efFuncs\<close> is \<open>None\<close> when \<^verbatim>\<open>lookupViaGosym\<close> cannot build the table.\<close>

definition lookupViaGosym :: "elfFile \<Rightarrow> (u64 \<times> string) option" where
  "lookupViaGosym f = (case efFuncs f of None \<Rightarrow> None | Some fns \<Rightarrow> lookup_funcs f fns goTLSWriteCandidates)"

definition lookupGoTLSWrite :: "elfFile option \<Rightarrow> (u64 \<times> string) option" where
  "lookupGoTLSWrite file =
     (case file of
        None \<Rightarrow> None
      | Some f \<Rightarrow>
          (case lookup_syms f goTLSWriteCandidates of
             Some r \<Rightarrow> Some r
           | None \<Rightarrow> lookupViaGosym f))"

section \<open>The symbol cache\<close>

record symbolCacheEntry =
  scModTime :: int
  scSize :: int
  scOffset :: u64
  scOk :: bool

type_synonym symbolCache = "string \<rightharpoonup> symbolCacheEntry"

text \<open>\<open>stat\<close>: modification time and size; the file is what is behind the path at this moment.\<close>

definition resolveGoTLSWriteOffset :: "(string \<Rightarrow> (int \<times> int) option) \<Rightarrow> (string \<Rightarrow> elfFile option) \<Rightarrow> string \<Rightarrow>
    symbolCache \<Rightarrow> (u64 \<times> string) option \<times> symbolCache" where
  "resolveGoTLSWriteOffset stat openElf path cache =
     (case stat path of
        None \<Rightarrow> (None, cache)
      | Some (mtime, sz) \<Rightarrow>
          let miss = (let r = lookupGoTLSWrite (openElf path)
                      in (r, cache(path \<mapsto> \<lparr>scModTime = mtime, scSize = sz,
                            scOffset = (case r of None \<Rightarrow> 0 | Some (off, _) \<Rightarrow> off), scOk = (r \<noteq> None)\<rparr>)))
          in case cache path of
               None \<Rightarrow> miss
             | Some e \<Rightarrow>
                 if scModTime e = mtime \<and> scSize e = sz
                 then (if \<not> scOk e then (None, cache) else (Some (scOffset e, ''cached''), cache))
                 else miss)"

section \<open>Environment\<close>

record hookEnv =
  heRuntimes :: string
  heCtxDone :: "nat \<Rightarrow> bool"
  heLibSSL :: "int \<Rightarrow> nat \<Rightarrow> string option"
  heNode :: "int \<Rightarrow> string option"
  heOpen :: "string \<Rightarrow> bool"
  heUprobe :: "string \<Rightarrow> string \<Rightarrow> bool"
  heGoProbe :: bool
  heGoExes :: "int \<Rightarrow> string list"
  heStat :: "string \<Rightarrow> bool"
  heIsGo :: "string \<Rightarrow> bool"
  heResolve :: "string \<Rightarrow> u64 option"
  heGoUprobe :: "string \<Rightarrow> u64 \<Rightarrow> bool"

section \<open>OpenSSL\<close>

text \<open>The result of an attempt to hook: links on success, links closed on the way, the next number.\<close>

type_synonym hooked = "link list option \<times> link list \<times> link"

definition attach_pair :: "hookEnv \<Rightarrow> string \<Rightarrow> link \<Rightarrow> hooked" where
  "attach_pair env exe next =
     (if \<not> heOpen env exe then (None, [], next)
      else if \<not> heUprobe env exe ''SSL_write'' then (None, [], next)
      else let lw = next; next = next + 1
           in if \<not> heUprobe env exe ''SSL_write_ex'' then (None, [lw], next)
              else (Some [lw, next], [], next + 1))"

datatype discovery = Cancelled | Found string | NotDiscovered

fun discover_loop :: "hookEnv \<Rightarrow> int \<Rightarrow> nat \<Rightarrow> nat \<Rightarrow> discovery" where
  "discover_loop env pid 0 attempt = NotDiscovered"
| "discover_loop env pid (Suc left) attempt =
     (if heCtxDone env attempt then Cancelled
      else case heLibSSL env pid attempt of
             Some lib \<Rightarrow> if lib \<noteq> [] then Found lib else discover_loop env pid left (attempt + 1)
           | None \<Rightarrow> discover_loop env pid left (attempt + 1))"

definition attachOpenSSL :: "hookEnv \<Rightarrow> int \<Rightarrow> link \<Rightarrow> hooked" where
  "attachOpenSSL env pid next =
     (let maxAttempts = (if snd (parseRuntimes (heRuntimes env)) then 4 else 20)
      in case discover_loop env pid maxAttempts 0 of
           Cancelled \<Rightarrow> (None, [], next)
         | Found lib \<Rightarrow> attach_pair env lib next
         | NotDiscovered \<Rightarrow>
             (case heNode env pid of
                None \<Rightarrow> (None, [], next)
              | Some exe \<Rightarrow> if exe \<noteq> [] then attach_pair env exe next else (None, [], next)))"

section \<open>Go\<close>

text \<open>The link of a probe with the file it was put on and the offset in it.\<close>

record goProbe =
  gpPath :: string
  gpOffset :: u64
  gpLink :: link

fun attach_go :: "hookEnv \<Rightarrow> string list \<Rightarrow> link \<Rightarrow> goProbe option \<times> link" where
  "attach_go env [] next = (None, next)"
| "attach_go env (path # paths) next =
     (if path = [] then attach_go env paths next
      else if \<not> heStat env path then attach_go env paths next
      else if \<not> heIsGo env path then attach_go env paths next
      else case heResolve env path of
             None \<Rightarrow> attach_go env paths next
           | Some off \<Rightarrow>
               if \<not> heOpen env path then attach_go env paths next
               else if \<not> heGoUprobe env path off then attach_go env paths next
               else (Some \<lparr>gpPath = path, gpOffset = off, gpLink = next\<rparr>, next + 1))"

definition attachGoTLS :: "hookEnv \<Rightarrow> int \<Rightarrow> link \<Rightarrow> goProbe option \<times> link" where
  "attachGoTLS env pid next =
     (if \<not> heGoProbe env then (None, next) else attach_go env (heGoExes env pid) next)"

section \<open>A container\<close>

record hookState =
  hkWatch :: watchState
  hkNext :: link

text \<open>\<^verbatim>\<open>attachUprobes\<close>: the two attempts are made only when the container is not registered.
  The goroutine of the mode is the only one that registers, so nothing is registered while it attaches, and the two
  look-ups of the container under the lock, before and after, find the same.\<close>

definition hook_container :: "hookEnv \<Rightarrow> string \<Rightarrow> int \<Rightarrow> targetMeta \<Rightarrow> hookState \<Rightarrow> hookState" where
  "hook_container env cid pid meta h =
     (let s = hkWatch h
      in case byID (cw s) cid of
           Some _ \<Rightarrow> h\<lparr>hkWatch := attachUprobes s cid meta (heRuntimes env) None None\<rparr>
         | None \<Rightarrow>
             let (wantOpenSSL, wantGo) = parseRuntimes (heRuntimes env);
                 (ssl, closed, next) = (if wantOpenSSL then attachOpenSSL env pid (hkNext h) else (None, [], hkNext h));
                 (go, next) = (if wantGo then attachGoTLS env pid next else (None, next));
                 s = s\<lparr>closedLinks := closedLinks s @ closed\<rparr>
             in \<lparr>hkWatch = attachUprobes s cid meta (heRuntimes env) ssl (map_option gpLink go), hkNext = next\<rparr>)"

section \<open>Lemmas\<close>

lemma prog_offset_Some:
  "prog_offset pgs addr = Some off \<Longrightarrow>
     \<exists>pg \<in> set pgs. pgLoad pg \<and> pgExec pg \<and> in_segment addr pg \<and> off = addr - pgVaddr pg + pgOff pg"
  by (induction pgs) (auto split: if_splits)

lemma first_offset_Some:
  "first_offset f P ss = Some (off, s) \<Longrightarrow> s \<in> set ss \<and> P s \<and> symFileOffset f (syValue s) = Some off"
  by (induction ss) (auto split: if_splits option.splits)

lemma lookup_syms_Some:
  "lookup_syms f cands = Some (off, name) \<Longrightarrow>
     name \<in> set cands \<and> (\<exists>s \<in> set (efSyms f @ efDyn f). syName s = name \<and> syValue s \<noteq> 0 \<and> symFileOffset f (syValue s) = Some off)"
  by (induction cands) (fastforce split: option.splits dest!: first_offset_Some)+

lemma lookup_funcs_Some:
  "lookup_funcs f fns cands = Some (off, name) \<Longrightarrow>
     \<exists>fn \<in> set fns. syName fn = name \<and> (name \<in> set cands \<or> mangled_write name) \<and> symFileOffset f (syValue fn) = Some off"
  by (induction cands) (fastforce split: option.splits dest!: first_offset_Some)+

text \<open>What the attempts hand out is new, and nothing is handed out twice.\<close>

definition fresh_links :: "link list \<Rightarrow> link \<Rightarrow> link \<Rightarrow> bool" where
  "fresh_links ls n n' \<longleftrightarrow> distinct ls \<and> set ls = {n..<n'} \<and> n \<le> n'"

lemma attach_pair_fresh:
  "attach_pair env exe n = (r, closed, n') \<Longrightarrow> fresh_links (closed @ (case r of None \<Rightarrow> [] | Some ls \<Rightarrow> ls)) n n'"
  by (auto simp: attach_pair_def Let_def fresh_links_def split: if_splits)

lemma attachOpenSSL_fresh:
  "attachOpenSSL env pid n = (r, closed, n') \<Longrightarrow> fresh_links (closed @ (case r of None \<Rightarrow> [] | Some ls \<Rightarrow> ls)) n n'"
proof -
  have "fresh_links [] n n" by (simp add: fresh_links_def)
  then show "attachOpenSSL env pid n = (r, closed, n') \<Longrightarrow> ?thesis"
    by (auto simp: attachOpenSSL_def Let_def dest: attach_pair_fresh split: discovery.splits option.splits if_splits)
qed

lemma attachGoTLS_fresh:
  "attachGoTLS env pid n = (r, n') \<Longrightarrow> fresh_links (case r of None \<Rightarrow> [] | Some g \<Rightarrow> [gpLink g]) n n'"
proof -
  have "attach_go env paths n = (r, n') \<Longrightarrow> fresh_links (case r of None \<Rightarrow> [] | Some g \<Rightarrow> [gpLink g]) n n'" for paths
    by (induction paths) (auto simp: fresh_links_def split: if_splits option.splits)
  then show "attachGoTLS env pid n = (r, n') \<Longrightarrow> fresh_links (case r of None \<Rightarrow> [] | Some g \<Rightarrow> [gpLink g]) n n'"
    by (auto simp: attachGoTLS_def fresh_links_def split: if_splits)
qed

lemma fresh_links_append:
  "fresh_links xs n m \<Longrightarrow> fresh_links ys m k \<Longrightarrow> fresh_links (xs @ ys) n k"
  by (fastforce simp: fresh_links_def)

section \<open>Invariant\<close>

text \<open>The registry is consistent, and the links in it and the closed ones are all that were handed out.\<close>

definition hook_ok :: "hookState \<Rightarrow> bool" where
  "hook_ok h \<longleftrightarrow> watch_ok (hkWatch h) \<and> active_links (hkWatch h) \<union> set (closedLinks (hkWatch h)) = {..<hkNext h}"

lemma watch_ok_close:
  assumes ok: "watch_ok s" and ls: "distinct ls" "set ls \<inter> (active_links s \<union> set (closedLinks s)) = {}"
  shows "watch_ok (s\<lparr>closedLinks := closedLinks s @ ls\<rparr>)"
proof (rule watch_okI, goal_cases)
  case (5 k as)
  then have "set (links as) \<subseteq> active_links s" by (auto simp: active_links_def ran_def)
  then show ?case using watch_okD(4) [OF ok, of k as] 5 ls(2) by auto
next
  case 7
  then show ?case using watch_okD(6) [OF ok] ls by auto
qed (use watch_okD(1-5) [OF ok] in auto)

lemma watch_ok_meta:
  assumes "watch_ok s" and "byID (cw s) cid = Some as"
  shows "watch_ok (s\<lparr>cw := (cw s)\<lparr>metaByID := (metaByID (cw s))(cid \<mapsto> meta)\<rparr>\<rparr>)"
  using assms by (auto simp: watch_ok_def)

lemma watch_ok_metrics:
  "watch_ok s \<Longrightarrow> attachedTargets m = attachedTargets (wmetrics s) \<Longrightarrow> watch_ok (s\<lparr>wmetrics := m\<rparr>)"
  by (simp add: watch_ok_def)

text \<open>The links of the two attempts together.\<close>

definition hook_links :: "bool \<Rightarrow> bool \<Rightarrow> link list option \<Rightarrow> link option \<Rightarrow> link list" where
  "hook_links wantSSL wantGo ssl go =
     (if wantSSL then (case ssl of None \<Rightarrow> [] | Some l \<Rightarrow> l) else []) @
     (if wantGo then (case go of None \<Rightarrow> [] | Some l \<Rightarrow> [l]) else [])"

lemma attachUprobes_new:
  assumes "byID (cw s) cid = None" and "parseRuntimes rt = (wantSSL, wantGo)"
  shows "attachUprobes s cid meta rt ssl go =
    (if hook_links wantSSL wantGo ssl go = [] then s\<lparr>wmetrics := recordAttachError (wmetrics s)\<rparr>
     else registerAttach s cid meta (hook_links wantSSL wantGo ssl go))"
  using assms by (auto simp: attachUprobes_def hook_links_def Let_def split: option.splits)

lemma hook_container_new:
  fixes env cid pid meta h
  assumes ok: "hook_ok h" and new: "byID (cw (hkWatch h)) cid = None"
  defines "s \<equiv> hkWatch h"
  obtains closed ls n where "hkNext (hook_container env cid pid meta h) = n"
    and "fresh_links (closed @ ls) (hkNext h) n"
    and "hkWatch (hook_container env cid pid meta h) =
      (if ls = [] then s\<lparr>closedLinks := closedLinks s @ closed, wmetrics := recordAttachError (wmetrics s)\<rparr>
       else registerAttach (s\<lparr>closedLinks := closedLinks s @ closed\<rparr>) cid meta ls)"
proof -
  obtain wS wG where rt: "parseRuntimes (heRuntimes env) = (wS, wG)" by fastforce
  obtain ssl closed n1 where a: "(if wS then attachOpenSSL env pid (hkNext h) else (None, [], hkNext h)) = (ssl, closed, n1)"
    by (cases "if wS then attachOpenSSL env pid (hkNext h) else (None, [], hkNext h)")
  obtain go n where g: "(if wG then attachGoTLS env pid n1 else (None, n1)) = (go, n)" by fastforce
  have f1: "fresh_links (closed @ (if wS then (case ssl of None \<Rightarrow> [] | Some l \<Rightarrow> l) else [])) (hkNext h) n1"
    using a attachOpenSSL_fresh [of env pid "hkNext h" ssl closed n1] by (cases wS) (auto simp: fresh_links_def [of "[]"])
  have f2: "fresh_links (if wG then (case go of None \<Rightarrow> [] | Some g \<Rightarrow> [gpLink g]) else []) n1 n"
    using g attachGoTLS_fresh [of env pid n1 go n] by (cases wG) (auto simp: fresh_links_def [of "[]"])
  have f: "fresh_links (closed @ hook_links wS wG ssl (map_option gpLink go)) (hkNext h) n"
    using fresh_links_append [OF f1 f2] by (cases go; cases wS; cases wG) (simp_all add: hook_links_def)
  have h: "hook_container env cid pid meta h =
      \<lparr>hkWatch = attachUprobes (s\<lparr>closedLinks := closedLinks s @ closed\<rparr>) cid meta (heRuntimes env) ssl (map_option gpLink go), hkNext = n\<rparr>"
    using a g by (simp add: hook_container_def new s_def rt) (simp add: Let_def)
  have "hkWatch (hook_container env cid pid meta h) =
      (if hook_links wS wG ssl (map_option gpLink go) = [] then s\<lparr>closedLinks := closedLinks s @ closed, wmetrics := recordAttachError (wmetrics s)\<rparr>
       else registerAttach (s\<lparr>closedLinks := closedLinks s @ closed\<rparr>) cid meta (hook_links wS wG ssl (map_option gpLink go)))"
    unfolding h by (subst attachUprobes_new [OF _ rt]) (simp_all add: new s_def)
  then show thesis using that f h by simp
qed

lemma hook_container_ok [inv_intros]:
  assumes ok: "hook_ok h"
  shows "hook_ok (hook_container env cid pid meta h)"
proof (cases "byID (cw (hkWatch h)) cid")
  case (Some as)
  have "hook_container env cid pid meta h =
      h\<lparr>hkWatch := (hkWatch h)\<lparr>cw := (cw (hkWatch h))\<lparr>metaByID := (metaByID (cw (hkWatch h)))(cid \<mapsto> meta)\<rparr>\<rparr>\<rparr>"
    using Some by (simp add: hook_container_def attachUprobes_def Let_def)
  then show ?thesis
    using ok watch_ok_meta [OF _ Some, of meta] by (simp add: hook_ok_def active_links_def)
next
  case None
  let ?s = "hkWatch h"
  obtain closed ls n where e: "hkNext (hook_container env cid pid meta h) = n"
    "fresh_links (closed @ ls) (hkNext h) n"
    "hkWatch (hook_container env cid pid meta h) =
      (if ls = [] then ?s\<lparr>closedLinks := closedLinks ?s @ closed, wmetrics := recordAttachError (wmetrics ?s)\<rparr>
       else registerAttach (?s\<lparr>closedLinks := closedLinks ?s @ closed\<rparr>) cid meta ls)"
    by (rule hook_container_new [OF ok None])
  let ?u = "?s\<lparr>closedLinks := closedLinks ?s @ closed\<rparr>"
  have old: "watch_ok ?s" "active_links ?s \<union> set (closedLinks ?s) \<subseteq> {..<hkNext h}"
    using ok by (simp_all add: hook_ok_def)
  have old_eq: "active_links ?s \<union> set (closedLinks ?s) = {..<hkNext h}" using ok by (simp add: hook_ok_def)
  have new_eq: "set closed \<union> set ls = {hkNext h..<n}" "{..<hkNext h} \<union> {hkNext h..<n} = {..<n}"
    using e(2) by (auto simp: fresh_links_def)
  have disj: "set (closed @ ls) \<inter> (active_links ?s \<union> set (closedLinks ?s)) = {}"
    using old(2) e(2) by (fastforce simp: fresh_links_def)
  have dist: "distinct closed" "distinct ls" "set closed \<inter> set ls = {}" "set (closed @ ls) \<subseteq> {..<n}" "hkNext h \<le> n"
    using e(2) by (auto simp: fresh_links_def)
  have u: "watch_ok ?u" "active_links ?u = active_links ?s"
    using disj by (auto intro!: watch_ok_close [OF old(1) dist(1)] simp: active_links_def)
  show ?thesis
  proof (cases "ls = []")
    case True
    have "watch_ok (?u\<lparr>wmetrics := recordAttachError (wmetrics ?u)\<rparr>)"
      by (rule watch_ok_metrics [OF u(1)]) (simp add: recordAttachError_def)
    moreover have "active_links ?s \<union> (set (closedLinks ?s) \<union> set closed) = {..<n}"
      using old_eq new_eq True by auto
    ultimately show ?thesis
      using e(1,3) True by (simp add: hook_ok_def active_links_def)
  next
    case False
    have "watch_ok (registerAttach ?u cid meta ls)"
      using disj dist(3) u(2) by (intro registerAttach_ok [OF u(1) dist(2) False]) auto
    moreover have "active_links (registerAttach ?u cid meta ls) = active_links ?s \<union> set ls"
      using registerAttach_new(1) [of ?u cid meta ls] None by (simp add: active_links_def ran_map_upd Un_commute)
    moreover have "closedLinks (registerAttach ?u cid meta ls) = closedLinks ?s @ closed"
      using registerAttach_new(3) [of ?u cid meta ls] None by simp
    moreover have "(active_links ?s \<union> set ls) \<union> (set (closedLinks ?s) \<union> set closed) = {..<n}"
      using old_eq new_eq by auto
    ultimately show ?thesis
      using e(1,3) False by (simp add: hook_ok_def)
  qed
qed

end
