(* ===== verification/Container_Events.thy ===== *)
theory Container_Events
  imports Hook_Attach
begin

text \<open>
  The handlers that decide which containers are hooked: \<^verbatim>\<open>scanRunning\<close>, \<^verbatim>\<open>handleDockerEvent\<close>,
  \<^verbatim>\<open>attachContainer\<close>, \<^verbatim>\<open>waitContainerPID\<close> and the loop of \<^verbatim>\<open>runDockerMode\<close> of \<^verbatim>\<open>main.go\<close>;
  \<^verbatim>\<open>syncPod\<close>, \<^verbatim>\<open>detachPodContainers\<close>, \<^verbatim>\<open>attachByContainerID\<close>, \<^verbatim>\<open>scanRunningPods\<close> and the event switch
  of \<^verbatim>\<open>watchPods\<close> of \<^verbatim>\<open>k8s.go\<close>. What the Docker and Kubernetes clients return are arguments;
  \<open>order\<close> gives the order of a \<^verbatim>\<open>range\<close> over the registry, for the registry it runs over.
\<close>

type_synonym order = "(string \<rightharpoonup> attachSet) \<Rightarrow> string list"

definition order_ok :: "order \<Rightarrow> bool" where
  "order_ok order \<longleftrightarrow> (\<forall>m. finite (dom m) \<longrightarrow> enumerates (order m) m)"

section \<open>Docker\<close>

datatype inspect_state = InspectError | Inspected bool int

datatype wait_error = WaitCancelled | NotRunning | NoPID

fun wait_pid :: "(nat \<Rightarrow> bool) \<Rightarrow> (nat \<Rightarrow> inspect_state) \<Rightarrow> nat \<Rightarrow> nat \<Rightarrow> wait_error + int" where
  "wait_pid ctxDone inspect 0 i = Inl NoPID"
| "wait_pid ctxDone inspect (Suc left) i =
     (if ctxDone i then Inl WaitCancelled
      else case inspect i of
             InspectError \<Rightarrow> wait_pid ctxDone inspect left (i + 1)
           | Inspected running pid \<Rightarrow>
               if \<not> running then Inl NotRunning
               else if 0 < pid then Inr pid
               else wait_pid ctxDone inspect left (i + 1))"

definition waitContainerPID :: "(nat \<Rightarrow> bool) \<Rightarrow> (nat \<Rightarrow> inspect_state) \<Rightarrow> wait_error + int" where
  "waitContainerPID ctxDone inspect = wait_pid ctxDone inspect 50 0"

text \<open>What the environment answers while one container is attached.\<close>

record attachInput =
  aiHook :: hookEnv
  aiWaitDone :: "nat \<Rightarrow> bool"
  aiInspect :: "nat \<Rightarrow> inspect_state"

definition attachContainer :: "attachInput \<Rightarrow> string \<Rightarrow> hookState \<Rightarrow> hookState" where
  "attachContainer ai cid h =
     (case waitContainerPID (aiWaitDone ai) (aiInspect ai) of
        Inl _ \<Rightarrow> h\<lparr>hkWatch := (hkWatch h)\<lparr>wmetrics := recordAttachError (wmetrics (hkWatch h))\<rparr>\<rparr>
      | Inr rootPID \<Rightarrow> hook_container (aiHook ai) cid rootPID no_meta h)"

definition is_self :: "hookState \<Rightarrow> string \<Rightarrow> bool" where
  "is_self h cid \<longleftrightarrow> isSelfContainer (selfContainerID (cw (hkWatch h))) cid"

definition wanted_labels :: "hookState \<Rightarrow> (string \<rightharpoonup> string) option \<Rightarrow> bool" where
  "wanted_labels h labels \<longleftrightarrow> labelsMatch (labelPairs (cw (hkWatch h))) labels"

record dockerContainer =
  dcID :: string
  dcState :: string
  dcLabels :: "(string \<rightharpoonup> string) option"

fun scan_list :: "(dockerContainer \<times> attachInput) list \<Rightarrow> hookState \<Rightarrow> hookState" where
  "scan_list [] h = h"
| "scan_list ((c, ai) # cs) h =
     (if is_self h (dcID c) then scan_list cs h
      else if dcState c \<noteq> ''running'' then scan_list cs h
      else if \<not> wanted_labels h (dcLabels c) then scan_list cs h
      else scan_list cs (attachContainer ai (dcID c) h))"

definition scanRunning :: "(dockerContainer \<times> attachInput) list option \<Rightarrow> hookState \<Rightarrow> hookState" where
  "scanRunning cs h = (case cs of None \<Rightarrow> h | Some cs \<Rightarrow> scan_list cs h)"

definition hook_detach :: "order \<Rightarrow> string \<Rightarrow> hookState \<Rightarrow> hookState" where
  "hook_detach order cid h = h\<lparr>hkWatch := detachContainer (hkWatch h) (order (byID (cw (hkWatch h)))) cid\<rparr>"

record dockerEvent =
  deType :: string
  deAction :: string
  deActorID :: string

text \<open>\<open>inspect\<close>: the labels \<^verbatim>\<open>ContainerInspect\<close> reports, \<open>None\<close> for an error.\<close>

definition handleDockerEvent :: "order \<Rightarrow> (string \<rightharpoonup> string) option option \<Rightarrow> attachInput \<Rightarrow> dockerEvent \<Rightarrow>
    hookState \<Rightarrow> hookState" where
  "handleDockerEvent order inspect ai ev h =
     (let cid = deActorID ev
      in if deType ev \<noteq> ''container'' then h
         else if cid = [] then h
         else if is_self h cid then h
         else if deAction ev = ''start'' then
           (case inspect of
              None \<Rightarrow> h
            | Some labels \<Rightarrow> if \<not> wanted_labels h labels then h else attachContainer ai cid h)
         else if deAction ev = ''die'' \<or> deAction ev = ''destroy'' then hook_detach order cid h
         else h)"

fun hook_detach_each :: "order \<Rightarrow> string list \<Rightarrow> hookState \<Rightarrow> hookState" where
  "hook_detach_each order [] h = h"
| "hook_detach_each order (cid # cids) h = hook_detach_each order cids (hook_detach order cid h)"

definition hook_detachAll :: "order \<Rightarrow> hookState \<Rightarrow> hookState" where
  "hook_detachAll order h = hook_detach_each order (order (byID (cw (hkWatch h)))) h"

text \<open>The loop over what the three channels deliver.\<close>

datatype docker_input = DockerDone | DockerError
  | DockerEvent "(string \<rightharpoonup> string) option option" attachInput dockerEvent

fun docker_loop :: "order \<Rightarrow> docker_input list \<Rightarrow> hookState \<Rightarrow> hookState \<times> bool" where
  "docker_loop order [] h = (h, False)"
| "docker_loop order (DockerDone # _) h = (hook_detachAll order h, True)"
| "docker_loop order (DockerError # is) h = docker_loop order is h"
| "docker_loop order (DockerEvent inspect ai ev # is) h = docker_loop order is (handleDockerEvent order inspect ai ev h)"

text \<open>\<^verbatim>\<open>runDockerMode\<close> after the client exists: \<open>via_api\<close> is what \<^verbatim>\<open>detectSelfViaDockerAPI\<close> finds.\<close>

definition runDockerMode :: "order \<Rightarrow> string option \<Rightarrow> string option \<Rightarrow> string \<Rightarrow> string \<Rightarrow>
    (dockerContainer \<times> attachInput) list option \<Rightarrow> docker_input list \<Rightarrow> hookState \<Rightarrow> (hookState \<times> bool) option" where
  "runDockerMode order cgroup hostname via_api label list is h =
     (let self = detectSelfContainerID cgroup hostname;
          self = (if self = [] then via_api else self);
          s = hkWatch h;
          h = h\<lparr>hkWatch := s\<lparr>cw := (cw s)\<lparr>selfContainerID := self\<rparr>\<rparr>\<rparr>
      in case parseLabelFilter label of
           Inl _ \<Rightarrow> None
         | Inr pairs \<Rightarrow>
             let s = hkWatch h;
                 h = h\<lparr>hkWatch := s\<lparr>cw := (cw s)\<lparr>labelPairs := pairs\<rparr>\<rparr>\<rparr>
             in Some (docker_loop order is (scanRunning list h)))"

section \<open>Kubernetes\<close>

record containerStatus =
  csName :: string
  csContainerID :: string
  csRunning :: bool

record pod =
  pdName :: string
  pdNamespace :: string
  pdDeleting :: bool
  pdAnnotations :: "(string \<rightharpoonup> string) option"
  pdPhase :: string
  pdStatuses :: "containerStatus list"

text \<open>
  What \<^verbatim>\<open>findPIDByContainerID\<close> returns at the first attempt and at each retry (the directory it
  scans), and whether the context is cancelled before a retry.
\<close>

record resolveInput =
  riHook :: hookEnv
  riProc :: "nat \<Rightarrow> procEntry list option"
  riDone :: "nat \<Rightarrow> bool"

fun retry_pid :: "resolveInput \<Rightarrow> string \<Rightarrow> nat \<Rightarrow> nat \<Rightarrow> nat option option" where
  "retry_pid ri cid 0 i = Some None"
| "retry_pid ri cid (Suc left) i =
     (if riDone ri i then None
      else case findPIDByContainerID (riProc ri i) cid of
             Inr pid \<Rightarrow> if 0 < pid then Some (Some pid) else retry_pid ri cid left (i + 1)
           | Inl _ \<Rightarrow> retry_pid ri cid left (i + 1))"

text \<open>\<open>None\<close>: cancelled; \<open>Some None\<close>: no process after all attempts.\<close>

definition resolve_pid :: "resolveInput \<Rightarrow> string \<Rightarrow> nat option option" where
  "resolve_pid ri cid =
     (case findPIDByContainerID (riProc ri 0) cid of
        Inr pid \<Rightarrow> Some (Some pid)
      | Inl _ \<Rightarrow> retry_pid ri cid 30 1)"

definition set_meta :: "string \<Rightarrow> targetMeta \<Rightarrow> hookState \<Rightarrow> hookState" where
  "set_meta cid meta h =
     (let s = hkWatch h in h\<lparr>hkWatch := s\<lparr>cw := (cw s)\<lparr>metaByID := (metaByID (cw s))(cid \<mapsto> meta)\<rparr>\<rparr>\<rparr>)"

definition attachByContainerID :: "order \<Rightarrow> resolveInput \<Rightarrow> string \<Rightarrow> targetMeta \<Rightarrow> hookState \<Rightarrow> hookState" where
  "attachByContainerID order ri cid meta h =
     (let by = byID (cw (hkWatch h))
      in if by cid \<noteq> None then set_meta cid meta h
         else case find (\<lambda>k. containerIDsMatch k cid) (order by) of
                Some k \<Rightarrow> set_meta k meta h
              | None \<Rightarrow>
                  (case resolve_pid ri cid of
                     None \<Rightarrow> h
                   | Some None \<Rightarrow> h\<lparr>hkWatch := (hkWatch h)\<lparr>wmetrics := recordAttachError (wmetrics (hkWatch h))\<rparr>\<rparr>
                   | Some (Some pid) \<Rightarrow> hook_container (riHook ri) cid (int pid) meta h))"

fun detach_statuses :: "order \<Rightarrow> containerStatus list \<Rightarrow> hookState \<Rightarrow> hookState" where
  "detach_statuses order [] h = h"
| "detach_statuses order (st # sts) h =
     (let (rt, cid) = splitContainerID (csContainerID st)
      in if cid = [] then detach_statuses order sts h
         else detach_statuses order sts (hook_detach order cid h))"

definition of_pod :: "pod \<Rightarrow> hookState \<Rightarrow> string \<Rightarrow> bool" where
  "of_pod pod h cid \<longleftrightarrow>
     (case metaByID (cw (hkWatch h)) cid of
        None \<Rightarrow> False
      | Some m \<Rightarrow> podName m = pdName pod \<and> podNamespace m = pdNamespace pod)"

text \<open>The order of \<^verbatim>\<open>metaByID\<close> is that of \<^verbatim>\<open>byID\<close>: the two have the same keys.\<close>

definition detachPodContainers :: "order \<Rightarrow> pod \<Rightarrow> hookState \<Rightarrow> hookState" where
  "detachPodContainers order pod h =
     (let h = detach_statuses order (pdStatuses pod) h;
          ids = filter (of_pod pod h) (order (byID (cw (hkWatch h))))
      in hook_detach_each order ids h)"

fun sync_statuses :: "order \<Rightarrow> (nat \<Rightarrow> resolveInput) \<Rightarrow> pod \<Rightarrow> containerStatus list \<Rightarrow> hookState \<Rightarrow> hookState" where
  "sync_statuses order ri pod [] h = h"
| "sync_statuses order ri pod (st # sts) h =
     (if csContainerID st = [] \<or> \<not> csRunning st then sync_statuses order ri pod sts h
      else let (rt, cid) = splitContainerID (csContainerID st)
           in if cid = [] then sync_statuses order ri pod sts h
              else if is_self h cid then sync_statuses order ri pod sts h
              else let meta = \<lparr>podName = pdName pod, podNamespace = pdNamespace pod, runtime = rt, containerName = csName st\<rparr>
                   in sync_statuses order ri pod sts (attachByContainerID order (ri (length sts)) cid meta h))"

definition syncPod :: "order \<Rightarrow> (nat \<Rightarrow> resolveInput) \<Rightarrow> annotationFilter \<Rightarrow> pod \<Rightarrow> hookState \<Rightarrow> hookState" where
  "syncPod order ri ann pod h =
     (if pdDeleting pod then detachPodContainers order pod h
      else if \<not> annotation_matches ann (pdAnnotations pod) then h
      else if pdPhase pod \<noteq> ''Running'' then h
      else sync_statuses order ri pod (pdStatuses pod) h)"

fun scan_pods :: "order \<Rightarrow> annotationFilter \<Rightarrow> (pod \<times> (nat \<Rightarrow> resolveInput)) list \<Rightarrow> hookState \<Rightarrow> hookState" where
  "scan_pods order ann [] h = h"
| "scan_pods order ann ((pod, ri) # pods) h = scan_pods order ann pods (syncPod order ri ann pod h)"

definition scanRunningPods :: "order \<Rightarrow> annotationFilter \<Rightarrow> (pod \<times> (nat \<Rightarrow> resolveInput)) list option \<Rightarrow> hookState \<Rightarrow> hookState" where
  "scanRunningPods order ann pods h = (case pods of None \<Rightarrow> h | Some pods \<Rightarrow> scan_pods order ann pods h)"

text \<open>One turn of the loop of \<^verbatim>\<open>watchPods\<close>; the flag tells that it returns.\<close>

datatype pod_input = PodCtxDone | PodChanClosed | PodOther | PodAdded pod "nat \<Rightarrow> resolveInput"
  | PodModified pod "nat \<Rightarrow> resolveInput" | PodDeleted pod

fun watchPods :: "order \<Rightarrow> annotationFilter \<Rightarrow> pod_input list \<Rightarrow> hookState \<Rightarrow> hookState \<times> bool" where
  "watchPods order ann [] h = (h, False)"
| "watchPods order ann (i # is) h =
     (case i of
        PodCtxDone \<Rightarrow> (h, True)
      | PodChanClosed \<Rightarrow> (h, True)
      | PodOther \<Rightarrow> watchPods order ann is h
      | PodAdded pod ri \<Rightarrow> watchPods order ann is (syncPod order ri ann pod h)
      | PodModified pod ri \<Rightarrow> watchPods order ann is (syncPod order ri ann pod h)
      | PodDeleted pod \<Rightarrow> watchPods order ann is (detachPodContainers order pod h))"

section \<open>Invariant\<close>

text \<open>The registry is consistent and never holds the container of this process.\<close>

definition hooked_ids :: "hookState \<Rightarrow> string set" where
  "hooked_ids h = dom (byID (cw (hkWatch h)))"

definition self_id :: "hookState \<Rightarrow> string" where
  "self_id h = selfContainerID (cw (hkWatch h))"

definition events_ok :: "hookState \<Rightarrow> bool" where
  "events_ok h \<longleftrightarrow> hook_ok h \<and> (\<forall>k \<in> hooked_ids h. \<not> is_self h k)"

lemma is_self_eq: "is_self h cid \<longleftrightarrow> isSelfContainer (self_id h) cid"
  by (simp add: is_self_def self_id_def)

lemma registerAttach_cfg:
  "selfContainerID (cw (registerAttach s cid meta ls)) = selfContainerID (cw s)"
  "labelPairs (cw (registerAttach s cid meta ls)) = labelPairs (cw s)"
  "dom (byID (cw (registerAttach s cid meta ls))) = insert cid (dom (byID (cw s)))"
  by (auto simp: registerAttach_def Let_def split: option.split)

lemma detachContainer_cfg:
  "selfContainerID (cw (detachContainer s order cid)) = selfContainerID (cw s)"
  "labelPairs (cw (detachContainer s order cid)) = labelPairs (cw s)"
  "dom (byID (cw (detachContainer s order cid))) \<subseteq> dom (byID (cw s))"
  by (auto simp: detachContainer_obs(1) split: if_splits) (simp_all add: detachContainer_def Let_def split: prod.split)

text \<open>Hooking a container registers nothing but that container.\<close>

lemma hook_container_ids:
  assumes ok: "hook_ok h"
  shows "hooked_ids (hook_container env cid pid meta h) \<subseteq> insert cid (hooked_ids h)"
    and "self_id (hook_container env cid pid meta h) = self_id h"
    and "labelPairs (cw (hkWatch (hook_container env cid pid meta h))) = labelPairs (cw (hkWatch h))"
proof -
  let ?s = "hkWatch h" and ?h = "hook_container env cid pid meta h"
  have "hooked_ids ?h \<subseteq> insert cid (hooked_ids h) \<and> self_id ?h = self_id h \<and> labelPairs (cw (hkWatch ?h)) = labelPairs (cw ?s)"
  proof (cases "byID (cw ?s) cid")
    case (Some as)
    then show ?thesis
      by (simp add: hook_container_def attachUprobes_def Let_def hooked_ids_def self_id_def insert_absorb domI)
  next
    case None
    obtain closed ls n where e: "hkNext ?h = n" "fresh_links (closed @ ls) (hkNext h) n"
      "hkWatch ?h = (if ls = [] then ?s\<lparr>closedLinks := closedLinks ?s @ closed, wmetrics := recordAttachError (wmetrics ?s)\<rparr>
         else registerAttach (?s\<lparr>closedLinks := closedLinks ?s @ closed\<rparr>) cid meta ls)"
      by (rule hook_container_new [OF ok None])
    show ?thesis
      by (cases "ls = []") (auto simp: hooked_ids_def self_id_def e(3) registerAttach_cfg)
  qed
  then show "hooked_ids ?h \<subseteq> insert cid (hooked_ids h)" "self_id ?h = self_id h"
    "labelPairs (cw (hkWatch ?h)) = labelPairs (cw ?s)" by blast+
qed

lemma events_okI:
  "hook_ok h' \<Longrightarrow> hooked_ids h' \<subseteq> insert cid (hooked_ids h) \<Longrightarrow> self_id h' = self_id h \<Longrightarrow>
   events_ok h \<Longrightarrow> \<not> is_self h cid \<Longrightarrow> events_ok h'"
  by (auto simp: events_ok_def is_self_eq)

lemma hook_container_events [inv_intros]:
  "events_ok h \<Longrightarrow> \<not> is_self h cid \<Longrightarrow> events_ok (hook_container env cid pid meta h)"
  using hook_container_ok [of h env cid pid meta] hook_container_ids [of h env cid pid meta]
  by (auto simp: events_ok_def is_self_eq)

lemma attach_error_events:
  assumes "events_ok h"
  shows "events_ok (h\<lparr>hkWatch := (hkWatch h)\<lparr>wmetrics := recordAttachError (wmetrics (hkWatch h))\<rparr>\<rparr>)"
    and "self_id (h\<lparr>hkWatch := (hkWatch h)\<lparr>wmetrics := recordAttachError (wmetrics (hkWatch h))\<rparr>\<rparr>) = self_id h"
  using assms watch_ok_metrics [of "hkWatch h" "recordAttachError (wmetrics (hkWatch h))"]
  by (auto simp: events_ok_def hook_ok_def active_links_def hooked_ids_def is_self_eq self_id_def recordAttachError_def)

lemma set_meta_events:
  assumes "events_ok h" and "k \<in> hooked_ids h"
  shows "events_ok (set_meta k meta h)" and "self_id (set_meta k meta h) = self_id h"
proof -
  obtain as where "byID (cw (hkWatch h)) k = Some as" using assms(2) by (auto simp: hooked_ids_def)
  from watch_ok_meta [OF _ this, of meta] assms(1) show "events_ok (set_meta k meta h)"
    by (auto simp: events_ok_def hook_ok_def set_meta_def Let_def active_links_def hooked_ids_def is_self_eq self_id_def)
qed (simp add: set_meta_def Let_def self_id_def)

lemma events_ok_finite: "events_ok h \<Longrightarrow> finite (hooked_ids h)"
  by (auto simp: events_ok_def hook_ok_def hooked_ids_def dest: watch_okD(1))

lemma order_okD: "order_ok order \<Longrightarrow> events_ok h \<Longrightarrow> enumerates (order (byID (cw (hkWatch h)))) (byID (cw (hkWatch h)))"
  using events_ok_finite [of h] by (simp add: order_ok_def hooked_ids_def)

lemma hook_detach_links:
  assumes "events_ok h" and "order_ok order"
  shows "active_links (hkWatch (hook_detach order cid h)) \<union> set (closedLinks (hkWatch (hook_detach order cid h))) =
    active_links (hkWatch h) \<union> set (closedLinks (hkWatch h))"
proof -
  have en: "enumerates (order (byID (cw (hkWatch h)))) (byID (cw (hkWatch h)))" by (rule order_okD [OF assms(2,1)])
  have m: "dom (metaByID (cw (hkWatch h))) = dom (byID (cw (hkWatch h)))"
    using assms(1) watch_okD(2) [of "hkWatch h"] by (simp add: events_ok_def hook_ok_def)
  show ?thesis
    unfolding hook_detach_def
    by (auto simp: active_links_def ran_def detach_maps(1) [OF en m] detachContainer_obs(3) set_closing [OF en] split: if_splits)
      blast+
qed

lemma hook_detach_events [inv_intros]:
  assumes "events_ok h" and "order_ok order"
  shows "events_ok (hook_detach order cid h)" and "self_id (hook_detach order cid h) = self_id h"
proof -
  let ?s = "hkWatch h" and ?o = "order (byID (cw (hkWatch h)))"
  have "watch_ok (detachContainer ?s ?o cid)"
    using assms order_okD [OF assms(2,1)] by (intro detachContainer_ok) (simp_all add: events_ok_def hook_ok_def)
  then have "hook_ok (hook_detach order cid h)"
    using assms(1) hook_detach_links [OF assms, of cid]
    by (simp add: events_ok_def hook_ok_def) (simp add: hook_detach_def)
  moreover have "hooked_ids (hook_detach order cid h) \<subseteq> hooked_ids h" "self_id (hook_detach order cid h) = self_id h"
    using detachContainer_cfg [of ?s ?o cid] by (simp_all add: hook_detach_def hooked_ids_def self_id_def)
  ultimately show "events_ok (hook_detach order cid h)"
    using assms(1) by (auto simp: events_ok_def is_self_eq)
qed (simp add: hook_detach_def self_id_def detachContainer_cfg)

lemma hook_detach_each_events [inv_intros]:
  "events_ok h \<Longrightarrow> order_ok order \<Longrightarrow> events_ok (hook_detach_each order cids h)"
  by (induction order cids h rule: hook_detach_each.induct) (auto intro: inv_intros)

section \<open>The handlers keep the invariant\<close>

lemma attachContainer_events [inv_intros]:
  "events_ok h \<Longrightarrow> \<not> is_self h cid \<Longrightarrow> events_ok (attachContainer ai cid h)"
  by (auto simp: attachContainer_def attach_error_events intro: inv_intros split: sum.split)

lemma scanRunning_events [inv_intros]: "events_ok h \<Longrightarrow> events_ok (scanRunning cs h)"
proof -
  have "events_ok h \<Longrightarrow> events_ok (scan_list cs h)" for cs h
    by (induction cs h rule: scan_list.induct) (auto intro: inv_intros)
  then show "events_ok h \<Longrightarrow> events_ok (scanRunning cs h)"
    by (simp add: scanRunning_def split: option.split)
qed

lemma handleDockerEvent_events [inv_intros]:
  "events_ok h \<Longrightarrow> order_ok order \<Longrightarrow> events_ok (handleDockerEvent order inspect ai ev h)"
  by (auto simp: handleDockerEvent_def Let_def intro: inv_intros split: option.split)

lemma docker_loop_events [inv_intros]:
  "events_ok h \<Longrightarrow> order_ok order \<Longrightarrow> events_ok (fst (docker_loop order is h))"
  by (induction order "is" h rule: docker_loop.induct) (auto simp: hook_detachAll_def intro: inv_intros)

lemma attachByContainerID_events [inv_intros]:
  assumes "events_ok h" and "order_ok order" and "\<not> is_self h cid"
  shows "events_ok (attachByContainerID order ri cid meta h)"
proof -
  have "k \<in> hooked_ids h" if "find (\<lambda>k. containerIDsMatch k cid) (order (byID (cw (hkWatch h)))) = Some k" for k
    using that order_okD [OF assms(2,1)] by (auto simp: find_Some_iff enumerates_def hooked_ids_def)
  then show ?thesis
    using assms set_meta_events(1) [OF assms(1)]
    by (auto simp: attachByContainerID_def Let_def attach_error_events hooked_ids_def intro: inv_intros split: option.split)
qed

lemma attachByContainerID_self: "hook_ok h \<Longrightarrow> self_id (attachByContainerID order ri cid meta h) = self_id h"
  by (auto simp: attachByContainerID_def Let_def hook_container_ids(2) set_meta_def self_id_def [symmetric]
      split: option.split) (simp_all add: self_id_def)

lemma detachPodContainers_events [inv_intros]:
  assumes "events_ok h" and "order_ok order"
  shows "events_ok (detachPodContainers order pod h)"
proof -
  have "events_ok h \<Longrightarrow> events_ok (detach_statuses order sts h)" for sts h
  proof (induction sts arbitrary: h)
    case (Cons st sts)
    then show ?case
      using hook_detach_events(1) [OF _ assms(2)] by (cases "splitContainerID (csContainerID st)") simp
  qed simp
  then show ?thesis
    using assms by (auto simp: detachPodContainers_def Let_def intro: inv_intros)
qed

lemma syncPod_events [inv_intros]:
  assumes "events_ok h" and "order_ok order"
  shows "events_ok (syncPod order ri ann pod h)"
proof -
  have "events_ok h \<Longrightarrow> events_ok (sync_statuses order ri pod sts h)" for sts h
  proof (induction sts arbitrary: h)
    case (Cons st sts)
    then show ?case
      using attachByContainerID_events [OF _ assms(2)]
      by (cases "splitContainerID (csContainerID st)") (simp add: Let_def)
  qed simp
  then show ?thesis
    using assms by (auto simp: syncPod_def intro: inv_intros)
qed

lemma scanRunningPods_events [inv_intros]:
  assumes "events_ok h" and "order_ok order"
  shows "events_ok (scanRunningPods order ann pods h)"
proof -
  have "events_ok h \<Longrightarrow> events_ok (scan_pods order ann ps h)" for ps h
    using assms(2) by (induction order ann ps h rule: scan_pods.induct) (auto intro: inv_intros)
  then show ?thesis using assms(1) by (simp add: scanRunningPods_def split: option.split)
qed

lemma watchPods_events [inv_intros]:
  "events_ok h \<Longrightarrow> order_ok order \<Longrightarrow> events_ok (fst (watchPods order ann is h))"
proof (induction "is" arbitrary: h)
  case (Cons i "is")
  then show ?case
    by (cases i) (simp_all add: syncPod_events detachPodContainers_events)
qed simp

section \<open>Shutdown\<close>

lemma hook_detach_removes:
  assumes "events_ok h" and "order_ok order"
  shows "hooked_ids (hook_detach order cid h) = {k \<in> hooked_ids h. \<not> same_container cid k}"
proof -
  have "dom (metaByID (cw (hkWatch h))) = dom (byID (cw (hkWatch h)))"
    using assms(1) watch_okD(2) [of "hkWatch h"] by (simp add: events_ok_def hook_ok_def)
  from detach_maps(1) [OF order_okD [OF assms(2,1)] this, of cid] show ?thesis
    by (auto simp: hooked_ids_def hook_detach_def split: if_splits)
qed

lemma hook_detach_each_spec:
  "events_ok h \<Longrightarrow> order_ok order \<Longrightarrow>
     hooked_ids (hook_detach_each order cids h) = {k \<in> hooked_ids h. \<not> (\<exists>cid \<in> set cids. same_container cid k)} \<and>
     active_links (hkWatch (hook_detach_each order cids h)) \<union> set (closedLinks (hkWatch (hook_detach_each order cids h))) =
       active_links (hkWatch h) \<union> set (closedLinks (hkWatch h))"
proof (induction order cids h rule: hook_detach_each.induct)
  case (2 order cid cids h)
  then show ?case
    using hook_detach_removes [OF 2(2,3), of cid] hook_detach_links [OF 2(2,3), of cid] hook_detach_events(1) [OF 2(2,3), of cid]
    by auto
qed auto

end
