(* ===== verification/Container_Props.thy ===== *)
theory Container_Props
  imports Container_Events "HOL-Library.List_Lexorder" "HOL-Library.Char_ord"
begin

text \<open>
  What the container handlers of \<^verbatim>\<open>main.go\<close>, \<^verbatim>\<open>k8s.go\<close>, \<^verbatim>\<open>go_tls.go\<close> and \<^verbatim>\<open>symbols.go\<close> guarantee: which
  containers are hooked, that no uprobe link is lost, what a detach and the shutdown remove, which
  container an event is attributed to, and where the Go uprobe is placed.
\<close>

section \<open>Helpers\<close>

lemma events_okD:
  assumes "events_ok h"
  shows "watch_ok (hkWatch h)" and "active_links (hkWatch h) \<union> set (closedLinks (hkWatch h)) = {..<hkNext h}"
    and "k \<in> dom (byID (cw (hkWatch h))) \<Longrightarrow> \<not> isSelfContainer (selfContainerID (cw (hkWatch h))) k"
    and "dom (metaByID (cw (hkWatch h))) = dom (byID (cw (hkWatch h)))"
  using assms watch_okD(2) [of "hkWatch h"]
  by (auto simp: events_ok_def hook_ok_def hooked_ids_def is_self_def)

lemma links_disjoint:
  assumes "watch_ok s"
  shows "active_links s \<inter> set (closedLinks s) = {}" and "distinct (closedLinks s)"
  using watch_okD(4,6) [OF assms] by (fastforce simp: active_links_def ran_def)+

definition started :: "string \<Rightarrow> labelPair list \<Rightarrow> hookState" where
  "started self pairs = \<lparr>hkWatch = watch_init self pairs, hkNext = 0\<rparr>"

lemma started_ok: "events_ok (started self pairs)"
  using watch_ok_init [of self pairs]
  by (simp add: events_ok_def hook_ok_def started_def hooked_ids_def active_links_def watch_init_def)

lemma runDockerMode_run:
  assumes "runDockerMode order cgroup hostname via_api label lst is (started [] []) = Some (h, r)"
  shows "\<exists>self pairs. parseLabelFilter label = Inr pairs \<and> docker_loop order is (scanRunning lst (started self pairs)) = (h, r)"
  using assms by (auto simp: runDockerMode_def Let_def started_def watch_init_def split: sum.splits if_splits)

lemma docker_reachable:
  assumes "order_ok order"
    and "runDockerMode order cgroup hostname via_api label lst is (started [] []) = Some (h, r)"
  shows "events_ok h"
proof -
  obtain self pairs where "docker_loop order is (scanRunning lst (started self pairs)) = (h, r)"
    using runDockerMode_run [OF assms(2)] by blast
  then have "h = fst (docker_loop order is (scanRunning lst (started self pairs)))" by (metis fst_conv)
  then show ?thesis using assms(1) by (auto intro!: inv_intros started_ok)
qed

lemma hook_detachAll_empty:
  assumes "events_ok h" and "order_ok order"
  shows "hooked_ids (hook_detachAll order h) = {}" and "events_ok (hook_detachAll order h)"
    and "active_links (hkWatch (hook_detachAll order h)) = {}"
    and "set (closedLinks (hkWatch (hook_detachAll order h))) = {..<hkNext h}"
proof -
  let ?ids = "order (byID (cw (hkWatch h)))"
  note sp = hook_detach_each_spec [OF assms, of ?ids]
  have "set ?ids = hooked_ids h"
    using order_okD [OF assms(2,1)] by (simp add: enumerates_def hooked_ids_def)
  then show e: "hooked_ids (hook_detachAll order h) = {}"
    using sp by (auto simp: hook_detachAll_def same_container_def)
  show "events_ok (hook_detachAll order h)"
    using hook_detach_each_events [OF assms] by (simp add: hook_detachAll_def)
  show a: "active_links (hkWatch (hook_detachAll order h)) = {}"
    using e by (simp add: active_links_def hooked_ids_def)
  show "set (closedLinks (hkWatch (hook_detachAll order h))) = {..<hkNext h}"
    using sp a events_okD(2) [OF assms(1)] by (simp add: hook_detachAll_def)
qed

lemma docker_loop_returned:
  "events_ok h \<Longrightarrow> order_ok order \<Longrightarrow> docker_loop order is h = (h', True) \<Longrightarrow>
     \<exists>h1. events_ok h1 \<and> h' = hook_detachAll order h1"
proof (induction order "is" h rule: docker_loop.induct)
  case (4 order inspect ai ev "is" h)
  then show ?case using handleDockerEvent_events [OF 4(2,3)] by simp
qed auto

text \<open>An order for every map over a finite set of strings, to have one.\<close>

definition sorted_order :: order where
  "sorted_order m = sorted_list_of_set (dom m)"

lemma sorted_order_ok: "order_ok sorted_order"
  by (simp add: order_ok_def enumerates_def sorted_order_def)

section \<open>Properties\<close>

text \<open>In Docker mode, whatever containers the scan finds and whatever events arrive, clawguard never
  hooks its own container, keeps metadata for exactly the hooked containers and shows their number in
  the gauge.\<close>

theorem docker_registry:
  assumes "order_ok order"
    and "runDockerMode order cgroup hostname via_api label lst is (started [] []) = Some (h, r)"
  shows "(\<forall>k \<in> dom (byID (cw (hkWatch h))). \<not> isSelfContainer (selfContainerID (cw (hkWatch h))) k) \<and>
    dom (metaByID (cw (hkWatch h))) = dom (byID (cw (hkWatch h))) \<and>
    attachedTargets (wmetrics (hkWatch h)) = card (dom (byID (cw (hkWatch h))))"
  using events_okD [OF docker_reachable [OF assms]] watch_okD(3) [of "hkWatch h"] by blast

theorem docker_registry_witness:
  "\<exists>h. runDockerMode sorted_order None None [] [] None [DockerDone] (started [] []) = Some (h, True) \<and>
     attachedTargets (wmetrics (hkWatch h)) = card (dom (byID (cw (hkWatch h))))"
proof -
  have "parseLabelFilter [] = Inr []"
    by (simp add: parseLabelFilter_def TrimSpace_id space_free_def)
  then obtain h where "runDockerMode sorted_order None None [] [] None [DockerDone] (started [] []) = Some (h, True)"
    by (simp add: runDockerMode_def Let_def)
  with docker_registry [OF sorted_order_ok this] show ?thesis by blast
qed

lemma docker_returned:
  assumes "order_ok order"
    and "runDockerMode order cgroup hostname via_api label lst is (started [] []) = Some (h, True)"
  shows "dom (byID (cw (hkWatch h))) = {} \<and> dom (metaByID (cw (hkWatch h))) = {} \<and> set (closedLinks (hkWatch h)) = {..<hkNext h} \<and>
    attachedTargets (wmetrics (hkWatch h)) = 0"
proof -
  have ok: "events_ok h" by (rule docker_reachable [OF assms])
  obtain self pairs where run: "docker_loop order is (scanRunning lst (started self pairs)) = (h, True)"
    using runDockerMode_run [OF assms(2)] by auto
  have "events_ok (scanRunning lst (started self pairs))" by (intro inv_intros started_ok)
  from docker_loop_returned [OF this assms(1) run] obtain h1 where h1: "events_ok h1" "h = hook_detachAll order h1" by blast
  note e = hook_detachAll_empty [OF h1(1) assms(1), folded h1(2)]
  have "dom (byID (cw (hkWatch h))) = {}" using e(1) by (simp add: hooked_ids_def)
  then show ?thesis
    using e(3) events_okD [OF ok] watch_okD(3) [OF events_okD(1) [OF ok]] by simp
qed

text \<open>C13: No uprobe link is lost: in Docker mode, after the scan and any events, every link that was ever created is either
  in the registry or closed, never both, and none is closed twice; when the mode returns, because the
  context has ended, the registry and its metadata are empty, every link is closed and the gauge is 0.\<close>

theorem docker_links_accounted:
  assumes "order_ok order"
    and "runDockerMode order cgroup hostname via_api label lst is (started [] []) = Some (h, r)"
  shows "active_links (hkWatch h) \<union> set (closedLinks (hkWatch h)) = {..<hkNext h} \<and>
    active_links (hkWatch h) \<inter> set (closedLinks (hkWatch h)) = {} \<and> distinct (closedLinks (hkWatch h)) \<and>
    (r \<longrightarrow> dom (byID (cw (hkWatch h))) = {} \<and> dom (metaByID (cw (hkWatch h))) = {} \<and>
       set (closedLinks (hkWatch h)) = {..<hkNext h} \<and> attachedTargets (wmetrics (hkWatch h)) = 0)"
proof -
  have ok: "events_ok h" by (rule docker_reachable [OF assms])
  have "dom (byID (cw (hkWatch h))) = {} \<and> dom (metaByID (cw (hkWatch h))) = {} \<and> set (closedLinks (hkWatch h)) = {..<hkNext h} \<and>
      attachedTargets (wmetrics (hkWatch h)) = 0" if r
    using docker_returned [OF assms(1)] assms(2) that by simp
  then show ?thesis using events_okD [OF ok] links_disjoint [of "hkWatch h"] by blast
qed

text \<open>The same holds in Kubernetes mode after the scan and any sequence of watch events.\<close>

theorem pods_registry:
  assumes "order_ok order"
    and "h = fst (watchPods order ann is (scanRunningPods order ann pods (started self [])))"
  shows "(\<forall>k \<in> dom (byID (cw (hkWatch h))). \<not> isSelfContainer (selfContainerID (cw (hkWatch h))) k) \<and>
    attachedTargets (wmetrics (hkWatch h)) = card (dom (byID (cw (hkWatch h)))) \<and>
    active_links (hkWatch h) \<union> set (closedLinks (hkWatch h)) = {..<hkNext h} \<and>
    active_links (hkWatch h) \<inter> set (closedLinks (hkWatch h)) = {} \<and> distinct (closedLinks (hkWatch h))"
proof -
  have ok: "events_ok h"
    unfolding assms(2) by (intro inv_intros started_ok assms(1))
  then show ?thesis
    using events_okD [OF ok] links_disjoint [of "hkWatch h"] watch_okD(3) [of "hkWatch h"] by blast
qed

theorem pods_registry_witness:
  "\<exists>h. h = fst (watchPods sorted_order \<lparr>annKey = ''k'', annVal = ''v''\<rparr> [PodChanClosed]
      (scanRunningPods sorted_order \<lparr>annKey = ''k'', annVal = ''v''\<rparr> None (started ''0123456789ab'' []))) \<and>
     distinct (closedLinks (hkWatch h))"
  using pods_registry [OF sorted_order_ok refl] by blast

text \<open>When the context ends, the Docker loop returns with an empty registry, and every link that was
  ever created has been closed, each exactly once.\<close>

theorem shutdown_closes_links:
  assumes "events_ok h" and "order_ok order"
  shows "\<exists>h'. docker_loop order (DockerDone # is) h = (h', True) \<and> dom (byID (cw (hkWatch h'))) = {} \<and>
    dom (metaByID (cw (hkWatch h'))) = {} \<and> set (closedLinks (hkWatch h')) = {..<hkNext h} \<and>
    distinct (closedLinks (hkWatch h')) \<and> attachedTargets (wmetrics (hkWatch h')) = 0"
proof -
  note e = hook_detachAll_empty [OF assms]
  have d: "dom (byID (cw (hkWatch (hook_detachAll order h)))) = {}"
    using e(1) by (simp add: hooked_ids_def)
  have "attachedTargets (wmetrics (hkWatch (hook_detachAll order h))) = card (dom (byID (cw (hkWatch (hook_detachAll order h)))))"
    by (rule watch_okD(3) [OF events_okD(1) [OF e(2)]])
  with d have "attachedTargets (wmetrics (hkWatch (hook_detachAll order h))) = 0" by simp
  then show ?thesis
    using e(4) d events_okD(4) [OF e(2)] links_disjoint(2) [OF events_okD(1) [OF e(2)]] by simp
qed

theorem shutdown_closes_links_witness:
  "\<exists>h'. docker_loop sorted_order (DockerDone # []) (started [] []) = (h', True) \<and>
     attachedTargets (wmetrics (hkWatch h')) = 0"
  using shutdown_closes_links [OF started_ok sorted_order_ok, of "[]" "[]" "[]"] by blast

lemma wait_pid_Inr:
  "wait_pid ctxDone inspect left i = Inr pid \<Longrightarrow>
     \<exists>j. i \<le> j \<and> j < i + left \<and> inspect j = Inspected True pid \<and> 0 < pid \<and> (\<forall>k. i \<le> k \<longrightarrow> k \<le> j \<longrightarrow> \<not> ctxDone k) \<and>
       (\<forall>k. i \<le> k \<longrightarrow> k < j \<longrightarrow> inspect k = InspectError \<or> (\<exists>q \<le> 0. inspect k = Inspected True q))"
proof (induction left arbitrary: i)
  case (Suc left)
  show ?case
  proof (cases "\<exists>q. inspect i = Inspected True q \<and> 0 < q")
    case True
    then have "inspect i = Inspected True pid \<and> 0 < pid \<and> \<not> ctxDone i"
      using Suc.prems by (auto split: if_splits)
    then show ?thesis by (intro exI [of _ i]) (auto simp: le_less)
  next
    case False
    have more: "wait_pid ctxDone inspect left (i + 1) = Inr pid \<and> \<not> ctxDone i \<and>
        (inspect i = InspectError \<or> (\<exists>q \<le> 0. inspect i = Inspected True q))"
      using Suc.prems False by (auto simp: not_less split: if_splits inspect_state.splits)
    from Suc.IH [of "i + 1"] more obtain j where j: "i + 1 \<le> j" "j < i + 1 + left" "inspect j = Inspected True pid" "0 < pid"
      "\<forall>k. i + 1 \<le> k \<longrightarrow> k \<le> j \<longrightarrow> \<not> ctxDone k"
      "\<forall>k. i + 1 \<le> k \<longrightarrow> k < j \<longrightarrow> inspect k = InspectError \<or> (\<exists>q \<le> 0. inspect k = Inspected True q)"
      by blast
    have "i \<le> k \<Longrightarrow> k = i \<or> i + 1 \<le> k" for k by linarith
    then show ?thesis using j more by (intro exI [of _ j]) auto
  qed
qed simp

text \<open>A process id that the wait for a container returns is positive and was reported for the running
  container within 50 attempts, after nothing but errors and missing pids, and before the context ended.\<close>

theorem wait_pid_sound:
  assumes "waitContainerPID ctxDone inspect = Inr pid"
  shows "0 < pid \<and> (\<exists>j < 50. inspect j = Inspected True pid \<and> (\<forall>k \<le> j. \<not> ctxDone k) \<and>
    (\<forall>k < j. inspect k = InspectError \<or> (\<exists>q \<le> 0. inspect k = Inspected True q)))"
  using wait_pid_Inr [of ctxDone inspect 50 0 pid] assms by (auto simp: waitContainerPID_def)

theorem wait_pid_sound_witness:
  "waitContainerPID (\<lambda>_. False) (\<lambda>i. if i < 2 then Inspected True 0 else Inspected True 42) = Inr 42 \<and> (0 :: int) < 42"
proof -
  have "waitContainerPID (\<lambda>_. False) (\<lambda>i. if i < 2 then Inspected True 0 else Inspected True 42) = Inr 42"
    by (simp add: waitContainerPID_def eval_nat_numeral)
  with wait_pid_sound [OF this] show ?thesis by blast
qed

text \<open>The configuration of the watch never changes while containers come and go.\<close>

definition same_config :: "hookState \<Rightarrow> hookState \<Rightarrow> bool" where
  "same_config h h' \<longleftrightarrow> self_id h' = self_id h \<and> labelPairs (cw (hkWatch h')) = labelPairs (cw (hkWatch h))"

lemma attachContainer_ids:
  assumes "hook_ok h"
  shows "hooked_ids (attachContainer ai cid h) \<subseteq> insert cid (hooked_ids h)"
    and "labelPairs (cw (hkWatch (attachContainer ai cid h))) = labelPairs (cw (hkWatch h))"
  using hook_container_ids [OF assms, of "aiHook ai" cid _ no_meta]
  by (auto simp: attachContainer_def hooked_ids_def split: sum.split)

text \<open>The containers of a listing that the label filter lets through.\<close>

definition scan_wanted :: "labelPair list \<Rightarrow> (dockerContainer \<times> attachInput) list \<Rightarrow> string set" where
  "scan_wanted pairs cs = (\<lambda>x. dcID (fst x)) `
     {x \<in> set cs. dcState (fst x) = ''running'' \<and> labelsMatch pairs (dcLabels (fst x))}"

lemma scan_wanted_Cons:
  "scan_wanted pairs (x # cs) = (if dcState (fst x) = ''running'' \<and> labelsMatch pairs (dcLabels (fst x))
     then insert (dcID (fst x)) (scan_wanted pairs cs) else scan_wanted pairs cs)"
  by (auto simp: scan_wanted_def)

lemma scan_list_ids:
  assumes "events_ok h"
  shows "hooked_ids (scan_list cs h) \<subseteq> hooked_ids h \<union> scan_wanted (labelPairs (cw (hkWatch h))) cs
    \<and> labelPairs (cw (hkWatch (scan_list cs h))) = labelPairs (cw (hkWatch h))"
  using assms
proof (induction cs arbitrary: h)
  case (Cons x cs)
  obtain c ai where x: "x = (c, ai)" by fastforce
  show ?case
  proof (cases "is_self h (dcID c) \<or> dcState c \<noteq> ''running'' \<or> \<not> wanted_labels h (dcLabels c)")
    case True
    then have "scan_list (x # cs) h = scan_list cs h" by (auto simp: x)
    then show ?thesis using Cons.IH [OF Cons.prems] unfolding scan_wanted_Cons by auto
  next
    case False
    then have e: "scan_list (x # cs) h = scan_list cs (attachContainer ai (dcID c) h)" by (simp add: x)
    have ok: "events_ok (attachContainer ai (dcID c) h)"
      using False by (intro attachContainer_events [OF Cons.prems]) simp
    have "hook_ok h" using Cons.prems by (simp add: events_ok_def)
    note a = attachContainer_ids [OF this, of ai "dcID c"]
    have "labelsMatch (labelPairs (cw (hkWatch h))) (dcLabels c)" "dcState c = ''running''"
      using False by (simp_all add: wanted_labels_def)
    then have w: "scan_wanted (labelPairs (cw (hkWatch h))) (x # cs) =
        insert (dcID c) (scan_wanted (labelPairs (cw (hkWatch h))) cs)"
      by (simp add: scan_wanted_Cons x)
    show ?thesis
      unfolding e w using Cons.IH [OF ok, unfolded a(2)] a(1) by blast
  qed
qed simp

lemma hook_detach_ids:
  "hooked_ids (hook_detach order cid h) \<subseteq> hooked_ids h"
  "labelPairs (cw (hkWatch (hook_detach order cid h))) = labelPairs (cw (hkWatch h))"
  using detachContainer_cfg [of "hkWatch h"] by (simp_all add: hook_detach_def hooked_ids_def)

lemma hook_detach_each_ids:
  "hooked_ids (hook_detach_each order cids h) \<subseteq> hooked_ids h"
proof (induction order cids h rule: hook_detach_each.induct)
  case (2 order cid cids h)
  then show ?case using hook_detach_ids(1) [of order cid h] unfolding hook_detach_each.simps by (rule subset_trans)
qed simp

lemma handleDockerEvent_ids:
  assumes "events_ok h"
  shows "hooked_ids (handleDockerEvent order inspect ai ev h) \<subseteq> hooked_ids h \<union>
      (if deType ev = ''container'' \<and> deAction ev = ''start'' \<and>
          (\<exists>labels. inspect = Some labels \<and> labelsMatch (labelPairs (cw (hkWatch h))) labels) then {deActorID ev} else {})"
    and "labelPairs (cw (hkWatch (handleDockerEvent order inspect ai ev h))) = labelPairs (cw (hkWatch h))"
proof -
  have ok: "hook_ok h" using assms by (simp add: events_ok_def)
  show "hooked_ids (handleDockerEvent order inspect ai ev h) \<subseteq> hooked_ids h \<union>
      (if deType ev = ''container'' \<and> deAction ev = ''start'' \<and>
          (\<exists>labels. inspect = Some labels \<and> labelsMatch (labelPairs (cw (hkWatch h))) labels) then {deActorID ev} else {})"
    using attachContainer_ids(1) [OF ok, of ai "deActorID ev"] hook_detach_ids(1) [of order "deActorID ev" h]
      subset_insertI [of "hooked_ids h" "deActorID ev"] subset_insertI [of "hooked_ids h" "[]"]
    by (cases inspect) (simp_all add: handleDockerEvent_def Let_def wanted_labels_def)
  show "labelPairs (cw (hkWatch (handleDockerEvent order inspect ai ev h))) = labelPairs (cw (hkWatch h))"
    using attachContainer_ids(2) [OF ok, of ai "deActorID ev"] hook_detach_ids(2) [of order "deActorID ev" h]
    by (cases inspect) (simp_all add: handleDockerEvent_def Let_def)
qed

text \<open>The containers whose start events the label filter lets through.\<close>

definition event_wanted :: "labelPair list \<Rightarrow> docker_input list \<Rightarrow> string set" where
  "event_wanted pairs is = {cid. \<exists>labels ai ev. DockerEvent (Some labels) ai ev \<in> set is \<and> deActorID ev = cid \<and>
     deType ev = ''container'' \<and> deAction ev = ''start'' \<and> labelsMatch pairs labels}"

lemma event_wanted_Cons: "event_wanted pairs is \<subseteq> event_wanted pairs (i # is)"
  by (auto simp: event_wanted_def)

lemma event_wanted_hd:
  "deType ev = ''container'' \<Longrightarrow> deAction ev = ''start'' \<Longrightarrow> labelsMatch pairs labels \<Longrightarrow>
     deActorID ev \<in> event_wanted pairs (DockerEvent (Some labels) ai ev # is)"
  by (auto simp: event_wanted_def)

lemma docker_loop_ids:
  assumes "events_ok h" and "order_ok order"
  shows "hooked_ids (fst (docker_loop order is h)) \<subseteq> hooked_ids h \<union> event_wanted (labelPairs (cw (hkWatch h))) is"
  using assms(1)
proof (induction "is" arbitrary: h)
  case (Cons i "is")
  show ?case
  proof (cases i)
    case DockerDone
    then show ?thesis
      using hook_detachAll_empty(1) [OF Cons.prems assms(2)] by simp
  next
    case DockerError
    then show ?thesis
      using Cons.IH [OF Cons.prems] event_wanted_Cons by fastforce
  next
    case (DockerEvent inspect ai ev)
    let ?h = "handleDockerEvent order inspect ai ev h" and ?p = "labelPairs (cw (hkWatch h))"
    note e = handleDockerEvent_ids [OF Cons.prems, of order inspect ai ev]
    have "hooked_ids ?h \<subseteq> hooked_ids h \<union> event_wanted ?p (i # is)"
      using e(1) event_wanted_hd [of ev ?p] unfolding DockerEvent by (fastforce split: if_splits)
    moreover have "hooked_ids (fst (docker_loop order is ?h)) \<subseteq> hooked_ids ?h \<union> event_wanted ?p is"
      using Cons.IH [OF handleDockerEvent_events [OF Cons.prems assms(2), of inspect ai ev]] unfolding e(2) .
    ultimately show ?thesis
      using event_wanted_Cons [of ?p "is" i] unfolding DockerEvent docker_loop.simps by blast
  qed
qed simp

text \<open>C14: Docker mode hooks what the label filter selects and nothing else: every container in the registry
  was listed as running with matching labels, or started with matching labels, since the program began.\<close>

theorem docker_hooks_wanted:
  assumes "order_ok order"
    and "runDockerMode order cgroup hostname via_api label (Some cs) is (started [] []) = Some (h, r)"
  shows "\<exists>pairs. parseLabelFilter label = Inr pairs \<and>
    dom (byID (cw (hkWatch h))) \<subseteq> scan_wanted pairs cs \<union> event_wanted pairs is"
proof -
  obtain self pairs where p: "parseLabelFilter label = Inr pairs"
    and run: "docker_loop order is (scan_list cs (started self pairs)) = (h, r)"
    using runDockerMode_run [OF assms(2)] by (auto simp: scanRunning_def)
  have lp: "labelPairs (cw (hkWatch (started self pairs))) = pairs" "hooked_ids (started self pairs) = {}"
    by (simp_all add: started_def watch_init_def hooked_ids_def)
  note sc = scan_list_ids [OF started_ok, of cs self pairs, unfolded lp]
  have "events_ok (scan_list cs (started self pairs))"
    using scanRunning_events [OF started_ok, of "Some cs" self pairs] by (simp add: scanRunning_def)
  from docker_loop_ids [OF this assms(1), of "is"] sc
  have "hooked_ids h \<subseteq> scan_wanted pairs cs \<union> event_wanted pairs is"
    by (simp add: run) blast
  with p show ?thesis by (auto simp: hooked_ids_def)
qed

text \<open>One running container whose libssl is found and hooked at the first attempt.\<close>

definition example_env :: hookEnv where
  "example_env = \<lparr>heRuntimes = ''openssl'', heCtxDone = (\<lambda>_. False), heLibSSL = (\<lambda>_ _. Some ''libssl.so.3''),
     heNode = (\<lambda>_. None), heOpen = (\<lambda>_. True), heUprobe = (\<lambda>_ _. True), heGoProbe = False, heGoExes = (\<lambda>_. []),
     heStat = (\<lambda>_. False), heIsGo = (\<lambda>_. False), heResolve = (\<lambda>_. None), heGoUprobe = (\<lambda>_ _. False)\<rparr>"

definition example_container :: "dockerContainer \<times> attachInput" where
  "example_container = (\<lparr>dcID = ''c1'', dcState = ''running'', dcLabels = None\<rparr>,
     \<lparr>aiHook = example_env, aiWaitDone = (\<lambda>_. False), aiInspect = (\<lambda>_. Inspected True 42)\<rparr>)"

lemma example_runtimes: "parseRuntimes ''openssl'' = (True, False)"
proof -
  have low: "ToLower ''openssl'' = ''openssl''" by code_simp
  have "Split ''openssl'' (CHR '','') = [''openssl'']" by code_simp
  then show ?thesis
    by (simp add: parseRuntimes_def low TrimSpace_id space_free_def space_bytes_def Let_def)
qed

lemma example_not_self: "\<not> isSelfContainer self ''c1''"
proof -
  have "TrimPrefix (ToLower ''c1'') ''sha256:'' = ''c1''" by code_simp
  then show ?thesis by (simp add: isSelfContainer_def)
qed

lemma example_scan:
  "byID (cw (hkWatch (scan_list [example_container] (started self [])))) = [''c1'' \<mapsto> \<lparr>links = [0, 1], containerID = ''c1''\<rparr>]"
  by (simp add: example_container_def is_self_def example_not_self started_def watch_init_def wanted_labels_def
      labelsMatch_def attachContainer_def waitContainerPID_def eval_nat_numeral hook_container_def example_env_def
      example_runtimes attachOpenSSL_def attach_pair_def attachUprobes_def registerAttach_def Let_def)

lemma example_docker_run:
  "runDockerMode sorted_order None None [] [] (Some [example_container]) is (started [] []) =
     Some (docker_loop sorted_order is (scan_list [example_container] (started [] [])))"
proof -
  have p: "parseLabelFilter [] = Inr []" by (simp add: parseLabelFilter_def TrimSpace_id space_free_def)
  have d: "detectSelfContainerID None None = []"
    by (simp add: detectSelfContainerID_def dockerIDFromCgroup_def dockerIDFromHostname_def)
  have "(started [] [])\<lparr>hkWatch := (hkWatch (started [] []))\<lparr>cw := (cw (hkWatch (started [] [])))\<lparr>selfContainerID := []\<rparr>\<rparr>\<rparr> = started [] []"
    "(started [] [])\<lparr>hkWatch := (hkWatch (started [] []))\<lparr>cw := (cw (hkWatch (started [] [])))\<lparr>labelPairs := []\<rparr>\<rparr>\<rparr> = started [] []"
    by (simp_all add: started_def watch_init_def)
  then show ?thesis unfolding runDockerMode_def Let_def d p by (simp only: if_P scanRunning_def option.case sum.case)
qed

theorem docker_links_accounted_witness:
  "\<exists>h h'. runDockerMode sorted_order None None [] [] (Some [example_container]) [] (started [] []) = Some (h, False) \<and>
     active_links (hkWatch h) = {0, 1} \<and> set (closedLinks (hkWatch h)) \<subseteq> {..<hkNext h} - {0, 1} \<and>
     runDockerMode sorted_order None None [] [] (Some [example_container]) [DockerDone] (started [] []) = Some (h', True) \<and>
     set (closedLinks (hkWatch h')) = {..<hkNext h'}"
proof -
  let ?h = "scan_list [example_container] (started [] [])"
  have r: "runDockerMode sorted_order None None [] [] (Some [example_container]) [] (started [] []) = Some (?h, False)"
    "runDockerMode sorted_order None None [] [] (Some [example_container]) [DockerDone] (started [] []) = Some (hook_detachAll sorted_order ?h, True)"
    by (simp_all only: example_docker_run docker_loop.simps)
  have "active_links (hkWatch ?h) = {0, 1}" using example_scan by (simp add: active_links_def)
  then have "active_links (hkWatch ?h) = {0, 1} \<and> set (closedLinks (hkWatch ?h)) \<subseteq> {..<hkNext ?h} - {0, 1}"
    using docker_links_accounted [OF sorted_order_ok r(1)] by auto
  moreover have "set (closedLinks (hkWatch (hook_detachAll sorted_order ?h))) = {..<hkNext (hook_detachAll sorted_order ?h)}"
    using docker_links_accounted [OF sorted_order_ok r(2)] by simp
  ultimately show ?thesis using r by (intro exI [of _ ?h] exI [of _ "hook_detachAll sorted_order ?h"]) simp
qed

theorem docker_hooks_wanted_witness:
  "\<exists>h. runDockerMode sorted_order None None [] [] (Some [example_container]) [] (started [] []) = Some (h, False) \<and>
     dom (byID (cw (hkWatch h))) = {''c1''} \<and> {''c1''} \<subseteq> scan_wanted [] [example_container]"
proof -
  have e: "parseLabelFilter [] = Inr []"
    by (simp add: parseLabelFilter_def TrimSpace_id space_free_def)
  have r: "runDockerMode sorted_order None None [] [] (Some [example_container]) [] (started [] []) =
      Some (scan_list [example_container] (started [] []), False)"
    by (simp only: example_docker_run docker_loop.simps)
  have d: "dom (byID (cw (hkWatch (scan_list [example_container] (started [] []))))) = {''c1''}"
    by (simp add: example_scan)
  have "event_wanted pairs [] = {}" for pairs by (simp add: event_wanted_def)
  with docker_hooks_wanted [OF sorted_order_ok r] e d have "{''c1''} \<subseteq> scan_wanted [] [example_container]" by simp
  with r d show ?thesis by blast
qed

definition status_ids :: "pod \<Rightarrow> string list" where
  "status_ids pod = filter (\<lambda>c. c \<noteq> []) (map (\<lambda>st. snd (splitContainerID (csContainerID st))) (pdStatuses pod))"

lemma detach_statuses_eq:
  "detach_statuses order sts h =
     hook_detach_each order (filter (\<lambda>c. c \<noteq> []) (map (\<lambda>st. snd (splitContainerID (csContainerID st))) sts)) h"
  by (induction sts arbitrary: h) (simp_all add: Let_def split_beta)

lemma hook_detach_meta:
  assumes "events_ok h" and "order_ok order"
  shows "metaByID (cw (hkWatch (hook_detach order cid h))) k = Some m \<Longrightarrow> metaByID (cw (hkWatch h)) k = Some m"
  using detach_maps(2) [OF order_okD [OF assms(2,1)] events_okD(4) [OF assms(1)], of cid]
  by (simp add: hook_detach_def split: if_splits)

lemma hook_detach_each_meta:
  "events_ok h \<Longrightarrow> order_ok order \<Longrightarrow>
     metaByID (cw (hkWatch (hook_detach_each order cids h))) k = Some m \<Longrightarrow> metaByID (cw (hkWatch h)) k = Some m"
proof (induction order cids h rule: hook_detach_each.induct)
  case (2 order cid cids h)
  from "2.IH" [OF hook_detach_events(1) [OF "2.prems"(1,2)] "2.prems"(2)] "2.prems"(3)
  show ?case using hook_detach_meta [OF "2.prems"(1,2), of cid] by simp
qed simp

text \<open>When a pod goes away, no container of its status list and no container whose metadata names the
  pod stays hooked, no other container is added, and every link of theirs has been closed.\<close>

theorem pod_gone_detached:
  assumes "events_ok h" and "order_ok order" and "h' = detachPodContainers order pod h"
  shows "(\<forall>k \<in> dom (byID (cw (hkWatch h'))). k \<in> dom (byID (cw (hkWatch h))) \<and>
      (\<forall>cid \<in> set (status_ids pod). \<not> containerIDsMatch k cid) \<and>
      (\<forall>m. metaByID (cw (hkWatch h')) k = Some m \<longrightarrow> \<not> (podName m = pdName pod \<and> podNamespace m = pdNamespace pod))) \<and>
    active_links (hkWatch h') \<union> set (closedLinks (hkWatch h')) = {..<hkNext h}"
proof -
  define h1 where "h1 = hook_detach_each order (status_ids pod) h"
  define ids where "ids = filter (of_pod pod h1) (order (byID (cw (hkWatch h1))))"
  have h': "h' = hook_detach_each order ids h1"
    using assms(3) by (simp add: detachPodContainers_def detach_statuses_eq status_ids_def h1_def ids_def Let_def)
  have ok1: "events_ok h1" unfolding h1_def by (rule hook_detach_each_events [OF assms(1,2)])
  note sp1 = hook_detach_each_spec [OF assms(1,2), of "status_ids pod", folded h1_def]
  note sp2 = hook_detach_each_spec [OF ok1 assms(2), of ids, folded h']
  have ord: "set (order (byID (cw (hkWatch h1)))) = dom (byID (cw (hkWatch h1)))"
    using order_okD [OF assms(2) ok1] by (simp add: enumerates_def)
  have "\<not> (podName m = pdName pod \<and> podNamespace m = pdNamespace pod)"
    if k: "k \<in> hooked_ids h'" and m: "metaByID (cw (hkWatch h')) k = Some m" for k m
  proof
    assume eq: "podName m = pdName pod \<and> podNamespace m = pdNamespace pod"
    have "metaByID (cw (hkWatch h1)) k = Some m"
      using hook_detach_each_meta [OF ok1 assms(2), of ids k m] m by (simp add: h')
    then have "of_pod pod h1 k" using eq by (simp add: of_pod_def)
    moreover have "k \<in> dom (byID (cw (hkWatch h1)))" using sp2 k by (auto simp: hooked_ids_def)
    ultimately have "k \<in> set ids" using ord by (simp add: ids_def)
    then show False using sp2 k by (auto simp: same_container_def)
  qed
  moreover have "k \<in> hooked_ids h \<and> (\<forall>cid \<in> set (status_ids pod). \<not> containerIDsMatch k cid)" if "k \<in> hooked_ids h'" for k
    using that sp1 sp2 by (auto simp: same_container_def)
  ultimately show ?thesis
    using sp1 sp2 events_okD(2) [OF assms(1)] unfolding hooked_ids_def by blast
qed

definition example_pod :: pod where
  "example_pod = \<lparr>pdName = ''p'', pdNamespace = ''n'', pdDeleting = True, pdAnnotations = None, pdPhase = ''Running'',
     pdStatuses = []\<rparr>"

theorem pod_gone_detached_witness:
  "\<exists>h'. h' = detachPodContainers sorted_order example_pod (started [] []) \<and> active_links (hkWatch h') \<union> set (closedLinks (hkWatch h')) = {}"
  using pod_gone_detached [OF started_ok sorted_order_ok refl, of example_pod "[]" "[]"] by (simp add: started_def)

section \<open>Attribution\<close>

lemma find_in: "(\<exists>x \<in> set xs. P x) \<Longrightarrow> \<exists>x. find P xs = Some x \<and> x \<in> set xs \<and> P x"
  by (induction xs) auto

lemma lookup_mentioned:
  assumes "enumerates metaOrder (metaByID w)" and "dom (metaByID w) = dom (byID w)"
    and "k \<in> dom (byID w)" and "cgroup_mentions (ToLower cg) k"
  shows "\<exists>cid m. lookupTargetByPID w metaOrder idOrder (Some cg) = (cid, m) \<and> metaByID w cid = Some m \<and>
    cgroup_mentions (ToLower cg) cid"
proof -
  have "\<exists>x \<in> set metaOrder. cgroup_mentions (ToLower cg) x"
    using assms by (auto simp: enumerates_def)
  then obtain x where "find (cgroup_mentions (ToLower cg)) metaOrder = Some x" "x \<in> set metaOrder" "cgroup_mentions (ToLower cg) x"
    using find_in by metis
  then show ?thesis
    using assms(1) by (auto simp: lookupTargetByPID_def Let_def enumerates_def)
qed

lemma lookup_unmentioned:
  assumes "enumerates metaOrder (metaByID w)" and "dom (metaByID w) = dom (byID w)" and "enumerates idOrder (byID w)"
    and "\<And>cg k. cgroup = Some cg \<Longrightarrow> k \<in> dom (byID w) \<Longrightarrow> \<not> cgroup_mentions (ToLower cg) k"
  shows "lookupTargetByPID w metaOrder idOrder cgroup =
    (case metaOrder of [] \<Rightarrow> (''unknown'', no_meta) | k # _ \<Rightarrow> (k, the (metaByID w k)))"
proof -
  have none: "find (cgroup_mentions (ToLower cg)) xs = None" if "cgroup = Some cg" "set xs = dom (byID w)" for cg xs
    using assms(4) [OF that(1)] that(2) by (simp add: find_None_iff)
  have sets: "set metaOrder = dom (byID w)" "set idOrder = dom (byID w)"
    using assms(1-3) by (simp_all add: enumerates_def)
  have "metaOrder = [] \<Longrightarrow> idOrder = []" using sets by simp
  moreover have "metaOrder = k # ks \<Longrightarrow> \<exists>m. metaByID w k = Some m" for k ks
    using sets(1) assms(2) by auto
  ultimately show ?thesis
    using none [OF _ sets(1)] none [OF _ sets(2)]
    by (cases cgroup; cases metaOrder) (auto simp: lookupTargetByPID_def Let_def)
qed

text \<open>C29: An event is attributed to a registered container with that container's metadata, or to
  \<^verbatim>\<open>unknown\<close> if there is none; and when the cgroup of its process names a registered container, it is
  attributed to one that the cgroup names.\<close>

theorem event_attribution:
  assumes "enumerates metaOrder (metaByID w)" and "enumerates idOrder (byID w)" and "dom (metaByID w) = dom (byID w)"
    and "lookupTargetByPID w metaOrder idOrder cgroup = (cid, m)"
  shows "(if dom (byID w) = {} then cid = ''unknown'' \<and> m = no_meta else metaByID w cid = Some m) \<and>
    (\<forall>cg. cgroup = Some cg \<and> (\<exists>k \<in> dom (byID w). cgroup_mentions (ToLower cg) k) \<longrightarrow> cgroup_mentions (ToLower cg) cid)"
proof (cases "\<exists>cg k. cgroup = Some cg \<and> k \<in> dom (byID w) \<and> cgroup_mentions (ToLower cg) k")
  case True
  then obtain cg k where k: "cgroup = Some cg" "k \<in> dom (byID w)" "cgroup_mentions (ToLower cg) k" by blast
  from lookup_mentioned [OF assms(1,3) k(2,3), of idOrder] assms(4) k show ?thesis by auto
next
  case False
  then have l: "lookupTargetByPID w metaOrder idOrder cgroup =
      (case metaOrder of [] \<Rightarrow> (''unknown'', no_meta) | k # _ \<Rightarrow> (k, the (metaByID w k)))"
    by (intro lookup_unmentioned [OF assms(1,3,2)]) blast
  have "set metaOrder = dom (byID w)" using assms(1,3) by (simp add: enumerates_def)
  then have "if dom (byID w) = {} then cid = ''unknown'' \<and> m = no_meta else metaByID w cid = Some m"
  proof (cases metaOrder)
    case (Cons k ks)
    then have "k \<in> dom (metaByID w)" using \<open>set metaOrder = dom (byID w)\<close> assms(3) by auto
    then obtain x where "metaByID w k = Some x" by blast
    moreover have "dom (byID w) \<noteq> {}" using \<open>k \<in> dom (metaByID w)\<close> assms(3) by blast
    ultimately show ?thesis using l assms(4) Cons by simp
  qed (use l assms(4) \<open>set metaOrder = dom (byID w)\<close> in auto)
  with False show ?thesis by blast
qed

text \<open>Two registered containers; the second one's id is in the cgroup.\<close>

definition two_containers :: containerWatch where
  "two_containers = \<lparr>byID = [''aaaaaaaaaaaa'' \<mapsto> \<lparr>links = [0], containerID = ''aaaaaaaaaaaa''\<rparr>,
       ''bbbbbbbbbbbb'' \<mapsto> \<lparr>links = [1], containerID = ''bbbbbbbbbbbb''\<rparr>],
     metaByID = [''aaaaaaaaaaaa'' \<mapsto> no_meta, ''bbbbbbbbbbbb'' \<mapsto> no_meta\<lparr>podName := ''b''\<rparr>],
     selfContainerID = [], labelPairs = []\<rparr>"

definition two_ids :: "string list" where
  "two_ids = [''aaaaaaaaaaaa'', ''bbbbbbbbbbbb'']"

lemma two_containers_ok:
  "enumerates two_ids (metaByID two_containers)" "enumerates two_ids (byID two_containers)"
  "dom (metaByID two_containers) = dom (byID two_containers)"
  by (auto simp: two_containers_def two_ids_def enumerates_def)

lemma two_mentions:
  "cgroup_mentions (ToLower ''/docker/bbbbbbbbbbbb'') ''bbbbbbbbbbbb''" "\<not> cgroup_mentions (ToLower ''/docker/bbbbbbbbbbbb'') ''aaaaaaaaaaaa''"
  by code_simp+

theorem event_attribution_witness:
  "\<exists>m. lookupTargetByPID two_containers two_ids two_ids (Some ''/docker/bbbbbbbbbbbb'') = (''bbbbbbbbbbbb'', m) \<and> podName m = ''b''"
proof -
  obtain cid m where l: "lookupTargetByPID two_containers two_ids two_ids (Some ''/docker/bbbbbbbbbbbb'') = (cid, m)" by fastforce
  note e = event_attribution [OF two_containers_ok l]
  have d: "dom (byID two_containers) = {''aaaaaaaaaaaa'', ''bbbbbbbbbbbb''}" by (auto simp: two_containers_def)
  have "\<exists>k \<in> dom (byID two_containers). cgroup_mentions (ToLower ''/docker/bbbbbbbbbbbb'') k"
    unfolding d using two_mentions(1) by (intro bexI [of _ "''bbbbbbbbbbbb''"]) simp_all
  then have men: "cgroup_mentions (ToLower ''/docker/bbbbbbbbbbbb'') cid" using conjunct2 [OF e] by blast
  have "dom (byID two_containers) \<noteq> {}" unfolding d by simp
  then have m: "metaByID two_containers cid = Some m" using conjunct1 [OF e] by (simp only: if_False)
  then have "cid \<in> dom (byID two_containers)" unfolding two_containers_ok(3) [symmetric] by (rule domI)
  then have c: "cid = ''bbbbbbbbbbbb''" unfolding d using men two_mentions(2) by blast
  have "metaByID two_containers ''bbbbbbbbbbbb'' = Some (no_meta\<lparr>podName := ''b''\<rparr>)" by (simp add: two_containers_def)
  then have "podName m = ''b''" using m unfolding c by simp
  then show ?thesis using l unfolding c by blast
qed

section \<open>Go binaries\<close>

text \<open>C31: The offset for the Go uprobe is that of a write function: a symbol of the file that is one of the
  two candidates (or a mangled name of \<^verbatim>\<open>Write\<close>) has an address in a loaded executable segment, and the
  offset is that address moved from the segment's address to its place in the file.\<close>

theorem go_probe_offset:
  assumes "lookupGoTLSWrite (Some f) = Some (off, name)"
  shows "(name \<in> set goTLSWriteCandidates \<or> mangled_write name) \<and>
    (\<exists>sym \<in> set (efSyms f @ efDyn f) \<union> (case efFuncs f of None \<Rightarrow> {} | Some fns \<Rightarrow> set fns). syName sym = name \<and>
      (\<exists>pg \<in> set (efProgs f). pgLoad pg \<and> pgExec pg \<and> in_segment (syValue sym) pg \<and>
        off = syValue sym - pgVaddr pg + pgOff pg))"
proof (cases "lookup_syms f goTLSWriteCandidates")
  case (Some r)
  then have "lookup_syms f goTLSWriteCandidates = Some (off, name)"
    using assms by (simp add: lookupGoTLSWrite_def)
  from lookup_syms_Some [OF this] obtain sym where "name \<in> set goTLSWriteCandidates"
    "sym \<in> set (efSyms f @ efDyn f)" "syName sym = name" "symFileOffset f (syValue sym) = Some off" by blast
  then show ?thesis using prog_offset_Some [of "efProgs f" "syValue sym" off] unfolding symFileOffset_def by blast
next
  case None
  then obtain fns where fns: "efFuncs f = Some fns" "lookup_funcs f fns goTLSWriteCandidates = Some (off, name)"
    using assms by (auto simp: lookupGoTLSWrite_def lookupViaGosym_def split: option.splits)
  from lookup_funcs_Some [OF fns(2)] obtain sym where "name \<in> set goTLSWriteCandidates \<or> mangled_write name"
    "sym \<in> set fns" "syName sym = name" "symFileOffset f (syValue sym) = Some off" by blast
  then show ?thesis
    using prog_offset_Some [of "efProgs f" "syValue sym" off] fns(1) unfolding symFileOffset_def by fastforce
qed

definition example_elf :: elfFile where
  "example_elf = \<lparr>efProgs = [\<lparr>pgLoad = True, pgExec = True, pgVaddr = 4194304, pgMemsz = 65536, pgOff = 4096\<rparr>],
     efSyms = [\<lparr>syName = ''crypto/tls.(*Conn).Write'', syValue = 4194560\<rparr>], efDyn = [], efFuncs = None\<rparr>"

lemma example_elf_lookup: "lookupGoTLSWrite (Some example_elf) = Some (4352, ''crypto/tls.(*Conn).Write'')"
  by (simp add: lookupGoTLSWrite_def goTLSWriteCandidates_def example_elf_def symFileOffset_def in_segment_def)

theorem go_probe_offset_witness:
  "\<exists>sym \<in> set (efSyms example_elf). 4352 = syValue sym - 4194304 + 4096"
  using go_probe_offset [OF example_elf_lookup] by (auto simp: example_elf_def)

text \<open>The symbol cache is transparent: while a path keeps its modification time and size, later lookups
  give the offset (or the failure) of the first one without opening the file again; when they change,
  the file is looked up anew.\<close>

theorem symbol_cache_transparent:
  assumes "stat path = Some (mtime, sz)" and "cache path = None"
    and "resolveGoTLSWriteOffset stat openElf path cache = (r, cache1)"
  shows "map_option fst r = map_option fst (lookupGoTLSWrite (openElf path)) \<and>
    (\<exists>r2. resolveGoTLSWriteOffset stat reopen path cache1 = (r2, cache1) \<and> map_option fst r2 = map_option fst r) \<and>
    (restat path = Some (mtime', sz') \<and> (mtime', sz') \<noteq> (mtime, sz) \<longrightarrow>
      fst (resolveGoTLSWriteOffset restat reopen path cache1) = lookupGoTLSWrite (reopen path)) \<and>
    (\<forall>q. q \<noteq> path \<longrightarrow> cache1 q = cache q)"
proof -
  have r: "r = lookupGoTLSWrite (openElf path)"
    and c: "cache1 = cache(path \<mapsto> \<lparr>scModTime = mtime, scSize = sz,
        scOffset = (case r of None \<Rightarrow> 0 | Some (off, _) \<Rightarrow> off), scOk = (r \<noteq> None)\<rparr>)"
    using assms by (auto simp: resolveGoTLSWriteOffset_def Let_def)
  have "\<exists>r2. resolveGoTLSWriteOffset stat reopen path cache1 = (r2, cache1) \<and> map_option fst r2 = map_option fst r"
    using assms(1) by (cases r) (auto simp: resolveGoTLSWriteOffset_def c)
  moreover have "fst (resolveGoTLSWriteOffset restat reopen path cache1) = lookupGoTLSWrite (reopen path)"
    if "restat path = Some (mtime', sz')" "(mtime', sz') \<noteq> (mtime, sz)"
    using that by (auto simp: resolveGoTLSWriteOffset_def c Let_def)
  ultimately show ?thesis using r by (simp add: c)
qed

theorem symbol_cache_transparent_witness:
  "\<exists>c1 r2. resolveGoTLSWriteOffset (\<lambda>_. Some (1, 2)) (\<lambda>_. Some example_elf) ''/bin/x'' Map.empty =
      (Some (4352, ''crypto/tls.(*Conn).Write''), c1) \<and>
    resolveGoTLSWriteOffset (\<lambda>_. Some (1, 2)) (\<lambda>_. None) ''/bin/x'' c1 = (r2, c1) \<and> map_option fst r2 = Some 4352"
proof -
  obtain c1 where c1: "resolveGoTLSWriteOffset (\<lambda>_. Some (1, 2)) (\<lambda>_. Some example_elf) ''/bin/x'' Map.empty =
      (Some (4352, ''crypto/tls.(*Conn).Write''), c1)"
    by (simp add: resolveGoTLSWriteOffset_def example_elf_lookup)
  have st: "(\<lambda>_ :: string. Some (1 :: int, 2 :: int)) ''/bin/x'' = Some (1, 2)" by simp
  obtain r2 where "resolveGoTLSWriteOffset (\<lambda>_. Some (1, 2)) (\<lambda>_. None) ''/bin/x'' c1 = (r2, c1)"
    and "map_option fst r2 = map_option fst (Some (4352 :: u64, ''crypto/tls.(*Conn).Write''))"
    using symbol_cache_transparent [OF st _ c1, of "\<lambda>_. None"] by blast
  with c1 show ?thesis by (intro exI [of _ c1] exI [of _ r2]) simp
qed

end
