(* ===== verification/Registry_Steps.thy ===== *)
theory Registry_Steps
  imports Container_Props Step_Systems
begin

text \<open>
  The registry of watched containers as a step relation. One goroutine, that of the mode, runs the handlers, and no other
  changes the registry; the read loop looks into it under its mutex. What the read loop can see between two of its
  looks is therefore a sequence of the steps below: a container registered with its links, the containers of one id
  taken out, the metadata of a registered one replaced, an error counted. The links of a container exist shortly before
  it is registered and are closed shortly after it is taken out; no look falls between these in the model, as the
  registry, all that a look reads, changes once.
\<close>

section \<open>Steps of the registry\<close>

inductive reg_step :: "order \<Rightarrow> hookState \<Rightarrow> hookState \<Rightarrow> bool" for order where
  hook: "\<not> is_self h cid \<Longrightarrow> reg_step order h (hook_container env cid pid meta h)"
| detach: "reg_step order h (hook_detach order cid h)"
| meta: "cid \<in> hooked_ids h \<Longrightarrow> reg_step order h (set_meta cid m h)"
| error: "reg_step order h (h\<lparr>hkWatch := (hkWatch h)\<lparr>wmetrics := recordAttachError (wmetrics (hkWatch h))\<rparr>\<rparr>)"

lemma reg_step_events:
  assumes "reg_step order h h'" and "order_ok order" and "events_ok h"
  shows "events_ok h' \<and> self_id h' = self_id h"
  using assms(1)
proof cases
  case (hook cid env pid meta)
  have "hook_ok h" using assms(3) by (simp add: events_ok_def)
  then show ?thesis using hook hook_container_events [OF assms(3)] hook_container_ids(2) by simp
next
  case (detach cid)
  then show ?thesis using hook_detach_events [OF assms(3,2)] by simp
next
  case (meta cid m)
  then show ?thesis using set_meta_events [OF assms(3)] by (simp add: set_meta_def self_id_def)
next
  case error
  then show ?thesis using attach_error_events [OF assms(3)] by (simp add: self_id_def)
qed

interpretation reg: kept_by_steps "reg_step order" "\<lambda>h. order_ok order \<and> events_ok h \<and> self_id h = self" for order self
  by unfold_locales (auto dest: reg_step_events)

text \<open>Every handler is a sequence of such steps.\<close>

lemma steps_detach_each: "(reg_step order)\<^sup>*\<^sup>* h (hook_detach_each order cids h)"
  by (induction order cids h rule: hook_detach_each.induct) (auto intro: converse_rtranclp_into_rtranclp reg_step.detach)

lemma steps_attach: "\<not> is_self h cid \<Longrightarrow> (reg_step order)\<^sup>*\<^sup>* h (attachContainer ai cid h)"
  by (auto simp: attachContainer_def intro: reg_step.intros split: sum.split)

lemma steps_scan_list: "(reg_step order)\<^sup>*\<^sup>* h (scan_list cs h)"
  by (induction cs h rule: scan_list.induct) (auto intro: steps_attach [THEN rtranclp_trans])

lemma steps_docker_event: "(reg_step order)\<^sup>*\<^sup>* h (handleDockerEvent order inspect ai ev h)"
  by (auto simp: handleDockerEvent_def Let_def intro: steps_attach reg_step.detach split: option.split)

lemma steps_docker_loop: "(reg_step order)\<^sup>*\<^sup>* h (fst (docker_loop order is h))"
  by (induction order "is" h rule: docker_loop.induct)
     (auto simp: hook_detachAll_def intro: steps_detach_each rtranclp_trans [OF steps_docker_event])

lemma steps_attach_id:
  assumes "events_ok h" and "order_ok order" and "\<not> is_self h cid"
  shows "(reg_step order)\<^sup>*\<^sup>* h (attachByContainerID order ri cid meta h)"
proof -
  let ?by = "byID (cw (hkWatch h))"
  have meta: "(reg_step order)\<^sup>*\<^sup>* h (set_meta k m h)" if "?by k \<noteq> None" for k m
    using that reg_step.meta [of k h order m] by (auto simp: hooked_ids_def)
  have hook: "(reg_step order)\<^sup>*\<^sup>* h (hook_container env cid pid m h)" for env pid m
    using assms(3) by (intro r_into_rtranclp reg_step.hook)
  have err: "(reg_step order)\<^sup>*\<^sup>* h (h\<lparr>hkWatch := (hkWatch h)\<lparr>wmetrics := recordAttachError (wmetrics (hkWatch h))\<rparr>\<rparr>)"
    by (intro r_into_rtranclp reg_step.error)
  have found: "?by k \<noteq> None" if "find (\<lambda>k. containerIDsMatch k cid) (order ?by) = Some k" for k
    using that order_okD [OF assms(2,1)] by (auto simp: find_Some_iff enumerates_def)
  show ?thesis
  proof (cases "?by cid \<noteq> None")
    case True
    then show ?thesis using meta [OF True] by (simp add: attachByContainerID_def Let_def)
  next
    case False
    then show ?thesis
      using meta found hook err by (simp add: attachByContainerID_def Let_def split: option.split)
  qed
qed

lemma steps_detach_pod: "(reg_step order)\<^sup>*\<^sup>* h (detachPodContainers order pod h)"
proof -
  have "(reg_step order)\<^sup>*\<^sup>* h (detach_statuses order sts h)" for sts h
  proof (induction sts arbitrary: h)
    case (Cons st sts)
    show ?case
      using Cons converse_rtranclp_into_rtranclp [OF reg_step.detach Cons] by (cases "splitContainerID (csContainerID st)") simp
  qed simp
  then show ?thesis
    using rtranclp_trans [OF _ steps_detach_each] by (simp add: detachPodContainers_def Let_def)
qed

lemma steps_sync_pod:
  assumes "events_ok h" and "order_ok order"
  shows "(reg_step order)\<^sup>*\<^sup>* h (syncPod order ri ann pod h)"
proof -
  have "events_ok h \<Longrightarrow> (reg_step order)\<^sup>*\<^sup>* h (sync_statuses order ri pod sts h)" for sts h
  proof (induction sts arbitrary: h)
    case (Cons st sts)
    have "(reg_step order)\<^sup>*\<^sup>* h (sync_statuses order ri pod sts (attachByContainerID order r cid m h))" if "\<not> is_self h cid" for r cid m
      using rtranclp_trans [OF steps_attach_id [OF Cons.prems assms(2) that] Cons.IH [OF attachByContainerID_events [OF Cons.prems assms(2) that]]] .
    then show ?case using Cons by (cases "splitContainerID (csContainerID st)") (simp add: Let_def)
  qed simp
  then show ?thesis using assms steps_detach_pod by (auto simp: syncPod_def)
qed

lemma steps_pods:
  assumes "events_ok h" and "order_ok order"
  shows "(reg_step order)\<^sup>*\<^sup>* h (scanRunningPods order ann pods h)" and "(reg_step order)\<^sup>*\<^sup>* h (fst (watchPods order ann is h))"
proof -
  have "events_ok h \<Longrightarrow> (reg_step order)\<^sup>*\<^sup>* h (scan_pods order ann ps h)" for ps h
    using assms(2) by (induction order ann ps h rule: scan_pods.induct) (auto intro: rtranclp_trans [OF steps_sync_pod] syncPod_events)
  then show "(reg_step order)\<^sup>*\<^sup>* h (scanRunningPods order ann pods h)"
    using assms(1) by (simp add: scanRunningPods_def split: option.split)
  have "events_ok h \<Longrightarrow> (reg_step order)\<^sup>*\<^sup>* h (fst (watchPods order ann is h))" for "is" h
  proof (induction "is" arbitrary: h)
    case (Cons i "is")
    have "(reg_step order)\<^sup>*\<^sup>* h (fst (watchPods order ann is (syncPod order ri ann pod h)))" for ri pod
      using rtranclp_trans [OF steps_sync_pod [OF Cons.prems assms(2)] Cons.IH [OF syncPod_events [OF Cons.prems assms(2)]]] .
    moreover have "(reg_step order)\<^sup>*\<^sup>* h (fst (watchPods order ann is (detachPodContainers order pod h)))" for pod
      using rtranclp_trans [OF steps_detach_pod Cons.IH [OF detachPodContainers_events [OF Cons.prems assms(2)]]] .
    ultimately show ?case using Cons by (cases i) simp_all
  qed simp
  then show "(reg_step order)\<^sup>*\<^sup>* h (fst (watchPods order ann is h))" using assms(1) by blast
qed

end
