(* ===== verification/Run_Modes.thy ===== *)
theory Run_Modes
  imports Registry_Steps
begin

text \<open>
  The two modes of \<^verbatim>\<open>main.go\<close> as wholes: in Docker mode the manager's own container may be found through
  the Docker API; \<^verbatim>\<open>runK8sMode\<close> of \<^verbatim>\<open>k8s.go\<close> watches the pods of a node again and again until the context
  is cancelled, and \<^verbatim>\<open>main\<close> then detaches all.
\<close>

section \<open>Docker\<close>

text \<open>\<open>inspect\<close>: the process of a container, \<open>None\<close> for an error.\<close>

fun self_by_pid :: "int \<Rightarrow> (string \<Rightarrow> int option) \<Rightarrow> dockerContainer list \<Rightarrow> string" where
  "self_by_pid me inspect [] = []"
| "self_by_pid me inspect (c # cs) =
     (if dcState c \<noteq> ''running'' then self_by_pid me inspect cs
      else case inspect (dcID c) of
             None \<Rightarrow> self_by_pid me inspect cs
           | Some pid \<Rightarrow>
               if pid \<noteq> me then self_by_pid me inspect cs
               else TrimPrefix (ToLower (dcID c)) ''sha256:'')"

definition detectSelfViaDockerAPI :: "int \<Rightarrow> dockerContainer list option \<Rightarrow> (string \<Rightarrow> int option) \<Rightarrow> string" where
  "detectSelfViaDockerAPI me cs inspect = (case cs of None \<Rightarrow> [] | Some cs \<Rightarrow> self_by_pid me inspect cs)"

text \<open>\<^verbatim>\<open>runDockerMode\<close> with what the API says of this process.\<close>

definition docker_main :: "order \<Rightarrow> string option \<Rightarrow> string option \<Rightarrow> int \<Rightarrow> dockerContainer list option \<Rightarrow> (string \<Rightarrow> int option) \<Rightarrow>
    string \<Rightarrow> (dockerContainer \<times> attachInput) list option \<Rightarrow> docker_input list \<Rightarrow> hookState \<Rightarrow> (hookState \<times> bool) option" where
  "docker_main order cgroup hostname me selfList inspect label cs is h =
     runDockerMode order cgroup hostname (detectSelfViaDockerAPI me selfList inspect) label cs is h"

section \<open>Kubernetes\<close>

text \<open>
  One round of the loop: whether the context is done at its head, what the watch delivers (\<open>None\<close> when
  it cannot be opened), and whether the context is done after the watch or during the pause.
\<close>

record k8sRound =
  krDone :: bool
  krWatch :: "pod_input list option"
  krDoneAfter :: bool
  krDoneSleep :: bool

datatype k8s_end = Running | Canceled | Failed

fun k8s_loop :: "order \<Rightarrow> annotationFilter \<Rightarrow> k8sRound list \<Rightarrow> hookState \<Rightarrow> hookState \<times> k8s_end" where
  "k8s_loop order ann [] h = (h, Running)"
| "k8s_loop order ann (r # rs) h =
     (if krDone r then (h, Canceled)
      else
        let (h, returned) = (case krWatch r of None \<Rightarrow> (h, True) | Some is \<Rightarrow> watchPods order ann is h)
        in if \<not> returned then (h, Running)
           else if krDoneAfter r then (h, Canceled)
           else if krDoneSleep r then (h, Canceled)
           else k8s_loop order ann rs h)"

definition runK8sMode :: "order \<Rightarrow> string \<Rightarrow> string \<Rightarrow> bool \<Rightarrow> (pod \<times> (nat \<Rightarrow> resolveInput)) list option \<Rightarrow> k8sRound list \<Rightarrow>
    hookState \<Rightarrow> hookState \<times> k8s_end" where
  "runK8sMode order annEnv nodeName client pods rounds h =
     (case parseAnnotationFilter annEnv of
        Inl _ \<Rightarrow> (h, Failed)
      | Inr ann \<Rightarrow>
          let nodeName = TrimSpace nodeName
          in if nodeName = [] then (h, Failed)
             else if \<not> client then (h, Failed)
             else k8s_loop order ann rounds (scanRunningPods order ann pods h))"

text \<open>The Kubernetes branch of \<^verbatim>\<open>main\<close>; a failure ends the process.\<close>

definition k8s_main :: "order \<Rightarrow> string option \<Rightarrow> string option \<Rightarrow> string \<Rightarrow> string \<Rightarrow> bool \<Rightarrow>
    (pod \<times> (nat \<Rightarrow> resolveInput)) list option \<Rightarrow> k8sRound list \<Rightarrow> hookState \<Rightarrow> hookState \<times> k8s_end" where
  "k8s_main order cgroup hostname annEnv nodeName client pods rounds h =
     (let selfID = detectSelfContainerID cgroup hostname;
          s = hkWatch h;
          h = h\<lparr>hkWatch := s\<lparr>cw := (cw s)\<lparr>selfContainerID := selfID\<rparr>\<rparr>\<rparr>
      in case runK8sMode order annEnv nodeName client pods rounds h of
           (h, Canceled) \<Rightarrow> (hook_detachAll order h, Canceled)
         | (h, e) \<Rightarrow> (h, e))"

section \<open>Lemmas\<close>

lemma k8s_loop_events [inv_intros]:
  "events_ok h \<Longrightarrow> order_ok order \<Longrightarrow> events_ok (fst (k8s_loop order ann rounds h))"
proof (induction rounds arbitrary: h)
  case (Cons r rs)
  obtain h1 ret where w: "(case krWatch r of None \<Rightarrow> (h, True) | Some is \<Rightarrow> watchPods order ann is h) = (h1, ret)" by fastforce
  have "events_ok h1"
    using w Cons.prems(1) watchPods_events [OF Cons.prems, of ann] by (cases "krWatch r") (simp_all, metis fst_conv)
  then show ?case using Cons.IH [of h1] Cons.prems w by simp
qed simp

lemma runK8sMode_events [inv_intros]:
  "events_ok h \<Longrightarrow> order_ok order \<Longrightarrow> events_ok (fst (runK8sMode order annEnv nodeName client pods rounds h))"
  by (auto simp: runK8sMode_def Let_def intro: inv_intros split: sum.split)

lemma self_by_pid_found:
  "self_by_pid me inspect cs \<noteq> [] \<Longrightarrow>
     \<exists>c \<in> set cs. dcState c = ''running'' \<and> inspect (dcID c) = Some me \<and>
       self_by_pid me inspect cs = TrimPrefix (ToLower (dcID c)) ''sha256:''"
  by (induction me inspect cs rule: self_by_pid.induct) (auto split: if_splits option.splits)

lemma k8s_main_ok:
  assumes "order_ok order"
    and "k8s_main order cgroup hostname annEnv nodeName client pods rounds (started [] []) = (h, e)"
  shows "events_ok h" and "e = Canceled \<Longrightarrow> dom (byID (cw (hkWatch h))) = {} \<and> set (closedLinks (hkWatch h)) = {..<hkNext h}"
proof -
  let ?self = "detectSelfContainerID cgroup hostname"
  obtain h1 e1 where r: "runK8sMode order annEnv nodeName client pods rounds (started ?self []) = (h1, e1)" by fastforce
  have ok1: "events_ok h1"
    using runK8sMode_events [OF started_ok assms(1)] r by (metis fst_conv)
  have st: "(started [] [])\<lparr>hkWatch := (hkWatch (started [] []))\<lparr>cw := (cw (hkWatch (started [] [])))\<lparr>selfContainerID := ?self\<rparr>\<rparr>\<rparr> =
      started ?self []"
    by (simp add: started_def watch_init_def)
  have m: "(h, e) = (if e1 = Canceled then (hook_detachAll order h1, Canceled) else (h1, e1))"
    using assms(2) r unfolding k8s_main_def Let_def st by (cases e1) simp_all
  note all = hook_detachAll_empty [OF ok1 assms(1)]
  show ok: "events_ok h" using m ok1 all(2) by (cases "e1 = Canceled") simp_all
  assume "e = Canceled"
  then have h: "h = hook_detachAll order h1" using m by (cases "e1 = Canceled") simp_all
  have "active_links (hkWatch h) = {}" using all(3) h by simp
  then show "dom (byID (cw (hkWatch h))) = {} \<and> set (closedLinks (hkWatch h)) = {..<hkNext h}"
    using all(1) h events_okD(2) [OF ok] by (simp add: hooked_ids_def)
qed

lemma k8s_main_failed:
  "k8s_main order cgroup hostname annEnv nodeName client pods rounds h = (h', Failed) \<Longrightarrow> hkNext h' = hkNext h"
proof -
  have "snd (k8s_loop order ann rs h) \<noteq> Failed" for ann rs h
    by (induction order ann rs h rule: k8s_loop.induct) (auto simp: Let_def split: prod.splits)
  then have "runK8sMode order annEnv nodeName client pods rounds h1 = (h', Failed) \<Longrightarrow> h' = h1" for h1
    unfolding runK8sMode_def Let_def by (auto split: sum.splits if_splits) (metis snd_conv)+
  then show "k8s_main order cgroup hostname annEnv nodeName client pods rounds h = (h', Failed) \<Longrightarrow> hkNext h' = hkNext h"
    by (force simp: k8s_main_def Let_def split: prod.splits k8s_end.splits)
qed

text \<open>The mode as steps of the registry, which knows this program's id from the start.\<close>

lemma steps_k8s_loop:
  assumes "order_ok order"
  shows "events_ok h \<Longrightarrow> (reg_step order)\<^sup>*\<^sup>* h (fst (k8s_loop order ann rounds h))"
proof (induction rounds arbitrary: h)
  case (Cons r rs)
  obtain h1 ret where w: "(case krWatch r of None \<Rightarrow> (h, True) | Some is \<Rightarrow> watchPods order ann is h) = (h1, ret)" by fastforce
  have "events_ok h1 \<and> (reg_step order)\<^sup>*\<^sup>* h h1"
  proof (cases "krWatch r")
    case None
    then show ?thesis using w Cons.prems by simp
  next
    case (Some "is")
    then show ?thesis
      using w watchPods_events [OF Cons.prems assms, of ann "is"] steps_pods(2) [OF Cons.prems assms, of ann "is"] by simp
  qed
  then show ?case using Cons.IH [of h1] w by (auto intro: rtranclp_trans)
qed simp

lemma steps_k8s_mode:
  assumes "order_ok order" and "events_ok h"
  shows "(reg_step order)\<^sup>*\<^sup>* h (fst (runK8sMode order annEnv nodeName client pods rounds h))"
  using rtranclp_trans [OF steps_pods(1) [OF assms(2,1)] steps_k8s_loop [OF assms(1) scanRunningPods_events [OF assms(2,1)]]]
  by (auto simp: runK8sMode_def Let_def split: sum.split)

lemma k8s_main_self:
  assumes "order_ok order"
    and "k8s_main order cgroup hostname annEnv nodeName client pods rounds (started [] []) = (h, e)"
  shows "self_id h = detectSelfContainerID cgroup hostname"
proof -
  let ?self = "detectSelfContainerID cgroup hostname"
  obtain h1 e1 where r: "runK8sMode order annEnv nodeName client pods rounds (started ?self []) = (h1, e1)" by fastforce
  have st: "(started [] [])\<lparr>hkWatch := (hkWatch (started [] []))\<lparr>cw := (cw (hkWatch (started [] [])))\<lparr>selfContainerID := ?self\<rparr>\<rparr>\<rparr> =
      started ?self []"
    by (simp add: started_def watch_init_def)
  have m: "h = (if e1 = Canceled then hook_detachAll order h1 else h1)"
    using assms(2) r unfolding k8s_main_def Let_def st by (cases e1) simp_all
  have "(reg_step order)\<^sup>*\<^sup>* (started ?self []) h1" using steps_k8s_mode [OF assms(1) started_ok] r by (metis fst_conv)
  then have "(reg_step order)\<^sup>*\<^sup>* (started ?self []) h" using steps_detach_each m by (auto simp: hook_detachAll_def intro: rtranclp_trans)
  then show ?thesis
    using reg.reached [of order "started ?self []" h ?self] started_ok assms(1) by (simp add: self_id_def started_def watch_init_def)
qed

section \<open>Properties\<close>

text \<open>C15: In Kubernetes mode, over the first scan and any number of watches that end and are opened again: every link
  handed out is either active, then in exactly one container, or closed once; the gauge counts the
  containers; the id that was detected for this program's own container is kept, and when one was detected, no
  container that it matches is hooked (with none detected, nothing is excluded); when the mode is
  cancelled, every link there ever was is closed and no container is left.\<close>

theorem k8s_mode_links:
  assumes "order_ok order"
    and "k8s_main order cgroup hostname annEnv nodeName client pods rounds (started [] []) = (h, e)"
  shows "selfContainerID (cw (hkWatch h)) = detectSelfContainerID cgroup hostname \<and>
    (detectSelfContainerID cgroup hostname \<noteq> [] \<longrightarrow>
       (\<forall>k \<in> dom (byID (cw (hkWatch h))). \<not> isSelfContainer (detectSelfContainerID cgroup hostname) k)) \<and>
    attachedTargets (wmetrics (hkWatch h)) = card (dom (byID (cw (hkWatch h)))) \<and>
    active_links (hkWatch h) \<union> set (closedLinks (hkWatch h)) = {..<hkNext h} \<and>
    (\<forall>l \<in> active_links (hkWatch h). \<exists>!k. \<exists>as. byID (cw (hkWatch h)) k = Some as \<and> l \<in> set (links as)) \<and>
    active_links (hkWatch h) \<inter> set (closedLinks (hkWatch h)) = {} \<and> distinct (closedLinks (hkWatch h)) \<and>
    (e = Canceled \<longrightarrow> dom (byID (cw (hkWatch h))) = {} \<and> set (closedLinks (hkWatch h)) = {..<hkNext h})"
proof -
  note r = k8s_main_ok [OF assms]
  have self: "selfContainerID (cw (hkWatch h)) = detectSelfContainerID cgroup hostname"
    using k8s_main_self [OF assms] by (simp add: self_id_def)
  have "\<exists>!k. \<exists>as. byID (cw (hkWatch h)) k = Some as \<and> l \<in> set (links as)" if l: "l \<in> active_links (hkWatch h)" for l
  proof -
    obtain k as where "byID (cw (hkWatch h)) k = Some as" "l \<in> set (links as)"
      using l by (auto simp: active_links_def ran_def)
    then show ?thesis using watch_okD(5) [OF events_okD(1) [OF r(1)], of k] by blast
  qed
  then show ?thesis
    using r(2) events_okD [OF r(1)] links_disjoint [of "hkWatch h"] watch_okD(3) [of "hkWatch h"] self by simp
qed

text \<open>
  A pod with two running containers, one of them that of this program, whose id is its hostname: the other one is
  hooked with two links. In the second run the context is cancelled after the scan.
\<close>

definition example_running :: pod where
  "example_running = \<lparr>pdName = ''p'', pdNamespace = ''n'', pdDeleting = False, pdAnnotations = Some [''clawguard.io/monitor'' \<mapsto> ''true''],
     pdPhase = ''Running'', pdStatuses = [\<lparr>csName = ''app'', csContainerID = ''docker://0123456789ab'', csRunning = True\<rparr>,
                   \<lparr>csName = ''me'', csContainerID = ''docker://aaaaaaaaaaaa'', csRunning = True\<rparr>]\<rparr>"

definition example_resolve :: resolveInput where
  "example_resolve = \<lparr>riHook = example_env,
     riProc = (\<lambda>_. Some [\<lparr>peIsDir = True, peName = ''42'', peCgroup = Some ''/docker/0123456789ab''\<rparr>]), riDone = (\<lambda>_. False)\<rparr>"

lemma example_pid:
  "findPIDByContainerID (Some [\<lparr>peIsDir = True, peName = ''42'', peCgroup = Some ''/docker/0123456789ab''\<rparr>]) ''0123456789ab'' = Inr 42"
proof -
  have n: "scan_pid ''42'' = Some 42" by (simp add: scan_pid_def digit_val_def)
  have "Contains (ToLower ''/docker/0123456789ab'') ''0123456789ab''" by code_simp
  then have s: "scan_proc ''0123456789ab'' ''0123456789ab''
      [\<lparr>peIsDir = True, peName = ''42'', peCgroup = Some ''/docker/0123456789ab''\<rparr>] = Some 42"
    by (simp add: n)
  have "ToLower (TrimPrefix ''0123456789ab'' ''sha256:'') = ''0123456789ab''" by code_simp
  then show ?thesis by (simp add: findPIDByContainerID_def Let_def s del: scan_proc.simps)
qed

lemma example_ids:
  "splitContainerID ''docker://0123456789ab'' = (''docker'', ''0123456789ab'')"
  "splitContainerID ''docker://aaaaaaaaaaaa'' = (''docker'', ''aaaaaaaaaaaa'')"
proof -
  have t: "TrimSpace ''docker://0123456789ab'' = ''docker://0123456789ab''" "TrimSpace ''docker://aaaaaaaaaaaa'' = ''docker://aaaaaaaaaaaa''"
    by (simp_all add: TrimSpace_id space_free_def space_bytes_def)
  have i: "Index ''docker://0123456789ab'' ''://'' = Some 6" "Index ''docker://aaaaaaaaaaaa'' ''://'' = Some 6" by code_simp+
  have p: "TrimPrefix (ToLower ''0123456789ab'') ''sha256:'' = ''0123456789ab''" "TrimPrefix (ToLower ''aaaaaaaaaaaa'') ''sha256:'' = ''aaaaaaaaaaaa''"
    by code_simp+
  show "splitContainerID ''docker://0123456789ab'' = (''docker'', ''0123456789ab'')"
    "splitContainerID ''docker://aaaaaaaaaaaa'' = (''docker'', ''aaaaaaaaaaaa'')"
    using t i p by (simp_all add: splitContainerID_def)
qed

lemma example_self:
  "isSelfContainer ''aaaaaaaaaaaa'' ''aaaaaaaaaaaa''" "\<not> isSelfContainer ''aaaaaaaaaaaa'' ''0123456789ab''"
  "detectSelfContainerID None (Some ''aaaaaaaaaaaa'') = ''aaaaaaaaaaaa''"
proof -
  have p: "TrimPrefix (ToLower ''aaaaaaaaaaaa'') ''sha256:'' = ''aaaaaaaaaaaa''" "TrimPrefix (ToLower ''0123456789ab'') ''sha256:'' = ''0123456789ab''"
    "ToLower ''aaaaaaaaaaaa'' = ''aaaaaaaaaaaa''"
    by code_simp+
  show "isSelfContainer ''aaaaaaaaaaaa'' ''aaaaaaaaaaaa''" "\<not> isSelfContainer ''aaaaaaaaaaaa'' ''0123456789ab''"
    using p by (simp_all add: isSelfContainer_def)
  have "dockerIDFromCgroup None = []" "dockerIDFromHostname (Some ''aaaaaaaaaaaa'') = ''aaaaaaaaaaaa''" by code_simp+
  then show "detectSelfContainerID None (Some ''aaaaaaaaaaaa'') = ''aaaaaaaaaaaa''" by (simp add: detectSelfContainerID_def)
qed

lemma example_hook:
  assumes "byID (cw (hkWatch h)) cid = None" and "hkNext h = 0"
  shows "hook_container example_env cid pid meta h = \<lparr>hkWatch = registerAttach (hkWatch h) cid meta [0, 1], hkNext = 2\<rparr>"
proof -
  have "discover_loop example_env pid 20 0 = Found ''libssl.so.3''" by (simp add: example_env_def eval_nat_numeral)
  then have "attachOpenSSL example_env pid 0 = (Some [0, 1], [], 2)"
    by (simp add: attachOpenSSL_def Let_def) (simp add: example_env_def example_runtimes attach_pair_def)
  moreover have "parseRuntimes (heRuntimes example_env) = (True, False)" by (simp add: example_env_def example_runtimes)
  ultimately show ?thesis using assms by (simp add: hook_container_def attachUprobes_def Let_def)
qed

lemma example_pods:
  assumes "h = scanRunningPods sorted_order \<lparr>annKey = ''clawguard.io/monitor'', annVal = ''true''\<rparr> (Some [(example_running, \<lambda>_. example_resolve)]) (started ''aaaaaaaaaaaa'' [])"
  shows "byID (cw (hkWatch h)) = [''0123456789ab'' \<mapsto> \<lparr>links = [0, 1], containerID = ''0123456789ab''\<rparr>]" and "hkNext h = 2"
  using assms
  by (simp_all add: scanRunningPods_def syncPod_def example_running_def annotation_matches_def example_ids example_self is_self_def
      started_def watch_init_def attachByContainerID_def sorted_order_def resolve_pid_def example_resolve_def example_pid
      example_hook registerAttach_def Let_def)

theorem k8s_mode_links_witness:
  "\<exists>h h' pods. k8s_main sorted_order None (Some ''aaaaaaaaaaaa'') [] ''node'' True pods [] (started [] []) = (h, Running) \<and>
     (\<exists>!k. \<exists>as. byID (cw (hkWatch h)) k = Some as \<and> 0 \<in> set (links as)) \<and> \<not> isSelfContainer ''aaaaaaaaaaaa'' ''0123456789ab'' \<and>
     ''0123456789ab'' \<in> dom (byID (cw (hkWatch h))) \<and>
     k8s_main sorted_order None (Some ''aaaaaaaaaaaa'') [] ''node'' True pods
       [\<lparr>krDone = True, krWatch = None, krDoneAfter = False, krDoneSleep = False\<rparr>] (started [] []) = (h', Canceled) \<and>
     set (closedLinks (hkWatch h')) = {..<hkNext h'}"
proof -
  let ?pods = "Some [(example_running, \<lambda>_. example_resolve)]"
  let ?rs = "[\<lparr>krDone = True, krWatch = None, krDoneAfter = False, krDoneSleep = False\<rparr>]"
  have "TrimSpace ''node'' = ''node''" "TrimSpace [] = []" by (simp_all add: TrimSpace_id space_free_def space_bytes_def)
  note t = this example_self(3)
  obtain h where h: "k8s_main sorted_order None (Some ''aaaaaaaaaaaa'') [] ''node'' True ?pods [] (started [] []) = (h, Running)"
    "h = scanRunningPods sorted_order \<lparr>annKey = ''clawguard.io/monitor'', annVal = ''true''\<rparr> ?pods (started ''aaaaaaaaaaaa'' [])"
    using t by (simp add: k8s_main_def runK8sMode_def parseAnnotationFilter_def started_def watch_init_def Let_def)
  obtain h' where h': "k8s_main sorted_order None (Some ''aaaaaaaaaaaa'') [] ''node'' True ?pods ?rs (started [] []) = (h', Canceled)"
    using t by (simp add: k8s_main_def runK8sMode_def parseAnnotationFilter_def Let_def)
  note pods = example_pods [OF h(2)]
  have "0 \<in> active_links (hkWatch h)" by (simp add: pods active_links_def)
  then have "\<exists>!k. \<exists>as. byID (cw (hkWatch h)) k = Some as \<and> 0 \<in> set (links as)" "\<forall>k \<in> dom (byID (cw (hkWatch h))). \<not> isSelfContainer ''aaaaaaaaaaaa'' k"
    using k8s_mode_links [OF sorted_order_ok h(1)] example_self(3) by simp_all
  moreover have "''0123456789ab'' \<in> dom (byID (cw (hkWatch h)))" by (simp add: pods)
  moreover have "set (closedLinks (hkWatch h')) = {..<hkNext h'}" using k8s_mode_links [OF sorted_order_ok h'] by simp
  ultimately show ?thesis using h(1) h' by blast
qed

end
