(* ===== verification/Discovery.thy ===== *)
theory Discovery
  imports Hook_Attach
begin

text \<open>
  Where the binaries to hook are looked for: \<^verbatim>\<open>discoverLibSSLUnderProcRoot\<close> and
  \<^verbatim>\<open>discoverNodeExecutableUnderProcRoot\<close> of \<^verbatim>\<open>main.go\<close>. The file system is an argument: what \<^verbatim>\<open>os.Stat\<close>
  says of a path, and the entries that \<^verbatim>\<open>filepath.Walk\<close> visits below a directory, in its order.
\<close>

section \<open>File system\<close>

text \<open>\<open>weFile\<close>: the entry was visited without an error and is no directory.\<close>

record walkEntry =
  wePath :: string
  weFile :: bool

record fileSystem =
  fsStat :: "string \<Rightarrow> bool option"
  fsWalk :: "string \<Rightarrow> walkEntry list"

fun itoa :: "nat \<Rightarrow> string" where
  "itoa n = (if n < 10 then [char_of (48 + n)] else itoa (n div 10) @ [char_of (48 + n mod 10)])"

declare itoa.simps [simp del]

definition procRoot :: "nat \<Rightarrow> string" where
  "procRoot rootPID = ''/proc/'' @ itoa rootPID @ ''/root''"

text \<open>\<^verbatim>\<open>filepath.Join\<close> of clean parts, and \<^verbatim>\<open>filepath.Base\<close> of a path without a slash at its end.\<close>

definition filepath_Join :: "string \<Rightarrow> string \<Rightarrow> string" where
  "filepath_Join dir rel = dir @ ''/'' @ rel"

definition filepath_Base :: "string \<Rightarrow> string" where
  "filepath_Base path = rev (takeWhile (\<lambda>c. c \<noteq> CHR ''/'') (rev path))"

definition is_plain :: "fileSystem \<Rightarrow> string \<Rightarrow> bool" where
  "is_plain fs p \<longleftrightarrow> fsStat fs p = Some False"

text \<open>The first candidate that is a file; else the first entry with a wanted name below the first root that has one.\<close>

fun first_plain :: "fileSystem \<Rightarrow> string \<Rightarrow> string list \<Rightarrow> string option" where
  "first_plain fs root [] = None"
| "first_plain fs root (rel # rels) =
     (let p = filepath_Join root rel in if is_plain fs p then Some p else first_plain fs root rels)"

definition walk_for :: "(string \<Rightarrow> bool) \<Rightarrow> walkEntry list \<Rightarrow> string" where
  "walk_for wanted es = (case find (\<lambda>e. weFile e \<and> wanted (filepath_Base (wePath e))) es of None \<Rightarrow> [] | Some e \<Rightarrow> wePath e)"

fun first_walk :: "fileSystem \<Rightarrow> (string \<Rightarrow> bool) \<Rightarrow> string \<Rightarrow> string list \<Rightarrow> string option" where
  "first_walk fs wanted root [] = None"
| "first_walk fs wanted root (rel # rels) =
     (let found = walk_for wanted (fsWalk fs (filepath_Join root rel))
      in if found \<noteq> [] then Some found else first_walk fs wanted root rels)"

section \<open>The two searches\<close>

definition libssl_candidates :: "string list" where
  "libssl_candidates =
     [''lib/libssl.so.3'', ''lib64/libssl.so.3'', ''lib/x86_64-linux-gnu/libssl.so.3'', ''lib/aarch64-linux-gnu/libssl.so.3'',
      ''usr/lib/x86_64-linux-gnu/libssl.so.3'', ''usr/lib/aarch64-linux-gnu/libssl.so.3'', ''usr/lib/libssl.so.3'',
      ''usr/local/lib/libssl.so.3'']"

definition discoverLibSSLUnderProcRoot :: "fileSystem \<Rightarrow> nat \<Rightarrow> string option" where
  "discoverLibSSLUnderProcRoot fs rootPID =
     (let root = procRoot rootPID
      in case first_plain fs root libssl_candidates of
           Some p \<Rightarrow> Some p
         | None \<Rightarrow> first_walk fs (\<lambda>name. HasPrefix name ''libssl.so'') root [''usr/lib'', ''lib'', ''lib64'', ''usr/local/lib''])"

definition node_candidates :: "string list" where
  "node_candidates = [''usr/local/bin/node'', ''usr/bin/node'', ''usr/bin/nodejs'', ''bin/node'', ''bin/nodejs'']"

definition discoverNodeExecutableUnderProcRoot :: "fileSystem \<Rightarrow> nat \<Rightarrow> string option" where
  "discoverNodeExecutableUnderProcRoot fs rootPID =
     (let root = procRoot rootPID
      in case first_plain fs root node_candidates of
           Some p \<Rightarrow> Some p
         | None \<Rightarrow> first_walk fs (\<lambda>name. name = ''node'' \<or> name = ''nodejs'') root [''usr'', ''usr/local'', ''bin'', ''opt''])"

section \<open>Lemmas\<close>

text \<open>\<^verbatim>\<open>filepath.Walk\<close> visits paths below its root.\<close>

definition walks_below :: "fileSystem \<Rightarrow> bool" where
  "walks_below fs \<longleftrightarrow> (\<forall>dir. \<forall>e \<in> set (fsWalk fs dir). \<exists>rest. wePath e = dir @ rest)"

definition in_container :: "nat \<Rightarrow> string \<Rightarrow> bool" where
  "in_container pid p \<longleftrightarrow> (\<exists>rest. p = procRoot pid @ ''/'' @ rest)"

lemma first_plain_Some: "first_plain fs root rels = Some p \<Longrightarrow> \<exists>rel \<in> set rels. p = filepath_Join root rel \<and> is_plain fs p"
  by (induction rels) (auto simp: Let_def split: if_splits)

lemma walk_for_found: "walk_for wanted es \<noteq> [] \<Longrightarrow> \<exists>e \<in> set es. walk_for wanted es = wePath e \<and> weFile e \<and> wanted (filepath_Base (wePath e))"
proof -
  assume "walk_for wanted es \<noteq> []"
  then obtain e where e: "find (\<lambda>e. weFile e \<and> wanted (filepath_Base (wePath e))) es = Some e"
    by (auto simp: walk_for_def split: option.splits)
  then have "e \<in> set es" "weFile e" "wanted (filepath_Base (wePath e))" by (auto simp: find_Some_iff)
  moreover have "walk_for wanted es = wePath e" by (simp add: walk_for_def e)
  ultimately show ?thesis by auto
qed

lemma first_walk_Some:
  "first_walk fs wanted root rels = Some p \<Longrightarrow>
     \<exists>rel \<in> set rels. \<exists>e \<in> set (fsWalk fs (filepath_Join root rel)). p = wePath e \<and> weFile e \<and> wanted (filepath_Base p)"
proof (induction rels)
  case (Cons rel rels)
  show ?case
  proof (cases "walk_for wanted (fsWalk fs (filepath_Join root rel)) = []")
    case False
    then show ?thesis using Cons.prems walk_for_found [OF False] by (auto simp: Let_def)
  qed (use Cons in \<open>auto simp: Let_def\<close>)
qed simp

text \<open>A search only finds files of the container's own file system.\<close>

lemma search_in_container:
  assumes "walks_below fs"
    and "(case first_plain fs (procRoot pid) rels of Some p \<Rightarrow> Some p | None \<Rightarrow> first_walk fs wanted (procRoot pid) dirs) = Some p"
  shows "in_container pid p \<and> (is_plain fs p \<or> (\<exists>dir. \<exists>e \<in> set (fsWalk fs dir). wePath e = p \<and> weFile e \<and> wanted (filepath_Base p)))"
proof (cases "first_plain fs (procRoot pid) rels")
  case None
  then obtain rel e where e: "e \<in> set (fsWalk fs (filepath_Join (procRoot pid) rel))" "p = wePath e" "weFile e" "wanted (filepath_Base p)"
    using assms(2) first_walk_Some [of fs wanted "procRoot pid" dirs p] by auto
  then obtain rest where "p = filepath_Join (procRoot pid) rel @ rest" using assms(1) by (auto simp: walks_below_def)
  then show ?thesis using e by (auto simp: in_container_def filepath_Join_def)
next
  case (Some q)
  then show ?thesis using assms(2) first_plain_Some [OF Some] by (auto simp: in_container_def filepath_Join_def)
qed

lemma discovered_in_container:
  assumes "walks_below fs"
  shows "discoverLibSSLUnderProcRoot fs pid = Some p \<Longrightarrow> in_container pid p"
    and "discoverNodeExecutableUnderProcRoot fs pid = Some p \<Longrightarrow> in_container pid p"
  using search_in_container [OF assms]
  by (auto simp: discoverLibSSLUnderProcRoot_def discoverNodeExecutableUnderProcRoot_def Let_def)

lemma Base_Join:
  assumes "CHR ''/'' \<notin> set name"
  shows "filepath_Base (filepath_Join dir name) = name" and "filepath_Base (filepath_Join dir (filepath_Join sub name)) = name"
proof -
  have one: "filepath_Base (filepath_Join d name) = name" for d
  proof -
    have "\<forall>c \<in> set (rev name). c \<noteq> CHR ''/''" using assms by auto
    then show ?thesis by (simp add: filepath_Base_def filepath_Join_def takeWhile_tail takeWhile_eq_all_conv [THEN iffD2])
  qed
  have "filepath_Join dir (filepath_Join sub name) = filepath_Join (filepath_Join dir sub) name" by (simp add: filepath_Join_def)
  then show "filepath_Base (filepath_Join dir name) = name" "filepath_Base (filepath_Join dir (filepath_Join sub name)) = name" using one by simp_all
qed

definition hookable :: "string \<Rightarrow> bool" where
  "hookable name \<longleftrightarrow> HasPrefix name ''libssl.so'' \<or> name = ''node'' \<or> name = ''nodejs''"

lemma candidate_names: "rel \<in> set libssl_candidates \<union> set node_candidates \<Longrightarrow> hookable (filepath_Base (filepath_Join root rel))"
proof -
  assume "rel \<in> set libssl_candidates \<union> set node_candidates"
  then have "rel \<in> {filepath_Join ''lib'' ''libssl.so.3'', filepath_Join ''lib64'' ''libssl.so.3'', filepath_Join ''lib/x86_64-linux-gnu'' ''libssl.so.3'',
      filepath_Join ''lib/aarch64-linux-gnu'' ''libssl.so.3'', filepath_Join ''usr/lib/x86_64-linux-gnu'' ''libssl.so.3'',
      filepath_Join ''usr/lib/aarch64-linux-gnu'' ''libssl.so.3'', filepath_Join ''usr/lib'' ''libssl.so.3'', filepath_Join ''usr/local/lib'' ''libssl.so.3'',
      filepath_Join ''usr/local/bin'' ''node'', filepath_Join ''usr/bin'' ''node'', filepath_Join ''usr/bin'' ''nodejs'', filepath_Join ''bin'' ''node'', filepath_Join ''bin'' ''nodejs''}"
    by (auto simp: libssl_candidates_def node_candidates_def filepath_Join_def)
  then show ?thesis by (elim insertE) (simp_all add: Base_Join hookable_def HasPrefix_def)
qed

lemma search_names:
  assumes "set rels \<subseteq> set libssl_candidates \<union> set node_candidates" and "\<And>name. wanted name \<Longrightarrow> hookable name"
    and "(case first_plain fs root rels of Some p \<Rightarrow> Some p | None \<Rightarrow> first_walk fs wanted root dirs) = Some p"
  shows "hookable (filepath_Base p)"
proof (cases "first_plain fs root rels")
  case None
  then have "first_walk fs wanted root dirs = Some p" using assms(3) by simp
  from first_walk_Some [OF this] show ?thesis using assms(2) by blast
next
  case (Some q)
  from first_plain_Some [OF Some] show ?thesis using candidate_names assms(1,3) Some by auto
qed

lemma discovered_names:
  "discoverLibSSLUnderProcRoot fs pid = Some p \<Longrightarrow> hookable (filepath_Base p)"
  "discoverNodeExecutableUnderProcRoot fs pid = Some p \<Longrightarrow> hookable (filepath_Base p)"
  unfolding discoverLibSSLUnderProcRoot_def discoverNodeExecutableUnderProcRoot_def Let_def
  by (erule search_names [rotated 2]; simp add: hookable_def)+

section \<open>Attaching to what was found\<close>

text \<open>The environment of an attachment over a file system that may change from one attempt to the next.\<close>

definition discovering :: "(nat \<Rightarrow> fileSystem) \<Rightarrow> fileSystem \<Rightarrow> hookEnv \<Rightarrow> hookEnv" where
  "discovering fs later env =
     env\<lparr>heLibSSL := (\<lambda>pid i. discoverLibSSLUnderProcRoot (fs i) (nat pid)),
         heNode := (\<lambda>pid. discoverNodeExecutableUnderProcRoot later (nat pid))\<rparr>"

lemma discover_loop_Found: "discover_loop env pid left i = Found lib \<Longrightarrow> \<exists>j. heLibSSL env pid j = Some lib"
  by (induction left arbitrary: i) (auto split: if_splits option.splits)

text \<open>C37: Probes go only below the container's root: when the OpenSSL hooks of a container are attached, both probes
  are put on one path below the root of its process, a \<^verbatim>\<open>libssl.so\<close> or a node binary, in which both symbols were
  found, and nothing had to be closed again.\<close>

theorem attach_in_container:
  assumes "\<forall>i. walks_below (fs i)" and "walks_below later"
    and "attachOpenSSL (discovering fs later env) pid next = (Some ls, closed, next')"
  shows "closed = [] \<and> ls = [next, next + 1] \<and> next' = next + 2 \<and>
    (\<exists>p. in_container (nat pid) p \<and> hookable (filepath_Base p) \<and> heOpen env p \<and> heUprobe env p ''SSL_write'' \<and> heUprobe env p ''SSL_write_ex'')"
proof -
  let ?env = "discovering fs later env"
  have pair: "closed = [] \<and> ls = [next, next + 1] \<and> next' = next + 2 \<and> heOpen env p \<and> heUprobe env p ''SSL_write'' \<and>
      heUprobe env p ''SSL_write_ex''" if "attach_pair ?env p next = (Some ls, closed, next')" for p
    using that by (auto simp: attach_pair_def Let_def discovering_def split: if_splits)
  obtain p where "attach_pair ?env p next = (Some ls, closed, next')" "in_container (nat pid) p" "hookable (filepath_Base p)"
  proof (cases "discover_loop ?env pid (if snd (parseRuntimes (heRuntimes ?env)) then 4 else 20) 0")
    case Cancelled
    then show ?thesis using assms(3) by (simp add: attachOpenSSL_def Let_def)
  next
    case (Found lib)
    then obtain j where "discoverLibSSLUnderProcRoot (fs j) (nat pid) = Some lib"
      using discover_loop_Found [OF Found] by (auto simp: discovering_def)
    then have "in_container (nat pid) lib" "hookable (filepath_Base lib)"
      using assms(1) discovered_in_container(1) discovered_names(1) by blast+
    then show ?thesis using that [of lib] Found assms(3) by (simp add: attachOpenSSL_def Let_def)
  next
    case NotDiscovered
    then obtain exe where "discoverNodeExecutableUnderProcRoot later (nat pid) = Some exe" "attach_pair ?env exe next = (Some ls, closed, next')"
      using assms(3) by (auto simp: attachOpenSSL_def Let_def discovering_def split: option.splits if_splits)
    then show ?thesis using that [of exe] assms(2) discovered_in_container(2) discovered_names(2) by blast
  qed
  then show ?thesis using pair by blast
qed

definition example_fs :: fileSystem where
  "example_fs = \<lparr>fsStat = (\<lambda>p. if p = procRoot 7 @ ''/usr/bin/node'' then Some False else None), fsWalk = (\<lambda>_. [])\<rparr>"

definition example_hooks :: hookEnv where
  "example_hooks = \<lparr>heRuntimes = ''openssl'', heCtxDone = (\<lambda>_. False), heLibSSL = (\<lambda>_ _. None),
     heNode = (\<lambda>_. None), heOpen = (\<lambda>_. True), heUprobe = (\<lambda>_ _. True), heGoProbe = False, heGoExes = (\<lambda>_. []),
     heStat = (\<lambda>_. False), heIsGo = (\<lambda>_. False), heResolve = (\<lambda>_. None), heGoUprobe = (\<lambda>_ _. False)\<rparr>"

lemma example_fs_node:
  "discoverLibSSLUnderProcRoot example_fs 7 = None"
  "discoverNodeExecutableUnderProcRoot example_fs 7 = Some (procRoot 7 @ ''/usr/bin/node'')"
  by (simp_all add: discoverLibSSLUnderProcRoot_def discoverNodeExecutableUnderProcRoot_def Let_def example_fs_def
      libssl_candidates_def node_candidates_def filepath_Join_def is_plain_def walk_for_def)

lemma discover_none: "\<forall>i. heLibSSL env pid i = None \<Longrightarrow> \<forall>i. \<not> heCtxDone env i \<Longrightarrow> discover_loop env pid left i = NotDiscovered"
  by (induction left arbitrary: i) simp_all

theorem attach_in_container_witness:
  "\<exists>p. attachOpenSSL (discovering (\<lambda>_. example_fs) example_fs example_hooks) 7 5 = (Some [5, 6], [], 7) \<and> in_container 7 p \<and>
     hookable (filepath_Base p)"
proof -
  let ?env = "discovering (\<lambda>_. example_fs) example_fs example_hooks"
  have "discover_loop ?env 7 left i = NotDiscovered" for left i
    by (rule discover_none) (simp_all add: discovering_def example_fs_node example_hooks_def)
  then have a: "attachOpenSSL ?env 7 5 = (Some [5, 6], [], 7)"
    by (simp add: attachOpenSSL_def Let_def) (simp add: discovering_def example_fs_node example_hooks_def attach_pair_def)
  have w: "\<forall>i :: nat. walks_below example_fs" "walks_below example_fs" by (simp_all add: walks_below_def example_fs_def)
  from attach_in_container [OF w a] a show ?thesis by auto
qed

end
