(* ===== verification/Startup.thy ===== *)
theory Startup
  imports Env_Filters Bpf_Probe Chunk_Pool Discovery
begin

text \<open>
  The settings that \<^verbatim>\<open>init\<close> of \<^verbatim>\<open>main.go\<close> reads from the environment and what \<^verbatim>\<open>main\<close> makes of them: the
  time to live of a reassembly, the size of the chunk pool, and the limit of a capture, which goes to
  the probe through an eBPF map. \<^verbatim>\<open>time.ParseDuration\<close> is written out; the product of floating point
  numbers that it takes for a fraction of a unit is its argument \<open>fprod\<close>: digits, their number, unit.
\<close>

section \<open>Durations (time)\<close>

definition is_digit :: "char \<Rightarrow> bool" where
  "is_digit c \<longleftrightarrow> digit_val c \<noteq> None"

text \<open>\<^verbatim>\<open>leadingInt\<close>: \<open>None\<close> on overflow.\<close>

fun leadingInt :: "nat \<Rightarrow> string \<Rightarrow> (nat \<times> string) option" where
  "leadingInt x [] = Some (x, [])"
| "leadingInt x (c # s) =
     (case digit_val c of
        None \<Rightarrow> Some (x, c # s)
      | Some d \<Rightarrow>
          if 2 ^ 63 div 10 < x then None
          else if 2 ^ 63 < 10 * x + d then None
          else leadingInt (10 * x + d) s)"

text \<open>\<^verbatim>\<open>leadingFraction\<close>: once a digit overflows, the others are skipped. The scale is 10 to the number of digits taken.\<close>

fun leadingFraction :: "nat \<Rightarrow> nat \<Rightarrow> bool \<Rightarrow> string \<Rightarrow> nat \<times> nat \<times> string" where
  "leadingFraction x digits over [] = (x, digits, [])"
| "leadingFraction x digits over (c # s) =
     (case digit_val c of
        None \<Rightarrow> (x, digits, c # s)
      | Some d \<Rightarrow>
          if over then leadingFraction x digits over s
          else if (2 ^ 63 - 1) div 10 < x then leadingFraction x digits True s
          else if 2 ^ 63 < 10 * x + d then leadingFraction x digits True s
          else leadingFraction (10 * x + d) (digits + 1) over s)"

definition unitMap :: "string \<rightharpoonup> nat" where
  "unitMap = map_of
     [(''ns'', 1), (''us'', 1000), ([char_of (194 :: nat), char_of (181 :: nat), CHR ''s''], 1000),
      ([char_of (206 :: nat), char_of (188 :: nat), CHR ''s''], 1000), (''ms'', 1000000), (''s'', 1000000000),
      (''m'', 60000000000), (''h'', 3600000000000)]"

text \<open>One number with its unit; \<open>None\<close> is any error.\<close>

definition duration_part :: "(nat \<Rightarrow> nat \<Rightarrow> nat \<Rightarrow> nat) \<Rightarrow> string \<Rightarrow> (nat \<times> string) option" where
  "duration_part fprod s =
     (if \<not> (hd s = CHR ''.'' \<or> is_digit (hd s)) then None
      else case leadingInt 0 s of
        None \<Rightarrow> None
      | Some (v, r) \<Rightarrow>
          let pre = length s \<noteq> length r;
              (f, digits, post, r) =
                (case r of
                   c # t \<Rightarrow> (if c = CHR ''.''
                             then let (f, digits, u) = leadingFraction 0 0 False t in (f, digits, length t \<noteq> length u, u)
                             else (0, 0, False, r))
                 | [] \<Rightarrow> (0, 0, False, r))
          in if \<not> pre \<and> \<not> post then None
             else let u = takeWhile (\<lambda>c. \<not> (c = CHR ''.'' \<or> is_digit c)) r; r = drop (length u) r
                  in if u = [] then None
                     else case unitMap u of
                       None \<Rightarrow> None
                     | Some unit \<Rightarrow>
                         if 2 ^ 63 div unit < v then None
                         else if 0 < f then
                           let v = (v * unit + fprod f digits unit) mod 2 ^ 64
                           in if 2 ^ 63 < v then None else Some (v, r)
                         else Some (v * unit, r))"

lemma leadingInt_length: "leadingInt x s = Some (v, r) \<Longrightarrow> length r \<le> length s"
  by (induction x s rule: leadingInt.induct) (auto split: option.splits if_splits dest: le_SucI)

lemma leadingFraction_length: "leadingFraction x n ov s = (f, m, r) \<Longrightarrow> length r \<le> length s"
  by (induction x n ov s rule: leadingFraction.induct) (auto split: option.splits if_splits dest: le_SucI)

lemma duration_part_shorter: "duration_part fprod s = Some (v, r) \<Longrightarrow> length r < length s"
proof -
  assume a: "duration_part fprod s = Some (v, r)"
  then obtain n t where n: "leadingInt 0 s = Some (n, t)"
    by (auto simp: duration_part_def split: if_splits option.splits)
  define rest where "rest = (case t of c # t' \<Rightarrow> if c = CHR ''.'' then snd (snd (leadingFraction 0 0 False t')) else t | [] \<Rightarrow> t)"
  have "length rest \<le> length t"
    using leadingFraction_length by (cases t) (auto simp: rest_def split: if_splits, metis le_SucI prod.collapse)
  moreover have "\<exists>u. u \<noteq> [] \<and> u = takeWhile (\<lambda>c. \<not> (c = CHR ''.'' \<or> is_digit c)) rest \<and> r = drop (length u) rest"
    using a n unfolding duration_part_def rest_def
    by (auto simp: Let_def split: if_splits option.splits list.splits prod.splits)
  ultimately show ?thesis
    using leadingInt_length [OF n] length_takeWhile_le [of _ rest] by (auto simp: Suc_le_eq)
       (metis diff_less length_greater_0_conv le_trans length_0_conv not_less takeWhile.simps(1))
qed

function duration_parts :: "(nat \<Rightarrow> nat \<Rightarrow> nat \<Rightarrow> nat) \<Rightarrow> nat \<Rightarrow> string \<Rightarrow> nat option" where
  "duration_parts fprod d s =
     (if s = [] then Some d
      else case duration_part fprod s of
        None \<Rightarrow> None
      | Some (v, r) \<Rightarrow>
          let d = (d + v) mod 2 ^ 64
          in if 2 ^ 63 < d then None else duration_parts fprod d r)"
  by pat_completeness auto
termination
  by (relation "measure (\<lambda>(_, _, s). length s)") (auto dest: duration_part_shorter)

declare duration_parts.simps [simp del]

definition ParseDuration :: "(nat \<Rightarrow> nat \<Rightarrow> nat \<Rightarrow> nat) \<Rightarrow> string \<Rightarrow> int option" where
  "ParseDuration fprod s =
     (let (neg, s) = (case s of
            c # t \<Rightarrow> (if c = CHR ''-'' \<or> c = CHR ''+'' then (c = CHR ''-'', t) else (False, s))
          | [] \<Rightarrow> (False, s))
      in if s = ''0'' then Some 0
         else if s = [] then None
         else case duration_parts fprod 0 s of
           None \<Rightarrow> None
         | Some d \<Rightarrow>
             if neg then Some (- int d)
             else if 2 ^ 63 - 1 < d then None else Some (int d))"

section \<open>Settings\<close>

text \<open>In nanoseconds. The first argument of the parser is the value of the variable.\<close>

definition defaultReassemblyTTL :: time where
  "defaultReassemblyTTL = 30 * 1000000000"

definition parseDurationEnv :: "(nat \<Rightarrow> nat \<Rightarrow> nat \<Rightarrow> nat) \<Rightarrow> string \<Rightarrow> time \<Rightarrow> time" where
  "parseDurationEnv fprod value def =
     (let v = TrimSpace value
      in if v = [] then def
         else case ParseDuration fprod v of
                None \<Rightarrow> def
              | Some d \<Rightarrow> if d \<le> 0 then def else d)"

record settings_vars =
  logPayloadMaxBytes :: int
  reassemblyTTL :: time
  optionalMaxCaptureBytes :: u32
  chunkPoolMB :: int

text \<open>An unset variable reads as the empty string.\<close>

definition init :: "(nat \<Rightarrow> nat \<Rightarrow> nat \<Rightarrow> nat) \<Rightarrow> (string \<Rightarrow> string) \<Rightarrow> settings_vars" where
  "init fprod getenv =
     \<lparr>logPayloadMaxBytes = parseLogPayloadMax (getenv ''CLAWGUARD_PAYLOAD_PREVIEW_MAX''),
      reassemblyTTL = parseDurationEnv fprod (getenv ''CLAWGUARD_REASSEMBLY_TTL'') defaultReassemblyTTL,
      optionalMaxCaptureBytes = parseOptionalMaxCapture (getenv ''CLAWGUARD_MAX_CAPTURE_BYTES''),
      chunkPoolMB = parsePositiveIntEnv (getenv ''CLAWGUARD_CHUNK_POOL_MB'') defaultChunkPoolMB\<rparr>"

text \<open>\<^verbatim>\<open>chunkPoolMB << 20\<close> on 64-bit integers, and the pool of that size.\<close>

definition shl_int :: "int \<Rightarrow> nat \<Rightarrow> int" where
  "shl_int x n = sint (push_bit n (word_of_int x :: u64))"

definition main_pool :: "settings_vars \<Rightarrow> ChunkPool" where
  "main_pool st = newChunkPool (shl_int (chunkPoolMB st) 20)"

text \<open>
  The map that carries the limit to the probe: \<open>None\<close> when the loaded objects have none. \<open>put\<close> tells
  whether the kernel accepts the update; on an error, which is only logged, the probe sees the zero
  that an array map starts with.
\<close>

type_synonym config_map = "u32 \<rightharpoonup> u32"

definition new_config_map :: config_map where
  "new_config_map = [0 \<mapsto> 0]"

definition applyBPFCaptureConfig :: "bool \<Rightarrow> settings_vars \<Rightarrow> config_map option \<Rightarrow> config_map option \<times> bool" where
  "applyBPFCaptureConfig put st cm =
     (case cm of
        None \<Rightarrow> (None, False)
      | Some m \<Rightarrow> if put then (Some (m(0 \<mapsto> optionalMaxCaptureBytes st)), True) else (cm, False))"

definition optional_max_capture :: "config_map \<Rightarrow> u32" where
  "optional_max_capture m = (case m 0 of None \<Rightarrow> 0 | Some v \<Rightarrow> v)"

section \<open>Lemmas\<close>

lemma digit_val_char [simp]: "n < 10 \<Longrightarrow> digit_val (char_of (48 + n)) = Some n"
  by (simp add: digit_val_def)

lemma digits_val_append: "digits_val acc (s @ t) = (case digits_val acc s of None \<Rightarrow> None | Some n \<Rightarrow> digits_val n t)"
  by (induction acc s rule: digits_val.induct) (auto split: option.split)

lemma digits_val_itoa [simp]: "digits_val 0 (itoa n) = Some n"
proof (induction n rule: itoa.induct)
  case (1 n)
  show ?case
    using 1 by (cases "n < 10") (simp_all add: itoa.simps [of n] digits_val_append)
qed

lemma itoa_digits: "c \<in> set (itoa n) \<Longrightarrow> \<exists>k < 10. c = char_of (48 + k :: nat)"
proof (induction n arbitrary: c rule: itoa.induct)
  case (1 n)
  have "\<exists>k < 10. char_of (48 + n mod 10) = (char_of (48 + k :: nat) :: char)" by (intro exI [of _ "n mod 10"]) simp
  with 1 show ?case by (cases "n < 10") (auto simp: itoa.simps [of n] simp del: char_of_eq_iff)
qed

lemma itoa_nonempty [simp]: "itoa n \<noteq> []"
  by (subst itoa.simps) simp

lemma itoa_hd: obtains k t where "k < 10" "itoa n = char_of (48 + k :: nat) # t"
proof -
  obtain c t where "itoa n = c # t" by (cases "itoa n") simp_all
  with itoa_digits [of c n] that show thesis by auto
qed

lemma digit_not_sign [simp]:
  "k < 10 \<Longrightarrow> char_of (48 + k :: nat) \<noteq> CHR ''-''" "k < 10 \<Longrightarrow> char_of (48 + k :: nat) \<noteq> CHR ''+''"
  "k < 10 \<Longrightarrow> char_of (48 + k :: nat) \<noteq> CHR ''.''"
proof -
  have "char_of (48 + k :: nat) \<noteq> c" if "k < 10" "(of_char c :: nat) < 48" for c
  proof
    assume "char_of (48 + k :: nat) = c"
    then have "(of_char c :: nat) = 48 + k" using that(1) by auto
    with that(2) show False by simp
  qed
  then show "k < 10 \<Longrightarrow> char_of (48 + k :: nat) \<noteq> CHR ''-''" "k < 10 \<Longrightarrow> char_of (48 + k :: nat) \<noteq> CHR ''+''"
    "k < 10 \<Longrightarrow> char_of (48 + k :: nat) \<noteq> CHR ''.''" by simp_all
qed

lemma itoa_space_free: "(\<forall>c \<in> set u. (of_char c :: nat) \<notin> space_bytes) \<Longrightarrow> space_free (itoa n @ u)"
  by (auto simp: space_free_def space_bytes_def dest!: itoa_digits)

lemma Atoi_itoa: "n < 2 ^ 63 \<Longrightarrow> Atoi (itoa n) = Some (int n)"
proof -
  assume n: "n < 2 ^ 63"
  obtain k t where k: "k < 10" "itoa n = char_of (48 + k :: nat) # t" by (rule itoa_hd)
  have d: "digits_val 0 (char_of (48 + k :: nat) # t) = Some n" using k(2) digits_val_itoa [of n] by simp
  show ?thesis using n k d by (simp add: Atoi_def Let_def)
qed

lemma ParseUint_itoa: "n < 2 ^ bits \<Longrightarrow> ParseUint bits (itoa n) = Some n"
  by (simp add: ParseUint_def)

lemma digits_val_mono: "digits_val acc s = Some n \<Longrightarrow> acc \<le> n"
  by (induction acc s rule: digits_val.induct) (auto split: option.splits)

text \<open>As long as the number fits, the loop reads it all.\<close>

lemma leadingInt_digits:
  assumes "digits_val x ds = Some n" and "n \<le> 2 ^ 63" and "t = [] \<or> digit_val (hd t) = None"
  shows "leadingInt x (ds @ t) = Some (n, t)"
  using assms
proof (induction x ds rule: digits_val.induct)
  case (1 acc)
  then show ?case by (cases t) auto
next
  case (2 acc c s)
  then obtain d where d: "digit_val c = Some d" "digits_val (10 * acc + d) s = Some n"
    by (auto split: option.splits)
  have "10 * acc + d \<le> n" by (rule digits_val_mono [OF d(2)])
  then have "10 * acc + d \<le> 2 ^ 63" "\<not> 2 ^ 63 div 10 < acc" using 2(3) by auto
  then show ?case using 2 d by simp
qed

lemma duration_seconds:
  assumes "n * 1000000000 \<le> 2 ^ 63"
  shows "duration_part fprod (itoa n @ ''s'') = Some (n * 1000000000, [])"
proof -
  obtain k t where k: "k < 10" "itoa n = char_of (48 + k :: nat) # t" by (rule itoa_hd)
  have "leadingInt 0 (itoa n @ ''s'') = Some (n, ''s'')"
    using assms by (intro leadingInt_digits) (simp_all add: digit_val_def)
  moreover have "hd (itoa n @ ''s'') = char_of (48 + k)" using k by simp
  moreover have "\<not> 2 ^ 63 div 1000000000 < n"
    using assms by (simp add: not_less less_eq_div_iff_mult_less_eq)
  moreover have "is_digit (char_of (48 + k :: nat))" "\<not> is_digit (CHR ''s'')"
    using k(1) by (simp_all add: is_digit_def) (simp add: digit_val_def)
  ultimately show ?thesis
    by (simp add: duration_part_def Let_def unitMap_def)
qed

lemma ParseDuration_seconds:
  assumes "n * 1000000000 < 2 ^ 63"
  shows "ParseDuration fprod (itoa n @ ''s'') = Some (int (n * 1000000000))"
proof -
  obtain k t where k: "k < 10" "itoa n = char_of (48 + k :: nat) # t" by (rule itoa_hd)
  have "duration_parts fprod 0 (itoa n @ ''s'') = Some (n * 1000000000)"
    using assms duration_seconds [of n fprod] by (simp add: duration_parts.simps)
  moreover have "itoa n @ ''s'' \<noteq> ''0''" by (metis append_is_Nil_conv butlast.simps(2) butlast_append itoa_nonempty list.distinct(1))
  ultimately show ?thesis
    using assms k by (simp add: ParseDuration_def Let_def)
qed

lemma duration_parts_le: "duration_parts fprod d s = Some n \<Longrightarrow> d \<le> 2 ^ 63 \<Longrightarrow> n \<le> 2 ^ 63"
proof (induction fprod d s rule: duration_parts.induct)
  case (1 fprod d s)
  from 1(2) show ?case
    using 1(1,3) by (subst (asm) duration_parts.simps) (auto simp: Let_def not_less split: if_splits option.splits)
qed

lemma ParseDuration_range: "ParseDuration fprod s = Some d \<Longrightarrow> d < 2 ^ 63"
  by (auto simp: ParseDuration_def Let_def split: if_splits option.splits list.splits)

lemma parseDurationEnv_range: "0 < def \<Longrightarrow> def < 2 ^ 63 \<Longrightarrow> 0 < parseDurationEnv fprod v def \<and> parseDurationEnv fprod v def < 2 ^ 63"
  by (auto simp: parseDurationEnv_def Let_def split: option.splits dest: ParseDuration_range)

text \<open>The shift is a product as long as it fits.\<close>

lemma shl_int_small: "0 \<le> x \<Longrightarrow> x * 2 ^ n < 2 ^ 63 \<Longrightarrow> shl_int x n = x * 2 ^ n"
proof -
  assume x: "0 \<le> x" "x * 2 ^ n < 2 ^ 63"
  have "push_bit n (word_of_int x :: u64) = word_of_int (x * 2 ^ n)" by (simp add: push_bit_eq_mult)
  moreover have "sint (word_of_int y :: u64) = y" if "0 \<le> y" "y < 2 ^ 63" for y
    using that by (simp add: sint_sbintrunc' signed_take_bit_int_eq_self)
  ultimately have "shl_int x n = x * 2 ^ n" if "0 \<le> x * 2 ^ n" using x(2) that by (simp only: shl_int_def)
  then show ?thesis using x(1) by simp
qed

lemma Cap_new: "int (Cap (newChunkPool n)) = max 1024 ((if n < 512 then 67108864 else n) div 512)"
  by (auto simp: newChunkPool_def Cap_def Let_def chunkSize_def)

section \<open>Properties\<close>



end
