(* ===== verification/Config.thy ===== *)
theory Config
  imports Go_Strings
begin

text \<open>
  \<^verbatim>\<open>internal/config/config.go\<close>: plugin entries, defaults, the overrides from the environment and
  \<^verbatim>\<open>Load\<close>. The environment is a function from names to values (\<^verbatim>\<open>os.Getenv\<close>: the empty string when
  unset). The file and the YAML package are arguments of \<open>Load\<close>: what \<^verbatim>\<open>os.ReadFile\<close> returned, and
  what \<^verbatim>\<open>yaml.Unmarshal\<close> made of the defaults and whether it failed. A Go map that may be nil is an
  \<open>option\<close> of a map.
\<close>

section \<open>Data\<close>

datatype any = ANull | ABool bool | AInt int | AFloat string | AString string
  | AList "any list" | AMap "(string \<times> any) list"

type_synonym settings = "(string \<rightharpoonup> any) option"

record PluginEntry =
  eName :: string
  eDisabled :: bool
  eSettings :: settings
  ePath :: string
  eMode :: string

record Config =
  PluginDir :: string
  Processors :: "PluginEntry list"
  Sinks :: "PluginEntry list"
  SinkQueue :: int
  HTTPPort :: int

definition entry :: "string \<Rightarrow> bool \<Rightarrow> settings \<Rightarrow> string \<Rightarrow> PluginEntry" where
  "entry name disabled settings mode =
     \<lparr>eName = name, eDisabled = disabled, eSettings = settings, ePath = [], eMode = mode\<rparr>"

definition Default :: Config where
  "Default =
     \<lparr>PluginDir = ''/var/lib/clawguard/plugins'',
      Processors = [entry ''detect'' False None ''async'', entry ''mask'' True None ''sync''],
      Sinks = [entry ''file'' False (Some [''path'' \<mapsto> AString ''/var/log/clawguard/plaintext.jsonl'']) []],
      SinkQueue = 256, HTTPPort = 8080\<rparr>"

section \<open>Operations\<close>

definition EffectiveMode :: "PluginEntry \<Rightarrow> string" where
  "EffectiveMode e =
     (let m = ToLower (TrimSpace (eMode e))
      in if m = ''sync'' \<or> m = ''async'' then m
         else if eName e = ''detect'' then ''async''
         else if eName e = ''mask'' then ''sync''
         else ''sync'')"

definition normalizeProcessorModes :: "Config \<Rightarrow> Config" where
  "normalizeProcessorModes cfg = cfg\<lparr>Processors := map (\<lambda>e. e\<lparr>eMode := EffectiveMode e\<rparr>) (Processors cfg)\<rparr>"

text \<open>The loops return at the first entry of the name.\<close>

fun ensure_entry :: "PluginEntry list \<Rightarrow> string \<Rightarrow> (string \<rightharpoonup> any) \<Rightarrow> bool \<Rightarrow> PluginEntry list" where
  "ensure_entry [] name settings disabled = [entry name disabled (Some settings) []]"
| "ensure_entry (e # es) name settings disabled =
     (if eName e = name
      then let e = e\<lparr>eDisabled := disabled\<rparr>;
               e = (if eSettings e = None then e\<lparr>eSettings := Some Map.empty\<rparr> else e);
               e = e\<lparr>eSettings := map_option (\<lambda>m. m ++ settings) (eSettings e)\<rparr>
           in e # es
      else e # ensure_entry es name settings disabled)"

definition ensureSink :: "Config \<Rightarrow> string \<Rightarrow> (string \<rightharpoonup> any) \<Rightarrow> bool \<Rightarrow> Config" where
  "ensureSink cfg name settings disabled = cfg\<lparr>Sinks := ensure_entry (Sinks cfg) name settings disabled\<rparr>"

fun disable_entry :: "PluginEntry list \<Rightarrow> string \<Rightarrow> PluginEntry list" where
  "disable_entry [] name = []"
| "disable_entry (e # es) name =
     (if eName e = name then e\<lparr>eDisabled := True\<rparr> # es else e # disable_entry es name)"

definition disableSink :: "Config \<Rightarrow> string \<Rightarrow> Config" where
  "disableSink cfg name = cfg\<lparr>Sinks := disable_entry (Sinks cfg) name\<rparr>"

definition applyEnvOverrides :: "(string \<Rightarrow> string) \<Rightarrow> Config \<Rightarrow> Config" where
  "applyEnvOverrides env cfg =
     (let v = TrimSpace (env ''CLAWGUARD_PLUGIN_DIR'');
          cfg = (if v \<noteq> [] then cfg\<lparr>PluginDir := v\<rparr> else cfg);
          ep = TrimSpace (env ''OTEL_EXPORTER_OTLP_ENDPOINT'');
          cfg = (if ep \<noteq> [] then ensureSink cfg ''otel'' [''endpoint'' \<mapsto> AString ep] False else cfg);
          ui = TrimSpace (ToLower (env ''CLAWGUARD_DEBUG_UI''));
          cfg = (if ui \<in> {''0'', ''false'', ''off'', ''no''} then disableSink cfg ''debugws''
                 else if ui \<in> {''1'', ''true'', ''on'', ''yes''}
                      then ensureSink cfg ''debugws'' [''listen'' \<mapsto> AString '':8081''] False
                 else cfg);
          p = TrimSpace (env ''CLAWGUARD_PLAINTEXT_LOG'')
      in if p \<noteq> [] then ensureSink cfg ''file'' [''path'' \<mapsto> AString p] False else cfg)"

datatype file_result = FileContent string | FileNotExist | FileError

datatype load_error = LoadReadError | LoadParseError string

definition config_path :: "(string \<Rightarrow> string) \<Rightarrow> string \<Rightarrow> string" where
  "config_path env path =
     (let path = (if path = [] then TrimSpace (env ''CLAWGUARD_CONFIG'') else path)
      in if path = [] then ''/etc/clawguard/config.yaml'' else path)"

definition LoadConfig :: "(string \<Rightarrow> string) \<Rightarrow> (string \<Rightarrow> file_result) \<Rightarrow> (string \<Rightarrow> Config \<Rightarrow> Config \<times> bool) \<Rightarrow>
    string \<Rightarrow> Config \<times> load_error option" where
  "LoadConfig env readFile yaml path =
     (let cfg = Default; path = config_path env path
      in case readFile path of
           FileNotExist \<Rightarrow> (applyEnvOverrides env (normalizeProcessorModes cfg), None)
         | FileError \<Rightarrow> (cfg, Some LoadReadError)
         | FileContent b \<Rightarrow>
             let (cfg, failed) = yaml b cfg
             in if failed then (cfg, Some (LoadParseError path))
                else
                  let cfg = normalizeProcessorModes cfg;
                      cfg = (if SinkQueue cfg \<le> 0 then cfg\<lparr>SinkQueue := 256\<rparr> else cfg);
                      cfg = (if HTTPPort cfg \<le> 0 then cfg\<lparr>HTTPPort := 8080\<rparr> else cfg);
                      cfg = (if PluginDir cfg = [] then cfg\<lparr>PluginDir := ''/var/lib/clawguard/plugins''\<rparr> else cfg);
                      cfg = normalizeProcessorModes cfg
                  in (applyEnvOverrides env cfg, None))"

definition BinaryName :: "string \<Rightarrow> string \<Rightarrow> string" where
  "BinaryName kind name =
     (if kind = ''processor'' then ''clawguard-processor-'' @ name else ''clawguard-sink-'' @ name)"

section \<open>Modes\<close>

lemma EffectiveMode_cases: "EffectiveMode e = ''sync'' \<or> EffectiveMode e = ''async''"
  by (simp add: EffectiveMode_def Let_def)

lemma mode_words: "ToLower (TrimSpace ''sync'') = ''sync''" "ToLower (TrimSpace ''async'') = ''async''"
  by (simp_all add: TrimSpace_id space_free_def space_bytes_def ToLower_def lower_char_def)

lemma EffectiveMode_fixed:
  "eMode e = ''sync'' \<or> eMode e = ''async'' \<Longrightarrow> EffectiveMode e = eMode e"
  by (auto simp only: EffectiveMode_def mode_words Let_def if_True if_False simp_thms split: if_split)

lemma EffectiveMode_idem [simp]: "EffectiveMode (e\<lparr>eMode := EffectiveMode e\<rparr>) = EffectiveMode e"
  using EffectiveMode_fixed [of "e\<lparr>eMode := EffectiveMode e\<rparr>"] EffectiveMode_cases [of e] by simp

lemma normalize_idem: "normalizeProcessorModes (normalizeProcessorModes cfg) = normalizeProcessorModes cfg"
  by (simp add: normalizeProcessorModes_def)

lemma normalize_obs [simp]:
  "SinkQueue (normalizeProcessorModes cfg) = SinkQueue cfg" "HTTPPort (normalizeProcessorModes cfg) = HTTPPort cfg"
  "PluginDir (normalizeProcessorModes cfg) = PluginDir cfg" "Sinks (normalizeProcessorModes cfg) = Sinks cfg"
  by (simp_all add: normalizeProcessorModes_def)

definition modes_ok :: "Config \<Rightarrow> bool" where
  "modes_ok cfg \<longleftrightarrow> (\<forall>e \<in> set (Processors cfg). eMode e = ''sync'' \<or> eMode e = ''async'')"

lemma modes_ok_normalize [simp]: "modes_ok (normalizeProcessorModes cfg)"
  using EffectiveMode_cases by (auto simp: modes_ok_def normalizeProcessorModes_def)

section \<open>Sinks\<close>

definition find_sink :: "Config \<Rightarrow> string \<Rightarrow> PluginEntry option" where
  "find_sink cfg name = find (\<lambda>e. eName e = name) (Sinks cfg)"

lemma sinks_obs [simp]:
  "Processors (ensureSink cfg n st d) = Processors cfg" "Processors (disableSink cfg n) = Processors cfg"
  "PluginDir (ensureSink cfg n st d) = PluginDir cfg" "PluginDir (disableSink cfg n) = PluginDir cfg"
  "SinkQueue (ensureSink cfg n st d) = SinkQueue cfg" "SinkQueue (disableSink cfg n) = SinkQueue cfg"
  "HTTPPort (ensureSink cfg n st d) = HTTPPort cfg" "HTTPPort (disableSink cfg n) = HTTPPort cfg"
  by (simp_all add: ensureSink_def disableSink_def)

lemma find_ensure_entry:
  "find (\<lambda>e. eName e = n) (ensure_entry es name settings disabled) =
     (if n = name
      then Some (case find (\<lambda>e. eName e = n) es of
             None \<Rightarrow> entry name disabled (Some settings) []
           | Some e \<Rightarrow> e\<lparr>eDisabled := disabled, eSettings := Some ((case eSettings e of None \<Rightarrow> Map.empty | Some m \<Rightarrow> m) ++ settings)\<rparr>)
      else find (\<lambda>e. eName e = n) es)"
  by (induction es) (auto simp: entry_def Let_def split: option.splits)

lemma find_sink_ensure:
  "find_sink (ensureSink cfg name settings disabled) n =
     (if n = name
      then Some (case find_sink cfg n of
             None \<Rightarrow> entry name disabled (Some settings) []
           | Some e \<Rightarrow> e\<lparr>eDisabled := disabled, eSettings := Some ((case eSettings e of None \<Rightarrow> Map.empty | Some m \<Rightarrow> m) ++ settings)\<rparr>)
      else find_sink cfg n)"
  by (simp add: find_sink_def ensureSink_def find_ensure_entry)

lemma find_sink_disable:
  "find_sink (disableSink cfg name) n =
     (if n = name then map_option (\<lambda>e. e\<lparr>eDisabled := True\<rparr>) (find_sink cfg n) else find_sink cfg n)"
proof -
  have "find (\<lambda>e. eName e = n) (disable_entry es name) =
      (if n = name then map_option (\<lambda>e. e\<lparr>eDisabled := True\<rparr>) (find (\<lambda>e. eName e = n) es) else find (\<lambda>e. eName e = n) es)" for es
    by (induction es) auto
  then show ?thesis by (simp add: find_sink_def disableSink_def)
qed

text \<open>No operation lists a sink name twice.\<close>

definition sinks_distinct :: "Config \<Rightarrow> bool" where
  "sinks_distinct cfg \<longleftrightarrow> distinct (map eName (Sinks cfg))"

lemma ensure_names: "map eName (ensure_entry es n st d) = (if n \<in> eName ` set es then map eName es else map eName es @ [n])"
  by (induction es) (auto simp: entry_def Let_def)

lemma sinks_distinct_ensure: "sinks_distinct cfg \<Longrightarrow> sinks_distinct (ensureSink cfg n st d)"
  by (auto simp: sinks_distinct_def ensureSink_def ensure_names)

lemma sinks_distinct_disable: "sinks_distinct cfg \<Longrightarrow> sinks_distinct (disableSink cfg n)"
proof -
  have "map eName (disable_entry es n) = map eName es" for es
    by (induction es) auto
  then show "sinks_distinct cfg \<Longrightarrow> sinks_distinct (disableSink cfg n)"
    by (simp add: sinks_distinct_def disableSink_def)
qed

text \<open>The overrides as a sequence of three sink updates.\<close>

definition env_otel :: "(string \<Rightarrow> string) \<Rightarrow> Config \<Rightarrow> Config" where
  "env_otel env cfg =
     (let ep = TrimSpace (env ''OTEL_EXPORTER_OTLP_ENDPOINT'')
      in if ep \<noteq> [] then ensureSink cfg ''otel'' [''endpoint'' \<mapsto> AString ep] False else cfg)"

definition env_debug :: "(string \<Rightarrow> string) \<Rightarrow> Config \<Rightarrow> Config" where
  "env_debug env cfg =
     (let ui = TrimSpace (ToLower (env ''CLAWGUARD_DEBUG_UI''))
      in if ui \<in> {''0'', ''false'', ''off'', ''no''} then disableSink cfg ''debugws''
         else if ui \<in> {''1'', ''true'', ''on'', ''yes''}
              then ensureSink cfg ''debugws'' [''listen'' \<mapsto> AString '':8081''] False
         else cfg)"

definition env_file :: "(string \<Rightarrow> string) \<Rightarrow> Config \<Rightarrow> Config" where
  "env_file env cfg =
     (let p = TrimSpace (env ''CLAWGUARD_PLAINTEXT_LOG'')
      in if p \<noteq> [] then ensureSink cfg ''file'' [''path'' \<mapsto> AString p] False else cfg)"

definition env_dir :: "(string \<Rightarrow> string) \<Rightarrow> Config \<Rightarrow> Config" where
  "env_dir env cfg =
     (let v = TrimSpace (env ''CLAWGUARD_PLUGIN_DIR'') in if v \<noteq> [] then cfg\<lparr>PluginDir := v\<rparr> else cfg)"

lemma applyEnv_steps: "applyEnvOverrides env cfg = env_file env (env_debug env (env_otel env (env_dir env cfg)))"
  unfolding applyEnvOverrides_def env_file_def env_debug_def env_otel_def env_dir_def Let_def by (rule refl)

definition sink_update :: "Config \<Rightarrow> Config \<Rightarrow> bool" where
  "sink_update cfg cfg' \<longleftrightarrow> cfg' = cfg \<or> (\<exists>n. cfg' = disableSink cfg n) \<or> (\<exists>n st d. cfg' = ensureSink cfg n st d)"

lemma env_steps_update:
  "sink_update cfg (env_file env cfg)" "sink_update cfg (env_debug env cfg)" "sink_update cfg (env_otel env cfg)"
  unfolding env_file_def env_debug_def env_otel_def Let_def sink_update_def
  by (simp_all only: split: if_split) blast+

lemma sink_update_keeps:
  assumes "sink_update cfg cfg'"
  shows "Processors cfg' = Processors cfg" "SinkQueue cfg' = SinkQueue cfg" "HTTPPort cfg' = HTTPPort cfg"
    "PluginDir cfg' = PluginDir cfg" "sinks_distinct cfg \<Longrightarrow> sinks_distinct cfg'"
  using assms sinks_distinct_ensure sinks_distinct_disable by (auto simp: sink_update_def)

lemma env_dir_keeps:
  "Processors (env_dir env cfg) = Processors cfg" "SinkQueue (env_dir env cfg) = SinkQueue cfg"
  "HTTPPort (env_dir env cfg) = HTTPPort cfg" "Sinks (env_dir env cfg) = Sinks cfg"
  by (simp_all add: env_dir_def Let_def)

lemmas env_updates = env_steps_update [THEN sink_update_keeps(1)] env_steps_update [THEN sink_update_keeps(2)]
  env_steps_update [THEN sink_update_keeps(3)] env_steps_update [THEN sink_update_keeps(4)]

lemma applyEnv_keeps:
  "Processors (applyEnvOverrides env cfg) = Processors cfg" "SinkQueue (applyEnvOverrides env cfg) = SinkQueue cfg"
  "HTTPPort (applyEnvOverrides env cfg) = HTTPPort cfg"
  by (simp_all add: applyEnv_steps env_updates env_dir_keeps)

lemma applyEnv_distinct: "sinks_distinct cfg \<Longrightarrow> sinks_distinct (applyEnvOverrides env cfg)"
  unfolding applyEnv_steps
  by (intro env_steps_update [THEN sink_update_keeps(5)]) (simp add: sinks_distinct_def env_dir_keeps)

lemma applyEnv_dir: "PluginDir cfg \<noteq> [] \<Longrightarrow> PluginDir (applyEnvOverrides env cfg) \<noteq> []"
  by (simp add: applyEnv_steps env_updates env_dir_def Let_def)

section \<open>Load\<close>

lemma Default_ok: "0 < SinkQueue Default" "0 < HTTPPort Default" "PluginDir Default \<noteq> []" "sinks_distinct Default"
  by (simp_all add: Default_def sinks_distinct_def)

lemma LoadConfig_cases:
  assumes "LoadConfig env readFile yaml path = (cfg, None)"
  obtains c where "cfg = applyEnvOverrides env c" and "modes_ok c" and "0 < SinkQueue c" and "0 < HTTPPort c"
    and "PluginDir c \<noteq> []"
  using assms
proof (cases "readFile (config_path env path)")
  case (FileContent b)
  obtain c failed where y: "yaml b Default = (c, failed)" by fastforce
  define c1 where "c1 = normalizeProcessorModes c"
  define c2 where "c2 = (if SinkQueue c1 \<le> 0 then c1\<lparr>SinkQueue := 256\<rparr> else c1)"
  define c3 where "c3 = (if HTTPPort c2 \<le> 0 then c2\<lparr>HTTPPort := 8080\<rparr> else c2)"
  define c4 where "c4 = (if PluginDir c3 = [] then c3\<lparr>PluginDir := ''/var/lib/clawguard/plugins''\<rparr> else c3)"
  have c: "0 < SinkQueue c4" "0 < HTTPPort c4" "PluginDir c4 \<noteq> []"
    by (simp_all add: c4_def c3_def c2_def)
  have "cfg = applyEnvOverrides env (normalizeProcessorModes c4)"
    using assms FileContent y
    by (simp only: LoadConfig_def Let_def file_result.simps prod.case c1_def [symmetric] c2_def [symmetric]
        c3_def [symmetric] c4_def [symmetric] split: if_splits) simp_all
  then show thesis
    using c by (intro that [of "normalizeProcessorModes c4"]) simp_all
next
  case FileNotExist
  then show thesis
    using assms Default_ok by (intro that [of "normalizeProcessorModes Default"]) (simp_all add: LoadConfig_def)
qed (simp add: LoadConfig_def)

section \<open>Properties\<close>

text \<open>C40: A configuration that loads has positive queue size and port, a plugin directory, and every
  processor's mode is one of the two words the plugin manager compares with.\<close>

theorem load_config_valid:
  assumes "LoadConfig env readFile yaml path = (cfg, None)"
  shows "0 < SinkQueue cfg \<and> 0 < HTTPPort cfg \<and> PluginDir cfg \<noteq> [] \<and>
    (\<forall>e \<in> set (Processors cfg). eMode e = ''sync'' \<or> eMode e = ''async'')"
proof -
  from assms obtain c where c: "cfg = applyEnvOverrides env c" "modes_ok c" "0 < SinkQueue c" "0 < HTTPPort c" "PluginDir c \<noteq> []"
    by (rule LoadConfig_cases)
  show ?thesis
    using c(2-4) applyEnv_dir [OF c(5), of env] by (simp add: c(1) applyEnv_keeps modes_ok_def)
qed

theorem load_config_valid_witness:
  "0 < SinkQueue (fst (LoadConfig (\<lambda>_. []) (\<lambda>_. FileContent ''x'') (\<lambda>b cfg. (cfg\<lparr>SinkQueue := -5, PluginDir := []\<rparr>, False)) ''a.yaml''))"
proof -
  let ?r = "LoadConfig (\<lambda>_. []) (\<lambda>_. FileContent ''x'') (\<lambda>b cfg. (cfg\<lparr>SinkQueue := -5, PluginDir := []\<rparr>, False)) ''a.yaml''"
  have "snd ?r = None" by (simp add: LoadConfig_def Let_def)
  then have "?r = (fst ?r, None)" by (metis prod.collapse)
  from load_config_valid [OF this] show ?thesis by blast
qed

text \<open>Setting the plaintext log path in the environment wins over the file: the file sink is then
  present, enabled and has that path, whatever the configuration said.\<close>

theorem plaintext_log_override:
  assumes "LoadConfig env readFile yaml path = (cfg, None)" and "TrimSpace (env ''CLAWGUARD_PLAINTEXT_LOG'') = p" and "p \<noteq> []"
  shows "\<exists>e m. find_sink cfg ''file'' = Some e \<and> \<not> eDisabled e \<and> eSettings e = Some m \<and> m ''path'' = Some (AString p)"
proof -
  from assms(1) obtain c where "cfg = applyEnvOverrides env c"
    by (rule LoadConfig_cases)
  then have "cfg = ensureSink (env_debug env (env_otel env (env_dir env c))) ''file'' [''path'' \<mapsto> AString p] False"
    using assms(2,3) by (simp add: applyEnv_steps env_file_def)
  then show ?thesis
    by (auto simp: find_sink_ensure entry_def split: option.split)
qed

theorem plaintext_log_override_witness:
  "\<exists>e m. find_sink (fst (LoadConfig (\<lambda>v. if v = ''CLAWGUARD_PLAINTEXT_LOG'' then ''out.jsonl'' else []) (\<lambda>_. FileNotExist)
     (\<lambda>b cfg. (cfg, True)) ''a.yaml'')) ''file'' = Some e \<and> \<not> eDisabled e \<and> eSettings e = Some m \<and> m ''path'' = Some (AString ''out.jsonl'')"
proof -
  let ?env = "\<lambda>v. if v = ''CLAWGUARD_PLAINTEXT_LOG'' then ''out.jsonl'' else []"
  let ?r = "LoadConfig ?env (\<lambda>_. FileNotExist) (\<lambda>b cfg. (cfg, True)) ''a.yaml''"
  have "snd ?r = None" by (simp add: LoadConfig_def Let_def)
  then have r: "?r = (fst ?r, None)" by (metis prod.collapse)
  have t: "TrimSpace (?env ''CLAWGUARD_PLAINTEXT_LOG'') = ''out.jsonl''"
    by (simp add: TrimSpace_id space_free_def space_bytes_def)
  show ?thesis
    using plaintext_log_override [OF r t] by simp
qed

end
