(* ===== verification/Frames.thy ===== *)
theory Frames
  imports Event Config
begin

text \<open>
  \<^verbatim>\<open>api/plugin/v1/protocol.go\<close>: the messages between host and plugin and their frames, a length of
  four bytes, most significant first, before the JSON text. JSON texts are byte lists; the functions
  of \<^verbatim>\<open>encoding/json\<close> on the message types are a record of functions, \<open>codec\<close>, that the operations
  take as an argument. A writer is what it has accepted so far and, where it fails, after how many
  bytes; a reader is the bytes that will arrive before the end of the stream.
\<close>

section \<open>Messages\<close>

definition APIVersion :: string where
  "APIVersion = ''1''"

definition MethodInfo :: string where
  "MethodInfo = ''info''"

definition MethodConfigure :: string where
  "MethodConfigure = ''configure''"

definition MethodProcess :: string where
  "MethodProcess = ''process''"

definition MethodEmit :: string where
  "MethodEmit = ''emit''"

definition MethodClose :: string where
  "MethodClose = ''close''"

record Request =
  rqID :: u64
  rqMethod :: string
  rqParams :: bytes

record Response =
  rsID :: u64
  rsOK :: bool
  rsError :: string
  rsResult :: bytes

record PluginInfo =
  piName :: string
  piKind :: string
  piVersion :: string
  piCommit :: string
  piBuildTime :: string
  piAPIVersion :: string

type_synonym PluginConfig = settings

type_synonym Status = string

text \<open>\<^verbatim>\<open>json.Marshal\<close> and \<^verbatim>\<open>json.Unmarshal\<close> on each type; \<open>None\<close> is an error, whose text the last two
  fields give for the name of a type.\<close>

record codec =
  encRequest :: "Request \<Rightarrow> bytes option"
  decRequest :: "bytes \<Rightarrow> Request option"
  encResponse :: "Response \<Rightarrow> bytes option"
  decResponse :: "bytes \<Rightarrow> Response option"
  encInfo :: "PluginInfo \<Rightarrow> bytes option"
  decInfo :: "bytes \<Rightarrow> PluginInfo option"
  encConfig :: "PluginConfig \<Rightarrow> bytes option"
  decConfig :: "bytes \<Rightarrow> PluginConfig option"
  encEvent :: "CaptureEvent \<Rightarrow> bytes option"
  decEvent :: "bytes \<Rightarrow> CaptureEvent option"
  encStatus :: "Status \<Rightarrow> bytes option"
  decStatus :: "bytes \<Rightarrow> Status option"
  decErrorText :: "string \<Rightarrow> bytes \<Rightarrow> string"
  encErrorText :: "string \<Rightarrow> string"

section \<open>Frames\<close>

record writer =
  wrOut :: bytes
  wrLimit :: "nat option"

definition Write :: "writer \<Rightarrow> bytes \<Rightarrow> writer \<times> bool" where
  "Write w bs =
     (case wrLimit w of
        None \<Rightarrow> (w\<lparr>wrOut := wrOut w @ bs\<rparr>, True)
      | Some n \<Rightarrow> (w\<lparr>wrOut := wrOut w @ take n bs, wrLimit := Some (n - length bs)\<rparr>, length bs \<le> n))"

text \<open>The argument is the result of marshalling; the flag tells that there was no error.\<close>

definition WriteMessage :: "writer \<Rightarrow> bytes option \<Rightarrow> writer \<times> bool" where
  "WriteMessage w b =
     (case b of
        None \<Rightarrow> (w, False)
      | Some b \<Rightarrow>
          let (w, ok) = Write w (put_be32 (word_of_nat (length b)))
          in if \<not> ok then (w, False) else Write w b)"

datatype read_error = EOF | UnexpectedEOF | InvalidFrameLength u32 | BadJSON

definition maxFrame :: u32 where
  "maxFrame = push_bit 20 256"

definition ReadFull :: "nat \<Rightarrow> bytes \<Rightarrow> read_error + bytes \<times> bytes" where
  "ReadFull n r =
     (if n \<le> length r then Inr (take n r, drop n r) else Inl (if r = [] then EOF else UnexpectedEOF))"

definition Uint32 :: "bytes \<Rightarrow> u32" where
  "Uint32 hdr = get_be32 (hdr ! 0) (hdr ! 1) (hdr ! 2) (hdr ! 3)"

definition ReadMessage :: "(bytes \<Rightarrow> 'a option) \<Rightarrow> bytes \<Rightarrow> read_error + 'a \<times> bytes" where
  "ReadMessage unmarshal r =
     (case ReadFull 4 r of
        Inl e \<Rightarrow> Inl e
      | Inr (hdr, r) \<Rightarrow>
          let n = Uint32 hdr
          in if n = 0 \<or> maxFrame < n then Inl (InvalidFrameLength n)
             else case ReadFull (unat n) r of
                    Inl e \<Rightarrow> Inl e
                  | Inr (buf, r) \<Rightarrow>
                      (case unmarshal buf of None \<Rightarrow> Inl BadJSON | Some v \<Rightarrow> Inr (v, r)))"

definition MarshalParams :: "('a \<Rightarrow> bytes option) \<Rightarrow> 'a option \<Rightarrow> bytes option" where
  "MarshalParams marshal v = (case v of None \<Rightarrow> Some [] | Some v \<Rightarrow> marshal v)"

text \<open>\<open>old\<close> is the value of the destination before the call.\<close>

definition UnmarshalResult :: "(bytes \<Rightarrow> 'a option) \<Rightarrow> bytes \<Rightarrow> 'a \<Rightarrow> 'a option" where
  "UnmarshalResult unmarshal raw old = (if raw = [] then Some old else unmarshal raw)"

section \<open>Lemmas\<close>

definition frame :: "bytes \<Rightarrow> bytes" where
  "frame b = put_be32 (word_of_nat (length b)) @ b"

definition frame_fits :: "bytes \<Rightarrow> bool" where
  "frame_fits b \<longleftrightarrow> b \<noteq> [] \<and> length b \<le> 268435456"

lemma WriteMessage_Some:
  "wrLimit w = None \<Longrightarrow> WriteMessage w (Some b) = (w\<lparr>wrOut := wrOut w @ frame b\<rparr>, True)"
  by (simp add: WriteMessage_def Write_def frame_def)

lemma WriteMessage_prefix:
  assumes "WriteMessage w b = (w', ok)"
  shows "\<exists>n. wrOut w' = wrOut w @ take n (case b of None \<Rightarrow> [] | Some b \<Rightarrow> frame b)"
    and "ok \<Longrightarrow> \<exists>m. b = Some m \<and> wrOut w' = wrOut w @ frame m"
proof -
  have "(\<exists>n. wrOut w' = wrOut w @ take n (case b of None \<Rightarrow> [] | Some b \<Rightarrow> frame b)) \<and>
      (ok \<longrightarrow> (\<exists>m. b = Some m \<and> wrOut w' = wrOut w @ frame m))"
  proof (cases b)
    case None
    then show ?thesis using assms by (simp add: WriteMessage_def)
  next
    case (Some m)
    show ?thesis
    proof (cases "wrLimit w")
      case None
      then show ?thesis
        using assms Some WriteMessage_Some [OF None, of m] by (auto intro!: exI [of _ "length (frame m)"])
    next
      case (Some n)
      then show ?thesis
        using assms \<open>b = Some m\<close>
        by (auto simp: WriteMessage_def Write_def frame_def Let_def intro!: exI [of _ n] split: if_splits)
    qed
  qed
  then show "\<exists>n. wrOut w' = wrOut w @ take n (case b of None \<Rightarrow> [] | Some b \<Rightarrow> frame b)"
    and "ok \<Longrightarrow> \<exists>m. b = Some m \<and> wrOut w' = wrOut w @ frame m" by blast+
qed

lemma get_put_be32:
  "Uint32 (put_be32 v) = v"
  by (simp add: Uint32_def get_be32_def put_be32_def put_le32_def get_put_le32_bytes)

lemma maxFrame_nat: "unat maxFrame = 268435456"
  by (simp add: maxFrame_def)

lemma ReadFull_append [simp]: "length xs = n \<Longrightarrow> ReadFull n (xs @ rest) = Inr (xs, rest)"
  by (simp add: ReadFull_def)

lemma frame_length_word:
  assumes "frame_fits b"
  shows "unat (word_of_nat (length b) :: u32) = length b" "(word_of_nat (length b) :: u32) \<noteq> 0"
    "\<not> maxFrame < word_of_nat (length b)"
proof -
  have lt: "length b < 2 ^ 32" using assms by (simp add: frame_fits_def)
  then show un: "unat (word_of_nat (length b) :: u32) = length b"
    by (simp add: unat_of_nat take_bit_nat_eq_self)
  show "(word_of_nat (length b) :: u32) \<noteq> 0"
  proof
    assume "(word_of_nat (length b) :: u32) = 0"
    then have "unat (word_of_nat (length b) :: u32) = 0" by simp
    then show False using un assms by (simp add: frame_fits_def)
  qed
  show "\<not> maxFrame < word_of_nat (length b)"
    using assms un by (simp add: word_less_nat_alt maxFrame_nat frame_fits_def)
qed

lemma ReadMessage_frame:
  assumes "frame_fits b"
  shows "ReadMessage unmarshal (frame b @ rest) =
    (case unmarshal b of None \<Rightarrow> Inl BadJSON | Some v \<Rightarrow> Inr (v, rest))"
  using frame_length_word [OF assms]
  by (simp add: ReadMessage_def frame_def get_put_be32)

lemma ReadFull_cases:
  "ReadFull n r = Inr (x, rest) \<longleftrightarrow> r = x @ rest \<and> length x = n"
  "ReadFull n r = Inl e \<longleftrightarrow> length r < n \<and> e = (if r = [] then EOF else UnexpectedEOF)"
  by (auto simp: ReadFull_def)

text \<open>A message that was read was framed, and takes at least five bytes.\<close>

lemma ReadMessage_Inr:
  assumes "ReadMessage unmarshal r = Inr (v, rest)"
  obtains b where "r = frame b @ rest" and "frame_fits b" and "unmarshal b = Some v"
proof -
  obtain hdr r1 where h: "ReadFull 4 r = Inr (hdr, r1)"
    using assms by (cases "ReadFull 4 r") (auto simp: ReadMessage_def)
  define n where "n = Uint32 hdr"
  have n: "n \<noteq> 0" "\<not> maxFrame < n"
    using assms h by (auto simp: ReadMessage_def n_def Let_def split: if_splits)
  obtain buf where b: "ReadFull (unat n) r1 = Inr (buf, rest)" "unmarshal buf = Some v"
    using assms h n by (auto simp: ReadMessage_def n_def [symmetric] Let_def split: sum.splits option.splits)
  have r: "r = hdr @ buf @ rest" "length hdr = 4" "length buf = unat n"
    using h b by (auto simp: ReadFull_cases)
  then obtain a0 a1 a2 a3 where hdr: "hdr = [a0, a1, a2, a3]"
    by (auto simp: numeral_eq_Suc length_Suc_conv)
  have "put_be32 n = hdr"
    by (simp add: n_def hdr Uint32_def get_be32_def put_be32_def put_get_le32)
  moreover have "word_of_nat (length buf) = n" using r(3) by simp
  ultimately have "r = frame buf @ rest" using r(1) by (simp add: frame_def)
  moreover have "frame_fits buf"
    using n r(3) by (auto simp: frame_fits_def word_less_nat_alt maxFrame_nat unat_eq_0)
  ultimately show thesis using b(2) that by blast
qed

lemma length_frame [simp]: "length (frame b) = length b + 4"
  by (simp add: frame_def)

section \<open>Streams of messages\<close>

definition write_all :: "bytes list \<Rightarrow> writer \<Rightarrow> writer" where
  "write_all bs w = fold (\<lambda>b w. fst (WriteMessage w (Some b))) bs w"

fun read_all :: "(bytes \<Rightarrow> 'a option) \<Rightarrow> nat \<Rightarrow> bytes \<Rightarrow> ('a list \<times> bytes) option" where
  "read_all unmarshal 0 r = Some ([], r)"
| "read_all unmarshal (Suc n) r =
     (case ReadMessage unmarshal r of
        Inl _ \<Rightarrow> None
      | Inr (v, rest) \<Rightarrow> map_option (\<lambda>(vs, rest). (v # vs, rest)) (read_all unmarshal n rest))"

lemma write_all_frames:
  "wrLimit w = None \<Longrightarrow> write_all bs w = w\<lparr>wrOut := wrOut w @ concat (map frame bs)\<rparr>"
  by (induction bs arbitrary: w) (simp_all add: write_all_def WriteMessage_Some)

section \<open>Properties\<close>



text \<open>C34: No message is ever made of a part of a frame: a message that was read came from one whole
  frame of at most 256 MiB at the start of the stream, a frame announcing no bytes or more than that is
  refused, and a stream that ends early is an error.\<close>

theorem read_message_sound:
  "(\<forall>v rest. ReadMessage unmarshal r = Inr (v, rest) \<longrightarrow>
      (\<exists>b. r = put_be32 (word_of_nat (length b)) @ b @ rest \<and> b \<noteq> [] \<and> length b \<le> 268435456 \<and> unmarshal b = Some v)) \<and>
   (\<forall>n. ReadMessage unmarshal r = Inl (InvalidFrameLength n) \<longleftrightarrow>
      4 \<le> length r \<and> n = Uint32 (take 4 r) \<and> (n = 0 \<or> 268435456 < unat n)) \<and>
   (length r < 4 \<longrightarrow> ReadMessage unmarshal r = Inl (if r = [] then EOF else UnexpectedEOF))"
proof (intro conjI allI impI)
  fix v rest assume "ReadMessage unmarshal r = Inr (v, rest)"
  then obtain b where "r = frame b @ rest" "frame_fits b" "unmarshal b = Some v"
    by (rule ReadMessage_Inr)
  then show "\<exists>b. r = put_be32 (word_of_nat (length b)) @ b @ rest \<and> b \<noteq> [] \<and> length b \<le> 268435456 \<and> unmarshal b = Some v"
    by (auto simp: frame_def frame_fits_def)
next
  fix n show "ReadMessage unmarshal r = Inl (InvalidFrameLength n) \<longleftrightarrow>
      4 \<le> length r \<and> n = Uint32 (take 4 r) \<and> (n = 0 \<or> 268435456 < unat n)"
    by (auto simp: ReadMessage_def ReadFull_def Let_def word_less_nat_alt maxFrame_nat split: option.splits)
qed (auto simp: ReadMessage_def ReadFull_def)

theorem read_message_sound_witness:
  "ReadMessage Some [0, 0, 1 :: u8] = Inl UnexpectedEOF \<and>
   ReadMessage Some [0, 0, 0, 0 :: u8] = Inl (InvalidFrameLength 0)"
  using read_message_sound [of Some "[0, 0, 1]"] read_message_sound [of Some "[0, 0, 0, 0]"]
  by (simp add: Uint32_def get_be32_def get_le32_def)

end
