(* ===== verification/Processors.thy ===== *)
theory Processors
  imports Event
begin

text \<open>
  The two processor plugins, \<^verbatim>\<open>cmd/clawguard-processor-detect\<close> and \<^verbatim>\<open>cmd/clawguard-processor-mask\<close>.
  Both search the payload for the regular expression \<^verbatim>\<open>apiKeyLike\<close>; its matcher is written out here.
  The expression is case-insensitive in the sense of Unicode simple folding: \<^verbatim>\<open>s\<close> and \<^verbatim>\<open>k\<close> also match
  U+017F and U+212A, whose encodings are the only sequences above ASCII that can be part of a match.
  Its character classes are pairwise disjoint where one repetition follows another, so that the
  greedy match is the only one. \<^verbatim>\<open>FindAllIndex\<close> scans for matches from left to right.
\<close>

section \<open>The expression\<close>

text \<open>The next rune, where it can be part of a match.\<close>

fun next_rune :: "bytes \<Rightarrow> (nat \<times> bytes) option" where
  "next_rune [] = None"
| "next_rune (b # bs) =
     (if b < 128 then Some (unat b, bs)
      else if b = 0xC5 \<and> take 1 bs = [0xBF] then Some (0x17F, drop 1 bs)
      else if b = 0xE2 \<and> take 2 bs = [0x84, 0xAA] then Some (0x212A, drop 2 bs)
      else None)"

definition code :: "char \<Rightarrow> nat" where
  "code c = of_char c"

definition rune_in :: "string \<Rightarrow> nat \<Rightarrow> bool" where
  "rune_in cs r \<longleftrightarrow> r \<in> code ` set cs"

text \<open>A letter of the expression against a rune: both cases, and the two special folds.\<close>

definition folds_to :: "char \<Rightarrow> nat \<Rightarrow> bool" where
  "folds_to c r \<longleftrightarrow> r = code c \<or> code c \<in> {97..122} \<and> r + 32 = code c \<or>
     c = CHR ''s'' \<and> r = 0x17F \<or> c = CHR ''k'' \<and> r = 0x212A"

definition alnum :: "nat \<Rightarrow> bool" where
  "alnum r \<longleftrightarrow> 97 \<le> r \<and> r \<le> 122 \<or> 65 \<le> r \<and> r \<le> 90 \<or> 48 \<le> r \<and> r \<le> 57 \<or> r = 0x17F \<or> r = 0x212A"

definition ident :: "nat \<Rightarrow> bool" where
  "ident r \<longleftrightarrow> alnum r \<or> r = 95 \<or> r = 45"

definition separator :: "nat \<Rightarrow> bool" where
  "separator r \<longleftrightarrow> r \<in> {34, 9, 10, 12, 13, 32, 58, 61}"

definition match_rune :: "(nat \<Rightarrow> bool) \<Rightarrow> bytes \<Rightarrow> bytes option" where
  "match_rune P bs = (case next_rune bs of None \<Rightarrow> None | Some (r, rest) \<Rightarrow> if P r then Some rest else None)"

fun match_lits :: "string \<Rightarrow> bytes \<Rightarrow> bytes option" where
  "match_lits [] bs = Some bs"
| "match_lits (c # cs) bs = (case match_rune (folds_to c) bs of None \<Rightarrow> None | Some rest \<Rightarrow> match_lits cs rest)"

lemma next_rune_shorter: "next_rune bs = Some (r, rest) \<Longrightarrow> length rest < length bs"
  by (cases bs) (auto split: if_splits)

lemma match_rune_shorter: "match_rune P bs = Some rest \<Longrightarrow> length rest < length bs"
  by (auto simp: match_rune_def dest: next_rune_shorter split: option.splits if_splits)

text \<open>As many runes of a class as there are: their number and what follows.\<close>

function match_run :: "(nat \<Rightarrow> bool) \<Rightarrow> bytes \<Rightarrow> nat \<times> bytes" where
  "match_run P bs =
     (case match_rune P bs of
        None \<Rightarrow> (0, bs)
      | Some rest \<Rightarrow> let (n, r) = match_run P rest in (Suc n, r))"
  by pat_completeness auto
termination
  by (relation "measure (\<lambda>(P, bs). length bs)") (auto dest: match_rune_shorter)

declare match_run.simps [simp del]

definition match_sk :: "bytes \<Rightarrow> bytes option" where
  "match_sk bs =
     (case match_lits ''sk-'' bs of
        None \<Rightarrow> None
      | Some rest \<Rightarrow> let (n, rest) = match_run alnum rest in if 16 \<le> n then Some rest else None)"

definition match_optional :: "(nat \<Rightarrow> bool) \<Rightarrow> bytes \<Rightarrow> bytes" where
  "match_optional P bs = (case match_rune P bs of None \<Rightarrow> bs | Some rest \<Rightarrow> rest)"

definition match_api :: "bytes \<Rightarrow> bytes option" where
  "match_api bs =
     (case match_lits ''api'' bs of
        None \<Rightarrow> None
      | Some rest \<Rightarrow>
          (case match_lits ''key'' (match_optional (rune_in ''_-'') rest) of
             None \<Rightarrow> None
           | Some rest \<Rightarrow>
               let (m, rest) = match_run separator rest
               in if m = 0 then None
                  else let (n, rest) = match_run ident rest in if 8 \<le> n then Some rest else None))"

definition apiKeyLike :: "bytes \<Rightarrow> bytes option" where
  "apiKeyLike bs = (case match_sk bs of Some rest \<Rightarrow> Some rest | None \<Rightarrow> match_api bs)"

subsection \<open>Matches consume bytes\<close>

lemma match_lits_length: "match_lits cs bs = Some rest \<Longrightarrow> length rest + length cs \<le> length bs"
  by (induction cs bs rule: match_lits.induct) (auto dest: match_rune_shorter split: option.splits)

lemma match_run_length: "match_run P bs = (n, rest) \<Longrightarrow> length rest + n \<le> length bs"
proof (induction P bs arbitrary: n rest rule: match_run.induct)
  case (1 P bs)
  then show ?case
    by (subst (asm) (2) match_run.simps)
      (fastforce dest: match_rune_shorter split: option.splits prod.splits)
qed

lemma match_optional_length: "length (match_optional P bs) \<le> length bs"
  by (auto simp: match_optional_def dest: match_rune_shorter split: option.splits)

lemma match_sk_shorter:
  assumes "match_sk bs = Some rest"
  shows "length rest < length bs"
proof -
  obtain r n where r: "match_lits ''sk-'' bs = Some r" "match_run alnum r = (n, rest)"
    using assms by (auto simp: match_sk_def simp del: match_lits.simps split: option.splits prod.splits if_splits)
  then show ?thesis
    using match_lits_length [OF r(1)] match_run_length [OF r(2)] by simp
qed

lemma match_api_parts:
  assumes "match_api bs = Some rest"
  obtains r1 r2 r3 m n where "match_lits ''api'' bs = Some r1"
    and "match_lits ''key'' (match_optional (rune_in ''_-'') r1) = Some r2"
    and "match_run separator r2 = (m, r3)" and "0 < m" and "match_run ident r3 = (n, rest)" and "8 \<le> n"
  using assms
  by (auto simp: match_api_def Let_def simp del: match_lits.simps split: option.splits prod.splits if_splits)

lemma match_api_shorter:
  assumes "match_api bs = Some rest"
  shows "length rest < length bs"
proof -
  obtain r1 r2 r3 m n where r: "match_lits ''api'' bs = Some r1"
    "match_lits ''key'' (match_optional (rune_in ''_-'') r1) = Some r2"
    "match_run separator r2 = (m, r3)" "0 < m" "match_run ident r3 = (n, rest)"
    by (rule match_api_parts [OF assms])
  show ?thesis
    using match_lits_length [OF r(1)] match_optional_length [of "rune_in ''_-''" r1] match_lits_length [OF r(2)]
      match_run_length [OF r(3)] match_run_length [OF r(5)] by simp
qed

lemma apiKeyLike_shorter: "apiKeyLike bs = Some rest \<Longrightarrow> length rest < length bs"
  by (auto simp: apiKeyLike_def dest: match_sk_shorter match_api_shorter split: option.splits)

function find_matches :: "nat \<Rightarrow> bytes \<Rightarrow> (nat \<times> nat) list" where
  "find_matches pos bs =
     (if bs = [] then []
      else case apiKeyLike bs of
             None \<Rightarrow> find_matches (pos + 1) (tl bs)
           | Some rest \<Rightarrow>
               let n = length bs - length rest in (pos, pos + n) # find_matches (pos + n) rest)"
  by pat_completeness auto
termination
  by (relation "measure (\<lambda>(pos, bs). length bs)") (auto dest: apiKeyLike_shorter)

declare find_matches.simps [simp del]

definition FindAllIndex :: "bytes \<Rightarrow> (nat \<times> nat) list" where
  "FindAllIndex bs = find_matches 0 bs"

section \<open>Detect\<close>

definition go_string :: "bytes \<Rightarrow> string" where
  "go_string bs = map (\<lambda>b. char_of (unat b)) bs"

definition ellipsis :: string where
  "ellipsis = map (char_of :: nat \<Rightarrow> char) [226, 128, 166]"

definition preview_of :: "string \<Rightarrow> string" where
  "preview_of preview =
     (if 24 < length preview
      then take 12 preview @ ellipsis @ drop (length preview - 4) preview
      else preview)"

definition detect_Process :: "CaptureEvent option \<Rightarrow> CaptureEvent option" where
  "detect_Process ev =
     (case ev of
        None \<Rightarrow> None
      | Some ev \<Rightarrow>
          Some (fold (\<lambda>(start, stop) e.
              e\<lparr>ceFindings := ceFindings e @
                [\<lparr>fiRule = ''api_key_like'', fiStart = int start, fiEnd = int stop,
                  fiPreview = preview_of (go_string (take (stop - start) (drop start (cePayload e))))\<rparr>]\<rparr>)
            (FindAllIndex (cePayload ev)) ev))"

section \<open>Mask\<close>

definition star :: u8 where
  "star = 42"

definition mask_finding :: "Finding \<Rightarrow> bytes \<Rightarrow> bytes" where
  "mask_finding f payload =
     (if fiStart f < 0 \<or> int (length payload) < fiEnd f \<or> fiEnd f \<le> fiStart f then payload
      else fold (\<lambda>j p. p[j := star]) [nat (fiStart f)..<nat (fiEnd f)] payload)"

definition mask_findings :: "CaptureEvent \<Rightarrow> Finding list" where
  "mask_findings ev =
     (if ceFindings ev = []
      then map (\<lambda>(start, stop). \<lparr>fiRule = ''api_key_like'', fiStart = int start, fiEnd = int stop, fiPreview = []\<rparr>)
             (FindAllIndex (cePayload ev))
      else ceFindings ev)"

definition mask_Process :: "CaptureEvent option \<Rightarrow> CaptureEvent option" where
  "mask_Process ev =
     (case ev of
        None \<Rightarrow> None
      | Some ev \<Rightarrow> Some (ev\<lparr>cePayload := fold mask_finding (rev (mask_findings ev)) (cePayload ev)\<rparr>))"

section \<open>The matches of a payload\<close>

lemma find_matches_bounds:
  "(a, b) \<in> set (find_matches pos bs) \<Longrightarrow> pos \<le> a \<and> a < b \<and> b \<le> pos + length bs"
proof (induction pos bs rule: find_matches.induct)
  case (1 pos bs)
  show ?case
  proof (cases "bs = [] \<or> apiKeyLike bs = None")
    case True
    then show ?thesis
      using 1 by (subst (asm) find_matches.simps, cases bs) auto
  next
    case False
    then obtain rest where r: "bs \<noteq> []" "apiKeyLike bs = Some rest" by auto
    note lt = apiKeyLike_shorter [OF r(2)]
    have "(a, b) = (pos, pos + (length bs - length rest)) \<or> (a, b) \<in> set (find_matches (pos + (length bs - length rest)) rest)"
      using 1(3) r by (subst (asm) find_matches.simps) (simp add: Let_def)
    then show ?thesis
      using 1(2) [OF r refl] lt by auto
  qed
qed

lemma find_matches_sorted: "sorted_wrt (\<lambda>(a, b) (c, d). b \<le> c) (find_matches pos bs)"
proof (induction pos bs rule: find_matches.induct)
  case (1 pos bs)
  show ?case
  proof (cases "bs = [] \<or> apiKeyLike bs = None")
    case True
    then show ?thesis using 1 by (subst find_matches.simps) auto
  next
    case False
    then obtain rest where r: "bs \<noteq> []" "apiKeyLike bs = Some rest" by auto
    have "find_matches pos bs = (pos, pos + (length bs - length rest)) # find_matches (pos + (length bs - length rest)) rest"
      using r by (subst find_matches.simps) (simp add: Let_def)
    then show ?thesis
      using 1(2) [OF r refl] find_matches_bounds by fastforce
  qed
qed

lemma length_preview: "length (preview_of s) \<le> 24"
  by (simp add: preview_of_def ellipsis_def)

section \<open>The effect of mask\<close>

lemma fold_star:
  "b \<le> length p \<Longrightarrow> fold (\<lambda>j p. p[j := star]) [a..<b] p = map (\<lambda>i. if a \<le> i \<and> i < b then star else p ! i) [0..<length p]"
proof (induction b)
  case (Suc b)
  then have ih: "fold (\<lambda>j p. p[j := star]) [a..<b] p = map (\<lambda>i. if a \<le> i \<and> i < b then star else p ! i) [0..<length p]"
    by simp
  show ?case
  proof (cases "a \<le> b")
    case True
    then have "fold (\<lambda>j p. p[j := star]) [a..<Suc b] p = (map (\<lambda>i. if a \<le> i \<and> i < b then star else p ! i) [0..<length p])[b := star]"
      by (simp add: ih)
    also have "\<dots> = map (\<lambda>i. if a \<le> i \<and> i < Suc b then star else p ! i) [0..<length p]"
      using True Suc.prems by (intro nth_equalityI) (auto simp: nth_list_update)
    finally show ?thesis .
  next
    case False
    then show ?thesis by (intro nth_equalityI) auto
  qed
qed (simp add: map_nth)

definition covers :: "nat \<Rightarrow> Finding \<Rightarrow> nat \<Rightarrow> bool" where
  "covers n f i \<longleftrightarrow> 0 \<le> fiStart f \<and> fiEnd f \<le> int n \<and> fiStart f \<le> int i \<and> int i < fiEnd f"

lemma mask_finding_eq:
  "mask_finding f p = map (\<lambda>i. if covers (length p) f i then star else p ! i) [0..<length p]"
proof (cases "fiStart f < 0 \<or> int (length p) < fiEnd f \<or> fiEnd f \<le> fiStart f")
  case True
  then have "\<not> covers (length p) f i" for i by (auto simp: covers_def)
  then show ?thesis using True by (simp add: mask_finding_def map_nth)
next
  case False
  then have "covers (length p) f i \<longleftrightarrow> nat (fiStart f) \<le> i \<and> i < nat (fiEnd f)" for i
    by (auto simp: covers_def)
  moreover have "nat (fiEnd f) \<le> length p" using False by auto
  ultimately show ?thesis using False by (simp add: mask_finding_def fold_star)
qed

lemma fold_mask:
  "fold mask_finding fs p = map (\<lambda>i. if \<exists>f \<in> set fs. covers (length p) f i then star else p ! i) [0..<length p]"
proof (induction fs arbitrary: p)
  case (Cons f fs)
  then show ?case by (auto simp: mask_finding_eq)
qed (simp add: map_nth)

text \<open>Masking the matches of a payload, as one scan.\<close>

function mask_scan :: "bytes \<Rightarrow> bytes" where
  "mask_scan bs =
     (if bs = [] then []
      else case apiKeyLike bs of
             None \<Rightarrow> hd bs # mask_scan (tl bs)
           | Some rest \<Rightarrow> replicate (length bs - length rest) star @ mask_scan rest)"
  by pat_completeness auto
termination
  by (relation "measure length") (auto dest: apiKeyLike_shorter)

declare mask_scan.simps [simp del]

lemma mask_scan_None: "apiKeyLike (b # t) = None \<Longrightarrow> mask_scan (b # t) = b # mask_scan t"
  by (subst mask_scan.simps) simp

lemma mask_scan_Some:
  "bs \<noteq> [] \<Longrightarrow> apiKeyLike bs = Some rest \<Longrightarrow> mask_scan bs = replicate (length bs - length rest) star @ mask_scan rest"
  by (subst mask_scan.simps) simp

text \<open>A match is a prefix: what is left is the end of the payload.\<close>

definition tail_of :: "bytes \<Rightarrow> bytes \<Rightarrow> bool" where
  "tail_of rest bs \<longleftrightarrow> (\<exists>n. rest = drop n bs)"

lemma tail_of_refl [simp]: "tail_of bs bs"
  by (auto simp: tail_of_def intro: exI [of _ 0])

lemma tail_of_trans [trans]: "tail_of a b \<Longrightarrow> tail_of b c \<Longrightarrow> tail_of a c"
  by (auto simp: tail_of_def)

lemma tail_of_length: "tail_of rest bs \<Longrightarrow> rest = drop (length bs - length rest) bs"
proof -
  assume "tail_of rest bs"
  then obtain n where n: "rest = drop n bs" by (auto simp: tail_of_def)
  show ?thesis
    by (cases "n \<le> length bs") (simp_all add: n)
qed

lemma match_rune_tail: "match_rune P bs = Some rest \<Longrightarrow> tail_of rest bs"
proof -
  have "next_rune bs = Some (r, rest) \<Longrightarrow> \<exists>n. rest = drop n bs" for r
    by (cases bs) (auto split: if_splits intro: exI [of _ 1] exI [of _ 2] exI [of _ 3])
  then show "match_rune P bs = Some rest \<Longrightarrow> tail_of rest bs"
    by (auto simp: match_rune_def tail_of_def split: option.splits if_splits)
qed

lemma match_lits_tail: "match_lits cs bs = Some rest \<Longrightarrow> tail_of rest bs"
  by (induction cs bs rule: match_lits.induct) (auto dest: match_rune_tail tail_of_trans split: option.splits)

lemma match_run_tail: "match_run P bs = (n, rest) \<Longrightarrow> tail_of rest bs"
proof (induction P bs arbitrary: n rest rule: match_run.induct)
  case (1 P bs)
  then show ?case
    by (subst (asm) (2) match_run.simps)
      (fastforce dest: match_rune_tail intro: tail_of_trans split: option.splits prod.splits)
qed

lemma match_optional_tail: "tail_of (match_optional P bs) bs"
  by (auto simp: match_optional_def dest: match_rune_tail split: option.splits)

lemma apiKeyLike_tail:
  assumes "apiKeyLike bs = Some rest"
  shows "rest = drop (length bs - length rest) bs"
proof -
  have "tail_of rest bs" if sk: "match_sk bs = Some rest"
  proof -
    obtain r n where r: "match_lits ''sk-'' bs = Some r" "match_run alnum r = (n, rest)"
      using sk by (auto simp: match_sk_def simp del: match_lits.simps split: option.splits prod.splits if_splits)
    show ?thesis
      by (rule tail_of_trans [OF match_run_tail [OF r(2)] match_lits_tail [OF r(1)]])
  qed
  moreover have "tail_of rest bs" if api: "match_api bs = Some rest"
  proof -
    obtain r1 r2 r3 m n where r: "match_lits ''api'' bs = Some r1"
      "match_lits ''key'' (match_optional (rune_in ''_-'') r1) = Some r2"
      "match_run separator r2 = (m, r3)" "0 < m" "match_run ident r3 = (n, rest)"
      by (rule match_api_parts [OF api])
    show ?thesis
      using r by (meson match_run_tail match_lits_tail match_optional_tail tail_of_trans)
  qed
  ultimately show ?thesis
    using assms by (auto simp: apiKeyLike_def intro: tail_of_length split: option.splits)
qed

lemma length_mask_scan [simp]: "length (mask_scan bs) = length bs"
proof (induction bs rule: mask_scan.induct)
  case (1 bs)
  then show ?case
    by (subst mask_scan.simps) (auto split: option.splits dest: apiKeyLike_shorter)
qed

lemma mask_scan_nth:
  "i < length bs \<Longrightarrow> mask_scan bs ! i = (if \<exists>(a, b) \<in> set (find_matches pos bs). a \<le> pos + i \<and> pos + i < b then star else bs ! i)"
proof (induction pos bs arbitrary: i rule: find_matches.induct)
  case (1 pos bs)
  then have ne: "bs \<noteq> []" by auto
  show ?case
  proof (cases "apiKeyLike bs")
    case None
    have f: "find_matches pos bs = find_matches (pos + 1) (tl bs)"
      using ne None by (subst find_matches.simps) simp
    have m: "mask_scan bs = hd bs # mask_scan (tl bs)"
      using ne None by (subst mask_scan.simps) simp
    show ?thesis
    proof (cases i)
      case 0
      have "\<not> (\<exists>(a, b) \<in> set (find_matches pos bs). a \<le> pos)"
        using find_matches_bounds unfolding f by fastforce
      then show ?thesis using 0 ne by (auto simp: m hd_conv_nth)
    next
      case (Suc j)
      have "j < length (tl bs)" using 1(3) Suc by simp
      from 1(1) [OF ne None this] show ?thesis
        using 1(3) unfolding f m Suc by (simp add: nth_tl)
    qed
  next
    case (Some rest)
    define n where "n = length bs - length rest"
    have f: "find_matches pos bs = (pos, pos + n) # find_matches (pos + n) rest"
      using ne Some by (subst find_matches.simps) (simp add: Let_def n_def)
    have m: "mask_scan bs = replicate n star @ mask_scan rest"
      using mask_scan_Some [OF ne Some] by (simp add: n_def)
    have rest: "rest = drop n bs" "n \<le> length bs"
      using apiKeyLike_tail [OF Some] by (simp_all add: n_def)
    show ?thesis
    proof (cases "i < n")
      case True
      then show ?thesis by (auto simp: f m nth_append)
    next
      case False
      then have "i - n < length rest" using 1(3) rest by simp
      from 1(2) [OF ne Some refl this [unfolded n_def]] False rest(2) 1(3)
      have "mask_scan rest ! (i - n) =
          (if \<exists>(a, b) \<in> set (find_matches (pos + n) rest). a \<le> pos + i \<and> pos + i < b then star else bs ! i)"
        by (simp add: n_def [symmetric] rest(1))
      then show ?thesis using False by (auto simp: f m nth_append)
    qed
  qed
qed

section \<open>No match is left after mask\<close>

text \<open>The masked payload \<open>ys\<close> agrees with the payload \<open>xs\<close> up to its first masked byte.\<close>

definition cut :: "bytes \<Rightarrow> bytes \<Rightarrow> bool" where
  "cut xs ys \<longleftrightarrow> xs = ys \<or> (\<exists>p u v. xs = p @ u \<and> ys = p @ star # v)"

lemma cut_refl [simp]: "cut xs xs"
  by (simp add: cut_def)

lemma cut_Cons: "cut xs ys \<Longrightarrow> cut (b # xs) (b # ys)"
  unfolding cut_def by (metis append_Cons)

lemma cut_mask: "cut bs (mask_scan bs)"
proof (induction bs rule: mask_scan.induct)
  case (1 bs)
  show ?case
  proof (cases bs)
    case Nil
    then show ?thesis by (simp add: mask_scan.simps)
  next
    case (Cons b t)
    show ?thesis
    proof (cases "apiKeyLike bs")
      case None
      then show ?thesis
        using 1(1) Cons cut_Cons [of t "mask_scan t" b] by (simp add: mask_scan_None)
    next
      case (Some rest)
      obtain k where "length bs - length rest = Suc k"
        using apiKeyLike_shorter [OF Some] by (cases "length bs - length rest") auto
      then have "mask_scan bs = star # (replicate k star @ mask_scan rest)"
        using mask_scan_Some [OF _ Some] Cons by simp
      then show ?thesis
        unfolding cut_def by (metis append_Nil)
    qed
  qed
qed

lemma next_rune_star [simp]: "next_rune (star # v) = Some (42, v)"
  by (simp add: star_def)

lemma next_rune_cut:
  assumes "cut xs ys" and "next_rune ys = Some (x, r)" and "x \<noteq> 42"
  obtains r' where "next_rune xs = Some (x, r')" and "cut r' r"
proof (cases "xs = ys")
  case True
  then show thesis using that [of r] assms by simp
next
  case False
  then obtain p u v where puv: "xs = p @ u" "ys = p @ star # v"
    using assms(1) by (auto simp: cut_def)
  obtain b q where p: "p = b # q"
    using assms(2,3) puv by (cases p) (auto simp del: next_rune.simps)
  have nxt: "next_rune (b # q @ star # v) = Some (x, r)"
    using assms(2) puv p by simp
  have C: "cut (q @ u) (q @ star # v)" for q by (auto simp: cut_def)
  consider "b < 128" | "b = 0xC5" "take 1 (q @ star # v) = [0xBF]" | "b = 0xE2" "take 2 (q @ star # v) = [0x84, 0xAA]"
    using nxt by (auto split: if_splits)
  then show thesis
  proof cases
    case 1
    then show ?thesis using that nxt puv p C by auto
  next
    case 2
    then obtain q' where "q = 0xBF # q'" by (cases q) (auto simp: star_def)
    then show ?thesis using that nxt puv p C 2 by auto
  next
    case 3
    then obtain q' where "q = 0x84 # 0xAA # q'"
      by (cases q; cases "tl q") (auto simp: star_def)
    then show ?thesis using that nxt puv p C 3 by auto
  qed
qed

lemma match_rune_cut:
  assumes "cut xs ys" and "match_rune P ys = Some r" and "\<not> P 42"
  obtains r' where "match_rune P xs = Some r'" and "cut r' r"
proof -
  obtain x where x: "next_rune ys = Some (x, r)" "P x"
    using assms(2) by (auto simp: match_rune_def split: option.splits if_splits)
  then have "x \<noteq> 42" using assms(3) by auto
  with assms(1) x(1) obtain r' where "next_rune xs = Some (x, r')" "cut r' r"
    by (rule next_rune_cut)
  then show thesis
    using x(2) by (intro that) (simp_all add: match_rune_def)
qed

lemma match_lits_cut:
  assumes "cut xs ys" and "match_lits cs ys = Some r" and "\<forall>c \<in> set cs. \<not> folds_to c 42"
  obtains r' where "match_lits cs xs = Some r'" and "cut r' r"
  using assms
proof (induction cs arbitrary: xs ys thesis)
  case (Cons c cs)
  obtain t where t: "match_rune (folds_to c) ys = Some t" "match_lits cs t = Some r"
    using Cons.prems(3) by (auto split: option.splits)
  have c: "\<not> folds_to c 42" "\<forall>c \<in> set cs. \<not> folds_to c 42" using Cons.prems(4) by simp_all
  obtain t' where t': "match_rune (folds_to c) xs = Some t'" "cut t' t"
    by (rule match_rune_cut [OF Cons.prems(2) t(1) c(1)])
  obtain r' where "match_lits cs t' = Some r'" "cut r' r"
    by (rule Cons.IH [OF _ t'(2) t(2) c(2)])
  then show ?case
    using Cons.prems(1) t'(1) by simp
qed simp

text \<open>What follows is a rune that can be part of a match.\<close>

definition solid :: "bytes \<Rightarrow> bool" where
  "solid bs \<longleftrightarrow> (\<exists>x r. next_rune bs = Some (x, r) \<and> x \<noteq> 42)"

lemma solid_match: "match_rune P bs = Some r \<Longrightarrow> \<not> P 42 \<Longrightarrow> solid bs"
  by (auto simp: match_rune_def solid_def split: option.splits if_splits)

lemma match_rune_solid:
  assumes "cut xs ys" and "solid ys" and "match_rune P ys = None"
  shows "match_rune P xs = None"
proof -
  obtain x r where x: "next_rune ys = Some (x, r)" "x \<noteq> 42"
    using assms(2) by (auto simp: solid_def)
  from next_rune_cut [OF assms(1) this] obtain r' where "next_rune xs = Some (x, r')"
    by blast
  then show ?thesis
    using assms(3) x by (simp add: match_rune_def split: if_splits)
qed

lemma match_run_cut:
  assumes "cut xs ys" and "match_run P ys = (n, r)" and "\<not> P 42"
  obtains n' r' where "match_run P xs = (n', r')" and "n \<le> n'" and "solid r \<Longrightarrow> n' = n \<and> cut r' r"
  using assms
proof (induction P ys arbitrary: xs n r thesis rule: match_run.induct)
  case (1 P ys)
  show ?case
  proof (cases "match_rune P ys")
    case None
    then have nr: "n = 0" "r = ys"
      using 1(4) by (simp_all add: match_run.simps [of P ys])
    obtain n' r' where run: "match_run P xs = (n', r')" by fastforce
    have "n' = n \<and> cut r' r" if "solid r"
      using match_rune_solid [OF 1(3) _ None] that nr run 1(3) by (simp add: match_run.simps [of P xs])
    then show ?thesis using 1(2) [OF run] nr by simp
  next
    case (Some t)
    obtain k where k: "match_run P t = (k, r)" "n = Suc k"
      using 1(4) Some by (auto simp: match_run.simps [of P ys] split: prod.splits)
    obtain t' where t': "match_rune P xs = Some t'" "cut t' t"
      by (rule match_rune_cut [OF 1(3) Some 1(5)])
    obtain n' r' where "match_run P t' = (n', r')" "k \<le> n'" "solid r \<Longrightarrow> n' = k \<and> cut r' r"
      using 1(1) [OF Some _ t'(2) k(1) 1(5)] by blast
    then show ?thesis
      using 1(2) [of "Suc n'" r'] t'(1) k(2) by (simp add: match_run.simps [of P xs])
  qed
qed

lemma class_star: "\<not> alnum 42" "\<not> ident 42" "\<not> separator 42" "\<not> rune_in ''_-'' 42"
  by (simp_all add: alnum_def ident_def separator_def rune_in_def code_def)

lemma lits_star: "\<forall>c \<in> set ''sk-''. \<not> folds_to c 42" "\<forall>c \<in> set ''api''. \<not> folds_to c 42" "\<forall>c \<in> set ''key''. \<not> folds_to c 42"
  by (simp_all add: folds_to_def code_def)

lemma match_lits_solid: "match_lits (c # cs) bs = Some r \<Longrightarrow> \<not> folds_to c 42 \<Longrightarrow> solid bs"
  by (auto dest: solid_match split: option.splits)

lemma match_run_solid: "match_run P bs = (n, r) \<Longrightarrow> 0 < n \<Longrightarrow> \<not> P 42 \<Longrightarrow> solid bs"
  by (auto simp: match_run.simps [of P bs] dest: solid_match split: option.splits)

lemma match_optional_cut:
  assumes "cut xs ys" and "solid (match_optional P ys)" and "\<not> P 42"
  shows "cut (match_optional P xs) (match_optional P ys)"
proof (cases "match_rune P ys")
  case None
  then have "match_rune P xs = None"
    using match_rune_solid [OF assms(1) _ None] assms(2) by (simp add: match_optional_def)
  then show ?thesis using assms(1) None by (simp add: match_optional_def)
next
  case (Some t)
  obtain t' where "match_rune P xs = Some t'" "cut t' t"
    by (rule match_rune_cut [OF assms(1) Some assms(3)])
  then show ?thesis using Some by (simp add: match_optional_def)
qed

lemma match_sk_cut:
  assumes "cut xs ys" and "match_sk ys = Some r"
  shows "match_sk xs \<noteq> None"
proof -
  obtain t n where t: "match_lits ''sk-'' ys = Some t" "match_run alnum t = (n, r)" "16 \<le> n"
    using assms(2) by (auto simp: match_sk_def simp del: match_lits.simps split: option.splits prod.splits if_splits)
  obtain t' where t': "match_lits ''sk-'' xs = Some t'" "cut t' t"
    by (rule match_lits_cut [OF assms(1) t(1) lits_star(1)])
  obtain n' r' where "match_run alnum t' = (n', r')" "n \<le> n'"
    using match_run_cut [OF t'(2) t(2) class_star(1)] by blast
  then show ?thesis
    using t(3) t'(1) by (simp add: match_sk_def del: match_lits.simps)
qed

lemma match_api_cut:
  assumes "cut xs ys" and "match_api ys = Some r"
  shows "match_api xs \<noteq> None"
proof -
  let ?opt = "match_optional (rune_in ''_-'')"
  obtain r1 r2 r3 m n where r: "match_lits ''api'' ys = Some r1" "match_lits ''key'' (?opt r1) = Some r2"
    "match_run separator r2 = (m, r3)" "0 < m" "match_run ident r3 = (n, r)" "8 \<le> n"
    by (rule match_api_parts [OF assms(2)])
  obtain s1 where s1: "match_lits ''api'' xs = Some s1" "cut s1 r1"
    by (rule match_lits_cut [OF assms(1) r(1) lits_star(2)])
  have "solid (?opt r1)"
    by (rule match_lits_solid [OF r(2)]) (simp add: lits_star(3))
  from match_optional_cut [OF s1(2) this class_star(4)]
  obtain s2 where s2: "match_lits ''key'' (?opt s1) = Some s2" "cut s2 r2"
    by (rule match_lits_cut [OF _ r(2) lits_star(3)])
  have "solid r3"
    by (rule match_run_solid [OF r(5) _ class_star(2)]) (use r(6) in simp)
  then obtain s3 where s3: "match_run separator s2 = (m, s3)" "cut s3 r3"
    using match_run_cut [OF s2(2) r(3) class_star(3)] by metis
  obtain n' s4 where "match_run ident s3 = (n', s4)" "n \<le> n'"
    using match_run_cut [OF s3(2) r(5) class_star(2)] by blast
  then show ?thesis
    using s1(1) s2(1) s3(1) r(4,6) by (simp add: match_api_def del: match_lits.simps)
qed

lemma apiKeyLike_cut: "cut xs ys \<Longrightarrow> apiKeyLike xs = None \<Longrightarrow> apiKeyLike ys = None"
  using match_sk_cut match_api_cut unfolding apiKeyLike_def by (metis option.case_eq_if option.exhaust_sel option.simps(3))

lemma apiKeyLike_star: "apiKeyLike (star # v) = None"
proof -
  have "match_lits (c # cs) (star # v) = None" if "\<not> folds_to c 42" for c cs
    using that by (simp add: match_rune_def del: next_rune.simps)
  then show ?thesis
    by (simp add: apiKeyLike_def match_sk_def match_api_def folds_to_def code_def del: match_lits.simps)
qed

lemma find_matches_stars: "find_matches pos (replicate k star @ bs) = find_matches (pos + k) bs"
proof (induction k arbitrary: pos)
  case (Suc k)
  have "find_matches pos (star # replicate k star @ bs) = find_matches (pos + 1) (replicate k star @ bs)"
    by (subst find_matches.simps) (simp add: apiKeyLike_star)
  then show ?case using Suc.IH [of "pos + 1"] by simp
qed simp

lemma find_matches_masked: "find_matches pos (mask_scan bs) = []"
proof (induction bs arbitrary: pos rule: mask_scan.induct)
  case (1 bs)
  show ?case
  proof (cases bs)
    case Nil
    then show ?thesis by (simp add: mask_scan.simps find_matches.simps)
  next
    case (Cons b t)
    show ?thesis
    proof (cases "apiKeyLike bs")
      case None
      have "apiKeyLike (mask_scan bs) = None"
        by (rule apiKeyLike_cut [OF cut_mask None])
      then show ?thesis
        using 1(1) None Cons by (subst find_matches.simps) (simp add: mask_scan_None)
    next
      case (Some rest)
      then show ?thesis
        using 1(2) [OF _ Some] mask_scan_Some [OF _ Some] Cons by (simp add: find_matches_stars)
    qed
  qed
qed

lemma mask_payload:
  assumes "ceFindings ev = []"
  shows "fold mask_finding (rev (mask_findings ev)) (cePayload ev) = mask_scan (cePayload ev)"
proof -
  let ?p = "cePayload ev" and ?ms = "find_matches 0 (cePayload ev)"
  have "(\<exists>f \<in> set (rev (mask_findings ev)). covers (length ?p) f i) \<longleftrightarrow> (\<exists>(a, b) \<in> set ?ms. a \<le> 0 + i \<and> 0 + i < b)" for i
  proof -
    have "covers (length ?p) \<lparr>fiRule = x, fiStart = int a, fiEnd = int b, fiPreview = y\<rparr> i \<longleftrightarrow> a \<le> i \<and> i < b"
      if "(a, b) \<in> set ?ms" for a b x y
      using find_matches_bounds [OF that] by (auto simp: covers_def)
    then show ?thesis
      by (fastforce simp: mask_findings_def assms FindAllIndex_def)
  qed
  then show ?thesis
    by (intro nth_equalityI) (simp_all add: fold_mask mask_scan_nth [of _ _ 0])
qed

section \<open>Properties\<close>

text \<open>C32: What mask takes out of the payload, whose length stays. An event that carries no findings yet is searched:
  afterwards nothing that looks like an API key is left, the search that found the keys finds none in
  the result, and the bytes outside the matches are kept. An event that carries findings, which an earlier
  processor wrote, is not searched: exactly the bytes of its findings that lie inside the payload are
  masked, so that a key outside of them stays.\<close>

theorem mask_leaves_no_key:
  "\<exists>out. mask_Process (Some ev) = Some out \<and> length (cePayload out) = length (cePayload ev) \<and>
    (ceFindings ev = [] \<longrightarrow> FindAllIndex (cePayload out) = [] \<and>
       (\<forall>i < length (cePayload ev). cePayload out ! i =
          (if \<exists>(a, b) \<in> set (FindAllIndex (cePayload ev)). a \<le> i \<and> i < b then star else cePayload ev ! i))) \<and>
    (ceFindings ev \<noteq> [] \<longrightarrow> (\<forall>i < length (cePayload ev). cePayload out ! i =
       (if \<exists>f \<in> set (ceFindings ev). 0 \<le> fiStart f \<and> fiEnd f \<le> int (length (cePayload ev)) \<and>
             fiStart f \<le> int i \<and> int i < fiEnd f then star else cePayload ev ! i)))"
proof (cases "ceFindings ev = []")
  case True
  then show ?thesis
    using mask_scan_nth [of _ "cePayload ev" 0]
    by (simp add: mask_Process_def mask_payload [OF True] FindAllIndex_def find_matches_masked)
next
  case False
  then show ?thesis by (auto simp: mask_Process_def mask_findings_def fold_mask covers_def)
qed

definition example_event :: "string \<Rightarrow> CaptureEvent" where
  "example_event s = \<lparr>ceTimestamp = 0, cePID = 7, ceTID = 7, ceCallID = 1, ceOrigLen = 0, ceCapturedLen = 0,
     ceTruncated = False, ceHookType = 1, cePayload = map of_char s, ceContainerID = [], cePodName = [],
     cePodNamespace = [], ceClawguardVersion = [], ceClawguardCommit = [], ceClawguardEdition = [],
     cePlugins = [], ceFindings = []\<rparr>"

text \<open>The key in the second event stays, as a processor has found a byte before it.\<close>

theorem mask_leaves_no_key_witness:
  "(\<exists>out. mask_Process (Some (example_event ''api_key=0123456789'')) = Some out \<and> FindAllIndex (cePayload out) = [] \<and>
     length (cePayload out) = 18) \<and>
   (\<exists>out. mask_Process (Some (example_event ''x api_key=0123456789''\<lparr>ceFindings := [\<lparr>fiRule = ''x'', fiStart = 0, fiEnd = 1, fiPreview = []\<rparr>]\<rparr>)) = Some out \<and>
     (\<forall>i < 20. 1 \<le> i \<longrightarrow> cePayload out ! i = cePayload (example_event ''x api_key=0123456789'') ! i))"
proof -
  let ?f = "\<lparr>fiRule = ''x'', fiStart = 0, fiEnd = 1, fiPreview = []\<rparr>"
  note one = mask_leaves_no_key [of "example_event ''api_key=0123456789''"]
  note two = mask_leaves_no_key [of "example_event ''x api_key=0123456789''\<lparr>ceFindings := [?f]\<rparr>"]
  show ?thesis using one two by (auto simp: example_event_def)
qed

text \<open>Every finding of detect is a non-empty range inside the payload, the ranges do not overlap,
  no preview is longer than 24 bytes, and the event is otherwise as it was.\<close>

theorem detect_findings_valid:
  "\<exists>fs out. detect_Process (Some ev) = Some out \<and> out = ev\<lparr>ceFindings := ceFindings ev @ fs\<rparr> \<and>
     map (\<lambda>f. (fiStart f, fiEnd f)) fs = map (\<lambda>(a, b). (int a, int b)) (FindAllIndex (cePayload ev)) \<and>
     (\<forall>f \<in> set fs. 0 \<le> fiStart f \<and> fiStart f < fiEnd f \<and> fiEnd f \<le> int (length (cePayload ev)) \<and> length (fiPreview f) \<le> 24) \<and>
     sorted_wrt (\<lambda>f g. fiEnd f \<le> fiStart g) fs"
proof -
  define mk where "mk = (\<lambda>(start, stop). \<lparr>fiRule = ''api_key_like'', fiStart = int start, fiEnd = int stop,
      fiPreview = preview_of (go_string (take (stop - start) (drop start (cePayload ev))))\<rparr>)"
  let ?ms = "FindAllIndex (cePayload ev)"
  have "fold (\<lambda>(start, stop) e. e\<lparr>ceFindings := ceFindings e @
        [\<lparr>fiRule = ''api_key_like'', fiStart = int start, fiEnd = int stop,
          fiPreview = preview_of (go_string (take (stop - start) (drop start (cePayload e))))\<rparr>]\<rparr>) ms e =
      e\<lparr>ceFindings := ceFindings e @ map mk ms\<rparr>" if "cePayload e = cePayload ev" for ms and e :: CaptureEvent
    using that by (induction ms arbitrary: e) (auto simp: mk_def)
  then have out: "detect_Process (Some ev) = Some (ev\<lparr>ceFindings := ceFindings ev @ map mk ?ms\<rparr>)"
    by (simp add: detect_Process_def)
  have len: "length (fiPreview (mk m)) \<le> 24" for m
    by (cases m) (simp add: mk_def length_preview)
  have "\<forall>f \<in> set (map mk ?ms). 0 \<le> fiStart f \<and> fiStart f < fiEnd f \<and> fiEnd f \<le> int (length (cePayload ev)) \<and> length (fiPreview f) \<le> 24"
    using find_matches_bounds [of _ _ 0 "cePayload ev"] len by (auto simp: FindAllIndex_def mk_def)
  moreover have "sorted_wrt (\<lambda>f g. fiEnd f \<le> fiStart g) (map mk ?ms)"
    using find_matches_sorted [of 0 "cePayload ev"]
    by (auto simp: sorted_wrt_map FindAllIndex_def mk_def elim!: sorted_wrt_mono_rel [rotated])
  ultimately show ?thesis
    using out by (intro exI [of _ "map mk ?ms"]) (auto simp: mk_def)
qed

theorem detect_findings_valid_witness:
  "\<exists>fs out. detect_Process (Some (example_event ''sk-'')) = Some out \<and> out = (example_event ''sk-'')\<lparr>ceFindings := fs\<rparr> \<and>
     (\<forall>f \<in> set fs. fiEnd f \<le> 3)"
  using detect_findings_valid [of "example_event ''sk-''"] by (fastforce simp: example_event_def)

end
