(* ===== verification/Sdk.thy ===== *)
theory Sdk
  imports Frames Processors
begin

text \<open>
  \<^verbatim>\<open>pkg/pluginsdk/sdk.go\<close>: the plugin side of the protocol. A plugin is a record of the functions of
  the interface \<^verbatim>\<open>Handler\<close> on a state of its own; an error is its text. \<open>Serve\<close> is the loop over the
  bytes of standard input. The two processor plugins are handlers without state.
\<close>

section \<open>Handlers\<close>

text \<open>\<^verbatim>\<open>Process\<close> returns an error or an event that may be nil, and may change its argument.\<close>

record 's Handler =
  hInfo :: "'s \<Rightarrow> PluginInfo"
  hConfigure :: "PluginConfig \<Rightarrow> 's \<Rightarrow> string option \<times> 's"
  hProcess :: "CaptureEvent \<Rightarrow> 's \<Rightarrow> (string + CaptureEvent option) \<times> CaptureEvent \<times> 's"
  hEmit :: "CaptureEvent \<Rightarrow> 's \<Rightarrow> string option \<times> 's"
  hClose :: "'s \<Rightarrow> string option \<times> 's"

record BuildInfo =
  biVersion :: string
  biCommit :: string
  biBuildTime :: string
  biEdition :: string

definition FillInfo :: "BuildInfo \<Rightarrow> string \<Rightarrow> string \<Rightarrow> PluginInfo" where
  "FillInfo v name kind =
     \<lparr>piName = name, piKind = kind, piVersion = biVersion v, piCommit = biCommit v,
      piBuildTime = biBuildTime v, piAPIVersion = APIVersion\<rparr>"

text \<open>The line of \<^verbatim>\<open>version.String\<close>, and what is printed before the program exits when its arguments ask for it.\<close>

definition version_String :: "BuildInfo \<Rightarrow> string" where
  "version_String v =
     ''version='' @ biVersion v @ '' commit='' @ biCommit v @ '' edition='' @ biEdition v @ '' build_time='' @ biBuildTime v"

definition MaybeVersionFlag :: "BuildInfo \<Rightarrow> string \<Rightarrow> string list \<Rightarrow> string option" where
  "MaybeVersionFlag v name args =
     (if list_ex (\<lambda>a. a = ''-version'' \<or> a = ''--version'') args
      then Some (name @ '' '' @ version_String v @ [CHR 0x0A]) else None)"

definition SinkOnly_Process :: "CaptureEvent \<Rightarrow> 's \<Rightarrow> (string + CaptureEvent option) \<times> CaptureEvent \<times> 's" where
  "SinkOnly_Process ev s = (Inr (Some ev), ev, s)"

definition ProcessorOnly_Emit :: "CaptureEvent \<Rightarrow> 's \<Rightarrow> string option \<times> 's" where
  "ProcessorOnly_Emit ev s = (Some ''not a sink'', s)"

definition errResp :: "u64 \<Rightarrow> string \<Rightarrow> Response" where
  "errResp i err = \<lparr>rsID = i, rsOK = False, rsError = err, rsResult = []\<rparr>"

text \<open>\<^verbatim>\<open>%q\<close> on the method name; bytes above ASCII stand for themselves.\<close>

definition hex_digit :: "nat \<Rightarrow> char" where
  "hex_digit n = char_of (if n < 10 then 48 + n else 87 + n)"

definition quote_char :: "char \<Rightarrow> string" where
  "quote_char c =
     (let n = (of_char c :: nat)
      in if n = 34 \<or> n = 92 then [char_of (92 :: nat), c]
         else if n = 7 then [char_of (92 :: nat), CHR ''a'']
         else if n = 8 then [char_of (92 :: nat), CHR ''b'']
         else if n = 9 then [char_of (92 :: nat), CHR ''t'']
         else if n = 10 then [char_of (92 :: nat), CHR ''n'']
         else if n = 11 then [char_of (92 :: nat), CHR ''v'']
         else if n = 12 then [char_of (92 :: nat), CHR ''f'']
         else if n = 13 then [char_of (92 :: nat), CHR ''r'']
         else if n < 32 \<or> n = 127 then [char_of (92 :: nat), CHR ''x'', hex_digit (n div 16), hex_digit (n mod 16)]
         else [c])"

definition quote :: "string \<Rightarrow> string" where
  "quote s = [char_of (34 :: nat)] @ concat (map quote_char s) @ [char_of (34 :: nat)]"

section \<open>Requests\<close>

definition okResp :: "u64 \<Rightarrow> bytes \<Rightarrow> Response" where
  "okResp i b = \<lparr>rsID = i, rsOK = True, rsError = [], rsResult = b\<rparr>"

text \<open>\<^verbatim>\<open>b, _ := json.Marshal(Status{...})\<close> ignores the error.\<close>

definition statusResp :: "codec \<Rightarrow> u64 \<Rightarrow> string \<Rightarrow> Response" where
  "statusResp cd i msg = okResp i (case encStatus cd msg of None \<Rightarrow> [] | Some b \<Rightarrow> b)"

definition handle :: "codec \<Rightarrow> 's Handler \<Rightarrow> Request \<Rightarrow> 's \<Rightarrow> Response \<times> 's" where
  "handle cd h req s =
     (let i = rqID req
      in if rqMethod req = MethodInfo then
           let info = hInfo h s;
               info = (if piAPIVersion info = [] then info\<lparr>piAPIVersion := APIVersion\<rparr> else info)
           in (case encInfo cd info of
                 None \<Rightarrow> (errResp i (encErrorText cd ''PluginInfo''), s)
               | Some b \<Rightarrow> (okResp i b, s))
         else if rqMethod req = MethodConfigure then
           (case (if 0 < length (rqParams req) then decConfig cd (rqParams req) else Some None) of
              None \<Rightarrow> (errResp i (decErrorText cd ''PluginConfig'' (rqParams req)), s)
            | Some cfg \<Rightarrow>
                (case hConfigure h cfg s of
                   (Some err, s) \<Rightarrow> (errResp i err, s)
                 | (None, s) \<Rightarrow> (statusResp cd i ''ok'', s)))
         else if rqMethod req = MethodProcess then
           (case decEvent cd (rqParams req) of
              None \<Rightarrow> (errResp i (decErrorText cd ''CaptureEvent'' (rqParams req)), s)
            | Some ev \<Rightarrow>
                (case hProcess h ev s of
                   (Inl err, ev, s) \<Rightarrow> (errResp i err, s)
                 | (Inr out, ev, s) \<Rightarrow>
                     (case encEvent cd (case out of None \<Rightarrow> ev | Some out \<Rightarrow> out) of
                        None \<Rightarrow> (errResp i (encErrorText cd ''CaptureEvent''), s)
                      | Some b \<Rightarrow> (okResp i b, s))))
         else if rqMethod req = MethodEmit then
           (case decEvent cd (rqParams req) of
              None \<Rightarrow> (errResp i (decErrorText cd ''CaptureEvent'' (rqParams req)), s)
            | Some ev \<Rightarrow>
                (case hEmit h ev s of
                   (Some err, s) \<Rightarrow> (errResp i err, s)
                 | (None, s) \<Rightarrow> (statusResp cd i ''ok'', s)))
         else if rqMethod req = MethodClose then
           (case hClose h s of
              (Some err, s) \<Rightarrow> (errResp i err, s)
            | (None, s) \<Rightarrow> (statusResp cd i ''closed'', s))
         else (errResp i (''unknown method '' @ quote (rqMethod req)), s))"

text \<open>
  The loop: what is left of the input, the output, the plugin's state, and whether the loop has
  returned; with the input used up it waits for more, unless the input is at its end (\<open>eof\<close>).
\<close>

function Serve :: "codec \<Rightarrow> 's Handler \<Rightarrow> bool \<Rightarrow> bytes \<Rightarrow> writer \<Rightarrow> 's \<Rightarrow> bytes \<times> writer \<times> 's \<times> bool" where
  "Serve cd h eof inp out s =
     (case ReadMessage (decRequest cd) inp of
        Inl EOF \<Rightarrow> (inp, out, s, eof)
      | Inl UnexpectedEOF \<Rightarrow> (inp, out, s, eof)
      | Inl _ \<Rightarrow> (inp, out, s, True)
      | Inr (req, rest) \<Rightarrow>
          let (resp, s) = handle cd h req s;
              (out, ok) = WriteMessage out (encResponse cd resp)
          in if \<not> ok then (rest, out, s, True)
             else if rqMethod req = MethodClose then (rest, out, s, True)
             else Serve cd h eof rest out s)"
  by pat_completeness auto
termination
  by (relation "measure (\<lambda>(cd, h, eof, inp, out, s). length inp)") (auto elim!: ReadMessage_Inr)

declare Serve.simps [simp del]

section \<open>The processor plugins\<close>

definition detect_handler :: "BuildInfo \<Rightarrow> unit Handler" where
  "detect_handler v =
     \<lparr>hInfo = (\<lambda>_. FillInfo v ''detect'' ''processor''), hConfigure = (\<lambda>_ s. (None, s)),
      hProcess = (\<lambda>ev s. let out = detect_Process (Some ev)
                         in (Inr out, (case out of None \<Rightarrow> ev | Some e \<Rightarrow> e), s)),
      hEmit = ProcessorOnly_Emit, hClose = (\<lambda>s. (None, s))\<rparr>"

definition mask_handler :: "BuildInfo \<Rightarrow> unit Handler" where
  "mask_handler v =
     \<lparr>hInfo = (\<lambda>_. FillInfo v ''mask'' ''processor''), hConfigure = (\<lambda>_ s. (None, s)),
      hProcess = (\<lambda>ev s. let out = mask_Process (Some ev)
                         in (Inr out, (case out of None \<Rightarrow> ev | Some e \<Rightarrow> e), s)),
      hEmit = ProcessorOnly_Emit, hClose = (\<lambda>s. (None, s))\<rparr>"

section \<open>Lemmas\<close>

lemma methods_distinct [simp]:
  "MethodInfo \<noteq> MethodConfigure" "MethodInfo \<noteq> MethodProcess" "MethodInfo \<noteq> MethodEmit" "MethodInfo \<noteq> MethodClose"
  "MethodConfigure \<noteq> MethodInfo" "MethodProcess \<noteq> MethodInfo" "MethodEmit \<noteq> MethodInfo" "MethodClose \<noteq> MethodInfo"
  "MethodConfigure \<noteq> MethodProcess" "MethodConfigure \<noteq> MethodEmit" "MethodConfigure \<noteq> MethodClose"
  "MethodProcess \<noteq> MethodConfigure" "MethodEmit \<noteq> MethodConfigure" "MethodClose \<noteq> MethodConfigure"
  "MethodProcess \<noteq> MethodEmit" "MethodProcess \<noteq> MethodClose" "MethodEmit \<noteq> MethodClose"
  "MethodEmit \<noteq> MethodProcess" "MethodClose \<noteq> MethodProcess" "MethodClose \<noteq> MethodEmit"
  by (simp_all add: MethodInfo_def MethodConfigure_def MethodProcess_def MethodEmit_def MethodClose_def)

lemma rsID_resp [simp]: "rsID (errResp i e) = i" "rsID (okResp i b) = i" "rsID (statusResp cd i m) = i"
  by (simp_all add: errResp_def okResp_def statusResp_def)

lemma rsOK_resp [simp]: "\<not> rsOK (errResp i e)" "rsOK (okResp i b)" "rsOK (statusResp cd i m)"
  by (simp_all add: errResp_def okResp_def statusResp_def)

text \<open>Every response carries the identifier of its request.\<close>

lemma handle_id: "rsID (fst (handle cd h req s)) = rqID req"
proof -
  have opt: "rsID (fst (case x of None \<Rightarrow> f | Some y \<Rightarrow> g y)) = i"
    if "rsID (fst f) = i" "\<And>y. rsID (fst (g y)) = i" for f :: "Response \<times> 's" and g i and x :: "'b option"
    using that by (cases x) simp_all
  have res: "rsID (fst (case x of (None, s) \<Rightarrow> f s | (Some y, s) \<Rightarrow> g y s)) = i"
    if "\<And>s. rsID (fst (f s)) = i" "\<And>y s. rsID (fst (g y s)) = i"
    for f :: "'s \<Rightarrow> Response \<times> 's" and g i and x :: "string option \<times> 's"
    using that by (cases x; cases "fst x") simp_all
  have sm: "rsID (fst (case x of (Inl y, e, s) \<Rightarrow> f y e s | (Inr z, e, s) \<Rightarrow> g z e s)) = i"
    if "\<And>y e s. rsID (fst (f y e s)) = i" "\<And>z e s. rsID (fst (g z e s)) = i"
    for f :: "string \<Rightarrow> CaptureEvent \<Rightarrow> 's \<Rightarrow> Response \<times> 's" and g i
      and x :: "(string + CaptureEvent option) \<times> CaptureEvent \<times> 's"
    using that by (cases x; cases "fst x") simp_all
  have ifs: "rsID (fst (if b then x else y)) = i" if "rsID (fst x) = i" "rsID (fst y) = i"
    for b and x y :: "Response \<times> 's" and i
    using that by simp
  show ?thesis
    unfolding handle_def Let_def by (intro ifs opt res sm) simp_all
qed

lemma Serve_request:
  assumes "decRequest cd b = Some req" and "frame_fits b" and "handle cd h req s = (resp, s')"
    and "encResponse cd resp = Some rb" and "wrLimit out = None"
  shows "Serve cd h eof (frame b @ rest) out s =
    (if rqMethod req = MethodClose then (rest, out\<lparr>wrOut := wrOut out @ frame rb\<rparr>, s', True)
     else Serve cd h eof rest (out\<lparr>wrOut := wrOut out @ frame rb\<rparr>) s')"
  using assms by (subst Serve.simps) (simp add: ReadMessage_frame WriteMessage_Some)

lemma Serve_Nil: "Serve cd h eof [] out s = ([], out, s, eof)"
  by (subst Serve.simps) (simp add: ReadMessage_def ReadFull_def)

end
