(* ===== verification/Plugin_Client.thy ===== *)
theory Plugin_Client
  imports Sdk
begin

text \<open>
  \<^verbatim>\<open>internal/pluginhost/client.go\<close>: the host side of the protocol. The plugin subprocesses that run are
  a map from handles to connections; a connection is the pipe to the plugin, what the plugin has
  written and the host has not read, and the plugin's own state. A \<^verbatim>\<open>Client\<close> is shared by the manager
  and the pipeline: the one field of it that changes, the request counter, is kept by handle. What a plugin does with its input is
  an argument (\<open>envPeer\<close>), and so is what \<^verbatim>\<open>exec\<close> and \<^verbatim>\<open>os\<close> report: whether a binary starts, and
  what a path is.
\<close>

section \<open>Subprocesses\<close>

record 'p conn =
  cnStdin :: writer
  cnStdout :: bytes
  cnPlugin :: 'p

record 'p host =
  hsConns :: "nat \<rightharpoonup> 'p conn"
  hsNextID :: "nat \<Rightarrow> u64"
  hsNext :: nat

text \<open>
  \<open>envSpawn\<close>: the fresh connection when the command starts, \<open>None\<close> when one of \<^verbatim>\<open>StdinPipe\<close>,
  \<^verbatim>\<open>StdoutPipe\<close> and \<^verbatim>\<open>Start\<close> fails. \<open>envStat\<close>: \<^verbatim>\<open>os.Stat\<close>, whether the path is a directory.
\<close>

record 'p env =
  envCodec :: codec
  envPeer :: "'p conn \<Rightarrow> 'p conn"
  envSpawn :: "string \<Rightarrow> 'p conn option"
  envStat :: "string \<Rightarrow> bool option"
  envLookPath :: "string \<Rightarrow> string option"
  envJoin :: "string \<Rightarrow> string \<Rightarrow> string"

record Client =
  clName :: string
  clKind :: string
  clMode :: string
  clInfo :: PluginInfo
  clProc :: nat

datatype call_error = MarshalError | WriteError | ReadFailed read_error | IDMismatch | PluginError string | ResultError

section \<open>Calls\<close>

text \<open>
  A call that has ended. The whole input of the connection is what its other end has written by then, so a message
  that is cut or missing is the end of the stream. \<^verbatim>\<open>ReadMessage\<close> has no timeout: a plugin that keeps its stream open
  and never answers leaves the caller waiting, and that run has no call.
\<close>

definition call :: "'p env \<Rightarrow> string \<Rightarrow> bytes option \<Rightarrow> (bytes \<Rightarrow> 'r option) \<Rightarrow> 'r \<Rightarrow> Client \<Rightarrow> 'p host \<Rightarrow>
    (call_error + 'r) \<times> 'p host" where
  "call env meth params dec result c hs =
     (let i = hsNextID hs (clProc c) + 1;
          hs = hs\<lparr>hsNextID := (hsNextID hs)(clProc c := i)\<rparr>
      in case params of
           None \<Rightarrow> (Inl MarshalError, hs)
         | Some raw \<Rightarrow>
             (case hsConns hs (clProc c) of
                None \<Rightarrow> (Inl WriteError, hs)
              | Some cn \<Rightarrow>
                  let req = \<lparr>rqID = i, rqMethod = meth, rqParams = raw\<rparr>;
                      (w, ok) = WriteMessage (cnStdin cn) (encRequest (envCodec env) req);
                      cn = cn\<lparr>cnStdin := w\<rparr>
                  in if \<not> ok then (Inl WriteError, hs\<lparr>hsConns := (hsConns hs)(clProc c \<mapsto> cn)\<rparr>)
                     else
                       let cn = envPeer env cn
                       in case ReadMessage (decResponse (envCodec env)) (cnStdout cn) of
                            Inl e \<Rightarrow> (Inl (ReadFailed e), hs\<lparr>hsConns := (hsConns hs)(clProc c \<mapsto> cn)\<rparr>)
                          | Inr (resp, rest) \<Rightarrow>
                              let hs = hs\<lparr>hsConns := (hsConns hs)(clProc c \<mapsto> cn\<lparr>cnStdout := rest\<rparr>)\<rparr>
                              in if rsID resp \<noteq> i then (Inl IDMismatch, hs)
                                 else if \<not> rsOK resp then (Inl (PluginError (rsError resp)), hs)
                                 else (case UnmarshalResult dec (rsResult resp) result of
                                         None \<Rightarrow> (Inl ResultError, hs)
                                       | Some r \<Rightarrow> (Inr r, hs))))"

definition zeroInfo :: PluginInfo where
  "zeroInfo = \<lparr>piName = [], piKind = [], piVersion = [], piCommit = [], piBuildTime = [], piAPIVersion = []\<rparr>"

definition zeroEvent :: CaptureEvent where
  "zeroEvent = \<lparr>ceTimestamp = 0, cePID = 0, ceTID = 0, ceCallID = 0, ceOrigLen = 0, ceCapturedLen = 0,
     ceTruncated = False, ceHookType = 0, cePayload = [], ceContainerID = [], cePodName = [],
     cePodNamespace = [], ceClawguardVersion = [], ceClawguardCommit = [], ceClawguardEdition = [],
     cePlugins = [], ceFindings = []\<rparr>"

definition client_Info :: "'p env \<Rightarrow> Client \<Rightarrow> 'p host \<Rightarrow> (call_error + PluginInfo) \<times> 'p host" where
  "client_Info env c hs =
     call env MethodInfo (MarshalParams (\<lambda>_. None) (None :: unit option)) (decInfo (envCodec env)) zeroInfo c hs"

definition client_Configure :: "'p env \<Rightarrow> PluginConfig \<Rightarrow> Client \<Rightarrow> 'p host \<Rightarrow> (call_error + Status) \<times> 'p host" where
  "client_Configure env cfg c hs =
     call env MethodConfigure (MarshalParams (encConfig (envCodec env)) (Some cfg)) (decStatus (envCodec env)) [] c hs"

definition client_Process :: "'p env \<Rightarrow> CaptureEvent \<Rightarrow> Client \<Rightarrow> 'p host \<Rightarrow> (call_error + CaptureEvent) \<times> 'p host" where
  "client_Process env ev c hs =
     call env MethodProcess (MarshalParams (encEvent (envCodec env)) (Some ev)) (decEvent (envCodec env)) zeroEvent c hs"

definition client_Emit :: "'p env \<Rightarrow> CaptureEvent \<Rightarrow> Client \<Rightarrow> 'p host \<Rightarrow> (call_error + Status) \<times> 'p host" where
  "client_Emit env ev c hs =
     call env MethodEmit (MarshalParams (encEvent (envCodec env)) (Some ev)) (decStatus (envCodec env)) [] c hs"

definition Kill :: "Client \<Rightarrow> 'p host \<Rightarrow> 'p host" where
  "Kill c hs = hs\<lparr>hsConns := (hsConns hs)(clProc c := None)\<rparr>"

definition client_Close :: "'p env \<Rightarrow> Client \<Rightarrow> 'p host \<Rightarrow> 'p host" where
  "client_Close env c hs =
     (let (r, hs) = call env MethodClose (MarshalParams (\<lambda>_. None) (None :: unit option)) (decStatus (envCodec env)) [] c hs
      in Kill c hs)"

definition client_PluginRef :: "Client \<Rightarrow> PluginRef" where
  "client_PluginRef c =
     \<lparr>prName = piName (clInfo c), prKind = piKind (clInfo c), prVersion = piVersion (clInfo c),
      prCommit = piCommit (clInfo c), prBuildTime = piBuildTime (clInfo c)\<rparr>"

section \<open>Start\<close>

datatype start_error = SpawnError | InfoError call_error | APIMismatch string | ConfigureError call_error | NotFound

definition Start :: "'p env \<Rightarrow> string \<Rightarrow> PluginEntry \<Rightarrow> string \<Rightarrow> 'p host \<Rightarrow> (start_error + Client) \<times> 'p host" where
  "Start env bin e kind hs =
     (case envSpawn env bin of
        None \<Rightarrow> (Inl SpawnError, hs)
      | Some cn \<Rightarrow>
          let p = hsNext hs;
              hs = \<lparr>hsConns = (hsConns hs)(p \<mapsto> cn), hsNextID = (hsNextID hs)(p := 0), hsNext = p + 1\<rparr>;
              mode = (if kind = ''processor'' then EffectiveMode e else []);
              c = \<lparr>clName = eName e, clKind = kind, clMode = mode, clInfo = zeroInfo, clProc = p\<rparr>
          in case client_Info env c hs of
               (Inl err, hs) \<Rightarrow> (Inl (InfoError err), Kill c hs)
             | (Inr info, hs) \<Rightarrow>
                 if piAPIVersion info \<noteq> [] \<and> piAPIVersion info \<noteq> APIVersion
                 then (Inl (APIMismatch (piAPIVersion info)), Kill c hs)
                 else
                   let c = c\<lparr>clInfo := info\<rparr>;
                       c = (if piName (clInfo c) = [] then c\<lparr>clInfo := (clInfo c)\<lparr>piName := eName e\<rparr>\<rparr> else c);
                       c = (if piKind (clInfo c) = [] then c\<lparr>clInfo := (clInfo c)\<lparr>piKind := kind\<rparr>\<rparr> else c)
                   in case client_Configure env (eSettings e) c hs of
                        (Inl err, hs) \<Rightarrow> (Inl (ConfigureError err), Kill c hs)
                      | (Inr _, hs) \<Rightarrow> (Inr c, hs))"

definition is_file :: "'p env \<Rightarrow> string \<Rightarrow> bool" where
  "is_file env p \<longleftrightarrow> envStat env p = Some False"

definition ResolveBinary :: "'p env \<Rightarrow> string \<Rightarrow> PluginEntry \<Rightarrow> string \<Rightarrow> string option" where
  "ResolveBinary env dir e kind =
     (if ePath e \<noteq> [] then Some (ePath e)
      else let name = BinaryName kind (eName e);
               candidates = [envJoin env dir name, envJoin env dir (eName e)]
           in case find (is_file env) candidates of
                Some p \<Rightarrow> Some p
              | None \<Rightarrow> envLookPath env name)"

section \<open>Lemmas\<close>

text \<open>A call neither starts nor stops a subprocess.\<close>

lemma call_keeps:
  assumes "call env meth params dec result c hs = (r, hs')"
  shows "dom (hsConns hs') = dom (hsConns hs) \<and> hsNext hs' = hsNext hs"
  using assms
  by (auto simp: call_def Let_def split: option.splits sum.splits prod.splits if_splits)

lemma Kill_obs [simp]: "dom (hsConns (Kill c hs)) = dom (hsConns hs) - {clProc c}" "hsNext (Kill c hs) = hsNext hs"
  by (auto simp: Kill_def)

text \<open>The handles in use lie below the next one.\<close>

definition host_ok :: "'p host \<Rightarrow> bool" where
  "host_ok hs \<longleftrightarrow> (\<forall>p \<in> dom (hsConns hs). p < hsNext hs)"

lemma host_okI:
  assumes "host_ok hs" and "dom (hsConns hs') \<subseteq> dom (hsConns hs) \<union> {p. p < hsNext hs'}" and "hsNext hs \<le> hsNext hs'"
  shows "host_ok hs'"
  using assms unfolding host_ok_def by (metis (mono_tags) UnE mem_Collect_eq order_less_le_trans subsetD)

lemma client_Close_obs:
  "dom (hsConns (client_Close env c hs)) = dom (hsConns hs) - {clProc c}" "hsNext (client_Close env c hs) = hsNext hs"
proof -
  obtain r hs' where call: "call env MethodClose (MarshalParams (\<lambda>_. None) (None :: unit option)) (decStatus (envCodec env)) [] c hs = (r, hs')"
    by (cases "call env MethodClose (MarshalParams (\<lambda>_. None) (None :: unit option)) (decStatus (envCodec env)) [] c hs")
  note k = call_keeps [OF call]
  show "dom (hsConns (client_Close env c hs)) = dom (hsConns hs) - {clProc c}" "hsNext (client_Close env c hs) = hsNext hs"
    using k by (simp_all add: client_Close_def call)
qed

text \<open>A failed start leaves no subprocess behind; a successful one leaves exactly its own.\<close>

definition spawned :: "'p host \<Rightarrow> 'p conn \<Rightarrow> 'p host" where
  "spawned hs cn =
     \<lparr>hsConns = (hsConns hs)(hsNext hs \<mapsto> cn), hsNextID = (hsNextID hs)(hsNext hs := 0), hsNext = hsNext hs + 1\<rparr>"

lemma spawned_obs:
  "dom (hsConns (spawned hs cn)) = insert (hsNext hs) (dom (hsConns hs))" "hsNext (spawned hs cn) = Suc (hsNext hs)"
  by (simp_all add: spawned_def)

lemma Start_cases:
  assumes "Start env bin e kind hs = (r, hs')"
  obtains (spawn) "r = Inl SpawnError" "hs' = hs"
  | (killed) err c hs1 where "r = Inl err" and "hs' = Kill c hs1" and "clProc c = hsNext hs"
      and "dom (hsConns hs1) = insert (hsNext hs) (dom (hsConns hs))" and "hsNext hs1 = Suc (hsNext hs)"
  | (started) c where "r = Inr c" and "clProc c = hsNext hs"
      and "dom (hsConns hs') = insert (hsNext hs) (dom (hsConns hs))" and "hsNext hs' = Suc (hsNext hs)"
      and "clName c = eName e" and "clKind c = kind" and "clMode c = (if kind = ''processor'' then EffectiveMode e else [])"
      and "piAPIVersion (clInfo c) \<in> {[], APIVersion}"
proof (cases "envSpawn env bin")
  case None
  then show thesis using assms spawn by (simp add: Start_def)
next
  case (Some cn)
  define c0 where "c0 = \<lparr>clName = eName e, clKind = kind, clMode = (if kind = ''processor'' then EffectiveMode e else []),
      clInfo = zeroInfo, clProc = hsNext hs\<rparr>"
  obtain ri hs1 where info: "client_Info env c0 (spawned hs cn) = (ri, hs1)"
    by (cases "client_Info env c0 (spawned hs cn)")
  note k1 = call_keeps [OF info [unfolded client_Info_def], unfolded spawned_obs]
  have p0: "clProc c0 = hsNext hs" by (simp add: c0_def)
  note start = assms [unfolded Start_def Some option.case Let_def, folded spawned_def, folded c0_def, unfolded info prod.case]
  show thesis
  proof (cases ri)
    case (Inl err)
    then show ?thesis
      using start p0 k1 by (intro killed [of "InfoError err" c0 hs1]) simp_all
  next
    case (Inr inf)
    note start = start [unfolded Inr sum.case]
    show ?thesis
    proof (cases "piAPIVersion inf \<noteq> [] \<and> piAPIVersion inf \<noteq> APIVersion")
      case True
      then show ?thesis
        using start p0 k1 by (intro killed [of "APIMismatch (piAPIVersion inf)" c0 hs1]) simp_all
    next
      case False
      define c2 where "c2 = c0\<lparr>clInfo := inf\<rparr>"
      define c3 where "c3 = (if piName (clInfo c2) = [] then c2\<lparr>clInfo := (clInfo c2)\<lparr>piName := eName e\<rparr>\<rparr> else c2)"
      define c4 where "c4 = (if piKind (clInfo c3) = [] then c3\<lparr>clInfo := (clInfo c3)\<lparr>piKind := kind\<rparr>\<rparr> else c3)"
      have p4: "clProc c4 = hsNext hs" "clName c4 = eName e" "clKind c4 = kind"
        "clMode c4 = (if kind = ''processor'' then EffectiveMode e else [])" "piAPIVersion (clInfo c4) = piAPIVersion inf"
        by (simp_all add: c4_def c3_def c2_def c0_def)
      obtain rc hs2 where conf: "client_Configure env (eSettings e) c4 hs1 = (rc, hs2)"
        by (cases "client_Configure env (eSettings e) c4 hs1")
      note k2 = call_keeps [OF conf [unfolded client_Configure_def]]
      have fin: "(case rc of Inl err \<Rightarrow> (Inl (ConfigureError err), Kill c4 hs2) | Inr st \<Rightarrow> (Inr c4, hs2)) = (r, hs')"
        by (rule start [unfolded if_not_P [OF False], folded c2_def, folded c3_def, folded c4_def, unfolded conf prod.case])
      show ?thesis
      proof (cases rc)
        case (Inl err)
        then show ?thesis
          using fin k1 k2 p4 by (intro killed [of "ConfigureError err" c4 hs2]) simp_all
      next
        case (Inr st)
        then show ?thesis
          using fin k1 k2 p4 False by (intro started [of c4]) auto
      qed
    qed
  qed
qed

lemma Start_error:
  assumes "host_ok hs" and "Start env bin e kind hs = (Inl err, hs')"
  shows "dom (hsConns hs') = dom (hsConns hs)" and "host_ok hs'"
proof -
  have fresh: "hsNext hs \<notin> dom (hsConns hs)" using assms(1) by (auto simp: host_ok_def)
  have "dom (hsConns hs') = dom (hsConns hs) \<and> hsNext hs \<le> hsNext hs'"
    using assms(2) by (cases rule: Start_cases) (use fresh in auto)
  then show "dom (hsConns hs') = dom (hsConns hs)" "host_ok hs'"
    using host_okI [OF assms(1), of hs'] by auto
qed

lemma Start_started:
  assumes "host_ok hs" and "Start env bin e kind hs = (Inr c, hs')"
  shows "dom (hsConns hs') = insert (clProc c) (dom (hsConns hs))" and "clProc c \<notin> dom (hsConns hs)"
    and "host_ok hs'" and "clName c = eName e" and "clKind c = kind"
    and "clMode c = (if kind = ''processor'' then EffectiveMode e else [])"
proof -
  have "dom (hsConns hs') = insert (clProc c) (dom (hsConns hs)) \<and> clProc c = hsNext hs \<and>
      hsNext hs' = Suc (hsNext hs) \<and> clName c = eName e \<and> clKind c = kind \<and>
      clMode c = (if kind = ''processor'' then EffectiveMode e else [])"
    using assms(2) by (cases rule: Start_cases) simp_all
  then show "dom (hsConns hs') = insert (clProc c) (dom (hsConns hs))" and "clProc c \<notin> dom (hsConns hs)"
    and "host_ok hs'" and "clName c = eName e" and "clKind c = kind"
    and "clMode c = (if kind = ''processor'' then EffectiveMode e else [])"
    using assms(1) host_okI [OF assms(1), of hs'] by (auto simp: host_ok_def)
qed

section \<open>A call to a plugin built with the SDK\<close>

definition serve_peer :: "codec \<Rightarrow> 's Handler \<Rightarrow> 's conn \<Rightarrow> 's conn" where
  "serve_peer cd h cn =
     (let (rest, out, s, stopped) =
            Serve cd h False (wrOut (cnStdin cn)) \<lparr>wrOut = cnStdout cn, wrLimit = None\<rparr> (cnPlugin cn)
      in cn\<lparr>cnStdin := (cnStdin cn)\<lparr>wrOut := rest\<rparr>, cnStdout := wrOut out, cnPlugin := s\<rparr>)"

text \<open>A value that a marshaller and its inverse carry over in one frame.\<close>

definition carries :: "('a \<Rightarrow> bytes option) \<Rightarrow> (bytes \<Rightarrow> 'a option) \<Rightarrow> 'a \<Rightarrow> bool" where
  "carries enc dec v \<longleftrightarrow> (\<exists>b. enc v = Some b \<and> dec b = Some v \<and> frame_fits b)"

definition idle :: "'s conn \<Rightarrow> bool" where
  "idle cn \<longleftrightarrow> cnStdin cn = \<lparr>wrOut = [], wrLimit = None\<rparr> \<and> cnStdout cn = []"

lemma serve_peer_request:
  assumes "idle cn" and "decRequest cd b = Some req" and "frame_fits b"
    and "handle cd h req (cnPlugin cn) = (resp, s')" and "encResponse cd resp = Some rb"
  shows "serve_peer cd h (cn\<lparr>cnStdin := (cnStdin cn)\<lparr>wrOut := frame b\<rparr>\<rparr>) =
    cn\<lparr>cnStdout := frame rb, cnPlugin := s'\<rparr>"
  using Serve_request [OF assms(2-5), of "\<lparr>wrOut = [], wrLimit = None\<rparr>" False "[]"] assms(1)
  by (cases "rqMethod req = MethodClose") (simp_all add: serve_peer_def Let_def idle_def Serve_Nil)

lemma call_served:
  fixes c :: Client and hs :: "'p host" and raw meth
  defines "req \<equiv> \<lparr>rqID = hsNextID hs (clProc c) + 1, rqMethod = meth, rqParams = raw\<rparr>"
  assumes peer: "envPeer env = serve_peer (envCodec env) h"
    and conn: "hsConns hs (clProc c) = Some cn" "idle cn"
    and req: "carries (encRequest (envCodec env)) (decRequest (envCodec env)) req"
    and hdl: "handle (envCodec env) h req (cnPlugin cn) = (resp, s')"
    and resp: "carries (encResponse (envCodec env)) (decResponse (envCodec env)) resp"
  shows "call env meth (Some raw) dec result c hs =
    ((if \<not> rsOK resp then Inl (PluginError (rsError resp))
      else case UnmarshalResult dec (rsResult resp) result of None \<Rightarrow> Inl ResultError | Some r \<Rightarrow> Inr r),
     hs\<lparr>hsNextID := (hsNextID hs)(clProc c := hsNextID hs (clProc c) + 1),
        hsConns := (hsConns hs)(clProc c \<mapsto> cn\<lparr>cnPlugin := s'\<rparr>)\<rparr>)"
proof -
  obtain b where b: "encRequest (envCodec env) req = Some b" "decRequest (envCodec env) b = Some req" "frame_fits b"
    using req by (auto simp: carries_def)
  obtain rb where rb: "encResponse (envCodec env) resp = Some rb" "decResponse (envCodec env) rb = Some resp" "frame_fits rb"
    using resp by (auto simp: carries_def)
  have i: "rsID resp = hsNextID hs (clProc c) + 1"
    using handle_id [of "envCodec env" h req "cnPlugin cn"] hdl by (simp add: req_def)
  have w: "WriteMessage (cnStdin cn) (Some b) = ((cnStdin cn)\<lparr>wrOut := frame b\<rparr>, True)"
    using conn(2) by (simp add: idle_def WriteMessage_Some)
  note p = serve_peer_request [OF conn(2) b(2,3) hdl rb(1)]
  have r: "ReadMessage (decResponse (envCodec env)) (frame rb) = Inr (resp, [])"
    using ReadMessage_frame [OF rb(3), of "decResponse (envCodec env)" "[]"] rb(2) by simp
  have cn: "cn\<lparr>cnPlugin := s', cnStdout := []\<rparr> = cn\<lparr>cnPlugin := s'\<rparr>"
    using conn(2) by (cases cn) (simp add: idle_def)
  show ?thesis
    using conn(1) i b(1) w p r cn
    by (simp add: call_def Let_def peer req_def split: option.split)
qed

end
