(* ===== verification/Plugin_Manager.thy ===== *)
theory Plugin_Manager
  imports Plugin_Client
begin

text \<open>
  \<^verbatim>\<open>internal/pluginhost/manager.go\<close>: the plugins that are loaded. \<open>loadLocked\<close> closes the old ones
  and starts those of the configuration that are not disabled, processors first; it returns at the
  first failure. The lemmas follow the subprocesses: after a load that succeeds those that run are the
  ones of the loaded clients and those that ran before and were not the manager's.
\<close>

section \<open>State and operations\<close>

record Manager =
  mgCfg :: Config
  mgProcessors :: "Client list"
  mgSinks :: "Client list"

definition NewManager :: "Config \<Rightarrow> Manager" where
  "NewManager cfg = \<lparr>mgCfg = cfg, mgProcessors = [], mgSinks = []\<rparr>"

definition stopLocked :: "'p env \<Rightarrow> Manager \<Rightarrow> 'p host \<Rightarrow> Manager \<times> 'p host" where
  "stopLocked env m hs =
     (let hs = fold (client_Close env) (mgProcessors m) hs;
          hs = fold (client_Close env) (mgSinks m) hs
      in (m\<lparr>mgProcessors := [], mgSinks := []\<rparr>, hs))"

text \<open>
  One of the two loops: the clients started so far are the accumulator; the third part of the result
  tells where an error came from, as only a failed \<^verbatim>\<open>Start\<close> of a sink kills the processors.
\<close>

datatype load_result = Loaded "Client list" | ResolveFailed | StartFailed start_error

fun load_entries :: "'p env \<Rightarrow> string \<Rightarrow> string \<Rightarrow> PluginEntry list \<Rightarrow> Client list \<Rightarrow> 'p host \<Rightarrow> load_result \<times> 'p host" where
  "load_entries env dir kind [] cs hs = (Loaded cs, hs)"
| "load_entries env dir kind (e # es) cs hs =
     (if eDisabled e then load_entries env dir kind es cs hs
      else case ResolveBinary env dir e kind of
             None \<Rightarrow> (ResolveFailed, hs)
           | Some bin \<Rightarrow>
               (case Start env bin e kind hs of
                  (Inl err, hs) \<Rightarrow> (StartFailed err, hs)
                | (Inr c, hs) \<Rightarrow> load_entries env dir kind es (cs @ [c]) hs))"

definition loadLocked :: "'p env \<Rightarrow> Manager \<Rightarrow> 'p host \<Rightarrow> start_error option \<times> Manager \<times> 'p host" where
  "loadLocked env m hs =
     (let (m, hs) = stopLocked env m hs;
          dir = PluginDir (mgCfg m)
      in case load_entries env dir ''processor'' (Processors (mgCfg m)) [] hs of
           (ResolveFailed, hs) \<Rightarrow> (Some NotFound, m, hs)
         | (StartFailed err, hs) \<Rightarrow> (Some err, m, hs)
         | (Loaded procs, hs) \<Rightarrow>
             (case load_entries env dir ''sink'' (Sinks (mgCfg m)) [] hs of
                (ResolveFailed, hs) \<Rightarrow> (Some NotFound, m, hs)
              | (StartFailed err, hs) \<Rightarrow> (Some err, m, fold Kill procs hs)
              | (Loaded sinks, hs) \<Rightarrow> (None, m\<lparr>mgProcessors := procs, mgSinks := sinks\<rparr>, hs)))"

definition manager_Load :: "'p env \<Rightarrow> Manager \<Rightarrow> 'p host \<Rightarrow> start_error option \<times> Manager \<times> 'p host" where
  "manager_Load env m hs = loadLocked env m hs"

definition Reload :: "'p env \<Rightarrow> Config \<Rightarrow> Manager \<Rightarrow> 'p host \<Rightarrow> start_error option \<times> Manager \<times> 'p host" where
  "Reload env cfg m hs = loadLocked env (m\<lparr>mgCfg := cfg\<rparr>) hs"

definition manager_Close :: "'p env \<Rightarrow> Manager \<Rightarrow> 'p host \<Rightarrow> Manager \<times> 'p host" where
  "manager_Close env m hs = stopLocked env m hs"

definition PluginRefs :: "Manager \<Rightarrow> PluginRef list" where
  "PluginRefs m = map client_PluginRef (mgProcessors m) @ map client_PluginRef (mgSinks m)"

definition manager_Processors :: "Manager \<Rightarrow> Client list" where
  "manager_Processors m = mgProcessors m"

definition SyncProcessors :: "Manager \<Rightarrow> Client list" where
  "SyncProcessors m = filter (\<lambda>c. clMode c \<noteq> ''async'') (mgProcessors m)"

definition AsyncProcessors :: "Manager \<Rightarrow> Client list" where
  "AsyncProcessors m = filter (\<lambda>c. clMode c = ''async'') (mgProcessors m)"

definition manager_Sinks :: "Manager \<Rightarrow> Client list" where
  "manager_Sinks m = mgSinks m"

definition Infos :: "Manager \<Rightarrow> PluginInfo list" where
  "Infos m = map clInfo (mgProcessors m) @ map clInfo (mgSinks m)"

section \<open>The subprocesses of a manager\<close>

definition clients :: "Manager \<Rightarrow> Client list" where
  "clients m = mgProcessors m @ mgSinks m"

definition running :: "'p host \<Rightarrow> nat set" where
  "running hs = dom (hsConns hs)"

definition procs_of :: "Client list \<Rightarrow> nat set" where
  "procs_of cs = clProc ` set cs"

text \<open>Every client has a running subprocess of its own.\<close>

definition manager_ok :: "Manager \<Rightarrow> 'p host \<Rightarrow> bool" where
  "manager_ok m hs \<longleftrightarrow> host_ok hs \<and> distinct (map clProc (clients m)) \<and> procs_of (clients m) \<subseteq> running hs"

lemma fold_close:
  "running (fold (client_Close env) cs hs) = running hs - procs_of cs \<and> hsNext (fold (client_Close env) cs hs) = hsNext hs"
  by (induction cs arbitrary: hs) (auto simp: running_def procs_of_def client_Close_obs)

lemma fold_kill:
  "running (fold Kill cs hs) = running hs - procs_of cs \<and> hsNext (fold Kill cs hs) = hsNext hs"
  by (induction cs arbitrary: hs) (auto simp: running_def procs_of_def)

lemma host_ok_sub: "host_ok hs \<Longrightarrow> running hs' \<subseteq> running hs \<Longrightarrow> hsNext hs' = hsNext hs \<Longrightarrow> host_ok hs'"
  by (rule host_okI) (auto simp: running_def)

lemma stopLocked_obs:
  assumes "stopLocked env m hs = (m', hs')"
  shows "clients m' = []" "mgCfg m' = mgCfg m" "running hs' = running hs - procs_of (clients m)" "hsNext hs' = hsNext hs"
    and "m' = m\<lparr>mgProcessors := [], mgSinks := []\<rparr>"
  using assms
  by (auto simp: stopLocked_def Let_def clients_def fold_close procs_of_def)

text \<open>What the loops start: a client for each entry that is not disabled, in order, on fresh handles.\<close>

definition wanted :: "PluginEntry list \<Rightarrow> PluginEntry list" where
  "wanted es = filter (\<lambda>e. \<not> eDisabled e) es"

definition client_for :: "string \<Rightarrow> PluginEntry \<Rightarrow> Client \<Rightarrow> bool" where
  "client_for kind e c \<longleftrightarrow> clName c = eName e \<and> clKind c = kind \<and>
     clMode c = (if kind = ''processor'' then EffectiveMode e else [])"

lemma load_entries_Loaded:
  assumes "load_entries env dir kind es cs hs = (Loaded cs', hs')" and "host_ok hs"
  shows "\<exists>new. cs' = cs @ new \<and> list_all2 (client_for kind) (wanted es) new \<and> distinct (map clProc new) \<and>
    running hs' = running hs \<union> procs_of new \<and> running hs \<inter> procs_of new = {} \<and> host_ok hs'"
  using assms
proof (induction es arbitrary: cs hs)
  case Nil
  then show ?case by (simp add: wanted_def procs_of_def)
next
  case (Cons e es)
  show ?case
  proof (cases "eDisabled e")
    case True
    then show ?thesis using Cons by (simp add: wanted_def)
  next
    case False
    then obtain bin c hs1 where st: "ResolveBinary env dir e kind = Some bin" "Start env bin e kind hs = (Inr c, hs1)"
      "load_entries env dir kind es (cs @ [c]) hs1 = (Loaded cs', hs')"
      using Cons.prems(1) by (auto split: option.splits prod.splits sum.splits)
    note s = Start_started [OF Cons.prems(2) st(2)]
    from Cons.IH [OF st(3) s(3)] obtain new where new: "cs' = (cs @ [c]) @ new" "list_all2 (client_for kind) (wanted es) new"
      "distinct (map clProc new)" "running hs' = running hs1 \<union> procs_of new" "running hs1 \<inter> procs_of new = {}" "host_ok hs'"
      by blast
    have "list_all2 (client_for kind) (wanted (e # es)) (c # new)"
      using new(2) s(4-6) False by (simp add: wanted_def client_for_def)
    moreover have "distinct (map clProc (c # new))"
      using new(3,5) s(1) by (auto simp: procs_of_def running_def)
    moreover have "running hs' = running hs \<union> procs_of (c # new)" "running hs \<inter> procs_of (c # new) = {}"
      using new(4,5) s(1,2) by (auto simp: running_def procs_of_def)
    ultimately show ?thesis using new(1,6) by (intro exI [of _ "c # new"]) simp
  qed
qed

lemma load_entries_failed:
  assumes "load_entries env dir kind es cs hs = (r, hs')" and "\<And>cs'. r \<noteq> Loaded cs'" and "host_ok hs"
  shows "host_ok hs' \<and> running hs \<subseteq> running hs'"
  using assms
proof (induction es arbitrary: cs hs)
  case (Cons e es)
  show ?case
  proof (cases "eDisabled e \<or> ResolveBinary env dir e kind = None")
    case True
    then show ?thesis using Cons by (auto split: if_splits)
  next
    case False
    then obtain bin where bin: "ResolveBinary env dir e kind = Some bin" by auto
    obtain x hs1 where st: "Start env bin e kind hs = (x, hs1)" by fastforce
    show ?thesis
    proof (cases x)
      case (Inl err)
      then show ?thesis
        using Cons.prems False bin st Start_error [OF Cons.prems(3), of env bin e kind err hs1] by (simp add: running_def)
    next
      case (Inr c)
      note s = Start_started [OF Cons.prems(3) st [unfolded Inr]]
      show ?thesis
        using Cons.IH [of "cs @ [c]" hs1] Cons.prems False bin st s(1,3) Inr by (auto simp: running_def)
    qed
  qed
qed simp

section \<open>Load\<close>

lemma manager_okD:
  assumes "manager_ok m hs"
  shows "host_ok hs" "distinct (map clProc (clients m))" "procs_of (clients m) \<subseteq> running hs"
  using assms by (simp_all add: manager_ok_def)

lemma load_ok:
  assumes ok: "manager_ok m hs" and load: "loadLocked env m hs = (None, m', hs')"
  shows "manager_ok m' hs'" and "mgCfg m' = mgCfg m"
    and "running hs' = running hs - procs_of (clients m) \<union> procs_of (clients m')"
    and "list_all2 (client_for ''processor'') (wanted (Processors (mgCfg m))) (mgProcessors m')"
    and "list_all2 (client_for ''sink'') (wanted (Sinks (mgCfg m))) (mgSinks m')"
proof -
  obtain m1 hs1 where stop: "stopLocked env m hs = (m1, hs1)" by fastforce
  note s = stopLocked_obs [OF stop]
  let ?dir = "PluginDir (mgCfg m)"
  obtain procs hs2 where p: "load_entries env ?dir ''processor'' (Processors (mgCfg m)) [] hs1 = (Loaded procs, hs2)"
    using load by (auto simp: loadLocked_def stop s(2) Let_def split: prod.splits load_result.splits)
  obtain sinks where q: "load_entries env ?dir ''sink'' (Sinks (mgCfg m)) [] hs2 = (Loaded sinks, hs')"
    and m': "m' = m1\<lparr>mgProcessors := procs, mgSinks := sinks\<rparr>"
    using load by (auto simp: loadLocked_def stop s(2) p Let_def split: prod.splits load_result.splits)
  have h1: "host_ok hs1"
    using host_ok_sub [OF manager_okD(1) [OF ok]] s(3,4) by auto
  have P: "list_all2 (client_for ''processor'') (wanted (Processors (mgCfg m))) procs" "distinct (map clProc procs)"
    "running hs2 = running hs1 \<union> procs_of procs" "running hs1 \<inter> procs_of procs = {}" "host_ok hs2"
    using load_entries_Loaded [OF p h1] by auto
  have Q: "list_all2 (client_for ''sink'') (wanted (Sinks (mgCfg m))) sinks" "distinct (map clProc sinks)"
    "running hs' = running hs2 \<union> procs_of sinks" "running hs2 \<inter> procs_of sinks = {}" "host_ok hs'"
    using load_entries_Loaded [OF q P(5)] by auto
  have c: "clients m' = procs @ sinks" by (simp add: m' clients_def)
  have "distinct (map clProc (clients m'))"
    using P(2,3) Q(2,4) by (auto simp: c procs_of_def)
  then show "manager_ok m' hs'"
    using P(3) Q(3,5) by (auto simp: manager_ok_def c procs_of_def)
  show "running hs' = running hs - procs_of (clients m) \<union> procs_of (clients m')"
    using P(3) Q(3) s(3) by (auto simp: c procs_of_def)
  show "list_all2 (client_for ''processor'') (wanted (Processors (mgCfg m))) (mgProcessors m')"
    "list_all2 (client_for ''sink'') (wanted (Sinks (mgCfg m))) (mgSinks m')" "mgCfg m' = mgCfg m"
    using P(1) Q(1) s(2) by (simp_all add: m')
qed

text \<open>After a load that fails the manager has no client, and nothing of what it had still runs.\<close>

lemma load_failed:
  assumes ok: "manager_ok m hs" and load: "loadLocked env m hs = (Some err, m', hs')"
  shows "clients m' = []" and "mgCfg m' = mgCfg m" and "host_ok hs'"
proof -
  obtain m1 hs1 where stop: "stopLocked env m hs = (m1, hs1)" by fastforce
  note s = stopLocked_obs [OF stop]
  have h1: "host_ok hs1"
    using host_ok_sub [OF manager_okD(1) [OF ok]] s(3,4) by auto
  let ?dir = "PluginDir (mgCfg m)"
  obtain rp hs2 where p: "load_entries env ?dir ''processor'' (Processors (mgCfg m)) [] hs1 = (rp, hs2)" by fastforce
  have "m' = m1 \<and> host_ok hs'"
  proof (cases rp)
    case (Loaded procs)
    have h2: "host_ok hs2" using load_entries_Loaded [OF p [unfolded Loaded] h1] by blast
    obtain rs hs3 where q: "load_entries env ?dir ''sink'' (Sinks (mgCfg m)) [] hs2 = (rs, hs3)" by fastforce
    have h3: "(\<And>cs. rs \<noteq> Loaded cs) \<Longrightarrow> host_ok hs3" using load_entries_failed [OF q _ h2] by blast
    show ?thesis
      using load h3 host_ok_sub [of hs3 "fold Kill procs hs3"] fold_kill [of procs hs3]
      by (cases rs) (auto simp: loadLocked_def stop s(2) p q Loaded Let_def)
  qed (use load load_entries_failed [OF p _ h1] in \<open>auto simp: loadLocked_def stop s(2) p Let_def\<close>)
  then show "clients m' = []" "mgCfg m' = mgCfg m" "host_ok hs'"
    using s(1,2) by simp_all
qed

text \<open>Processors that were started when a sink's binary is not found stay without an owner.\<close>

lemma load_orphans:
  assumes ok: "manager_ok m hs" and stop: "stopLocked env m hs = (m1, hs1)"
    and p: "load_entries env (PluginDir (mgCfg m)) ''processor'' (Processors (mgCfg m)) [] hs1 = (Loaded procs, hs2)"
    and q: "load_entries env (PluginDir (mgCfg m)) ''sink'' (Sinks (mgCfg m)) [] hs2 = (ResolveFailed, hs3)"
  shows "loadLocked env m hs = (Some NotFound, m1, hs3)" and "clients m1 = []" and "procs_of procs \<subseteq> running hs3"
proof -
  note s = stopLocked_obs [OF stop]
  have h1: "host_ok hs1"
    using host_ok_sub [OF manager_okD(1) [OF ok]] s(3,4) by auto
  show "loadLocked env m hs = (Some NotFound, m1, hs3)" "clients m1 = []"
    using s p q by (simp_all add: loadLocked_def stop)
  have "running hs2 = running hs1 \<union> procs_of procs" "host_ok hs2"
    using load_entries_Loaded [OF p h1] by auto
  then show "procs_of procs \<subseteq> running hs3"
    using load_entries_failed [OF q] by auto
qed

section \<open>The two kinds of processors\<close>

lemma modes_partition:
  "set (SyncProcessors m) \<union> set (AsyncProcessors m) = set (manager_Processors m)"
  "set (SyncProcessors m) \<inter> set (AsyncProcessors m) = {}"
  by (auto simp: SyncProcessors_def AsyncProcessors_def manager_Processors_def)

end
