(* ===== verification/Go_Chan.thy ===== *)
theory Go_Chan
  imports Prelude "HOL-Library.Sublist"
begin

text \<open>
  Buffered channels of Go, as the event queues of the pipeline and the channels of the debug sink use
  them: a send in a \<^verbatim>\<open>select\<close> with a \<^verbatim>\<open>default\<close>, a receive, and \<^verbatim>\<open>close\<close>; \<open>None\<close> is the panic of a
  send on a closed channel or of a second \<^verbatim>\<open>close\<close>. The locale is what a producer and a consumer
  rely on: values come out in the order they went in, none twice, and none is refused while there is room.
\<close>

section \<open>Channels\<close>

record 'a chan =
  chBuf :: "'a list"
  chCap :: nat
  chClosed :: bool

definition make_chan :: "nat \<Rightarrow> 'a chan" where
  "make_chan n = \<lparr>chBuf = [], chCap = n, chClosed = False\<rparr>"

definition chan_send :: "'a \<Rightarrow> 'a chan \<Rightarrow> ('a chan \<times> bool) option" where
  "chan_send v ch =
     (if chClosed ch then None
      else if length (chBuf ch) < chCap ch then Some (ch\<lparr>chBuf := chBuf ch @ [v]\<rparr>, True)
      else Some (ch, False))"

text \<open>\<open>None\<close>: the receive does not get a value, because the channel is empty.\<close>

definition chan_recv :: "'a chan \<Rightarrow> ('a \<times> 'a chan) option" where
  "chan_recv ch = (case chBuf ch of [] \<Rightarrow> None | v # rest \<Rightarrow> Some (v, ch\<lparr>chBuf := rest\<rparr>))"

definition chan_close :: "'a chan \<Rightarrow> 'a chan option" where
  "chan_close ch = (if chClosed ch then None else Some (ch\<lparr>chClosed := True\<rparr>))"

section \<open>What producers and consumers rely on\<close>

datatype 'a fifo_op = Put 'a | Get

text \<open>A run of sends and receives: the channel, and the values received so far.\<close>

fun fifo_step :: "('a \<Rightarrow> 'c \<Rightarrow> ('c \<times> bool) option) \<Rightarrow> ('c \<Rightarrow> ('a \<times> 'c) option) \<Rightarrow> 'a fifo_op \<Rightarrow>
    'c \<times> 'a list \<Rightarrow> ('c \<times> 'a list) option" where
  "fifo_step put get (Put v) (c, got) = map_option (\<lambda>(c, ok). (c, got)) (put v c)"
| "fifo_step put get Get (c, got) = Some (case get c of None \<Rightarrow> (c, got) | Some (v, c) \<Rightarrow> (c, got @ [v]))"

fun fifo_run :: "('a \<Rightarrow> 'c \<Rightarrow> ('c \<times> bool) option) \<Rightarrow> ('c \<Rightarrow> ('a \<times> 'c) option) \<Rightarrow> 'a fifo_op list \<Rightarrow>
    'c \<times> 'a list \<Rightarrow> ('c \<times> 'a list) option" where
  "fifo_run put get [] s = Some s"
| "fifo_run put get (a # as) s = Option.bind (fifo_step put get a s) (fifo_run put get as)"

fun puts :: "'a fifo_op list \<Rightarrow> 'a list" where
  "puts [] = []"
| "puts (Put v # as) = v # puts as"
| "puts (Get # as) = puts as"

locale bounded_fifo =
  fixes put :: "'a \<Rightarrow> 'c \<Rightarrow> ('c \<times> bool) option"
    and get :: "'c \<Rightarrow> ('a \<times> 'c) option"
    and items :: "'c \<Rightarrow> 'a list"
    and room :: "'c \<Rightarrow> nat"
    and shut :: "'c \<Rightarrow> bool"
  assumes put_open: "\<not> shut c \<Longrightarrow> \<exists>c'. put v c = Some (c', length (items c) < room c) \<and>
      items c' = items c @ (if length (items c) < room c then [v] else []) \<and> room c' = room c \<and> \<not> shut c'"
    and put_shut: "shut c \<Longrightarrow> put v c = None"
    and get_Nil: "items c = [] \<Longrightarrow> get c = None"
    and get_Cons: "items c = v # vs \<Longrightarrow> \<exists>c'. get c = Some (v, c') \<and> items c' = vs \<and> room c' = room c \<and> shut c' = shut c"
begin

lemma step_open:
  assumes "\<not> shut c"
  shows "\<exists>c' got' more. fifo_step put get a (c, got) = Some (c', got') \<and> \<not> shut c' \<and> room c' = room c \<and>
    got' @ items c' = got @ items c @ more \<and> subseq more (puts [a]) \<and>
    (length (items c) < room c \<longrightarrow> more = puts [a]) \<and> (length (items c) \<le> room c \<longrightarrow> length (items c') \<le> room c)"
proof (cases a)
  case (Put v)
  obtain c' where "put v c = Some (c', length (items c) < room c)" "\<not> shut c'" "room c' = room c"
    "items c' = items c @ (if length (items c) < room c then [v] else [])"
    using put_open [OF assms, of v] by blast
  then show ?thesis by (simp add: Put)
next
  case Get
  show ?thesis
  proof (cases "items c")
    case Nil
    then show ?thesis using get_Nil assms by (simp add: Get)
  next
    case (Cons v vs)
    obtain c' where "get c = Some (v, c')" "items c' = vs" "room c' = room c" "shut c' = shut c"
      using get_Cons [OF Cons] by blast
    then show ?thesis using assms Cons by (simp add: Get)
  qed
qed

text \<open>What was received and what is still queued: the former contents, then a part of what was sent.\<close>

lemma run_open:
  assumes "\<not> shut c" and "length (items c) \<le> room c"
  shows "\<exists>c' got' more. fifo_run put get as (c, got) = Some (c', got') \<and> \<not> shut c' \<and> room c' = room c \<and>
    length (items c') \<le> room c \<and> got' @ items c' = got @ items c @ more \<and> subseq more (puts as)"
  using assms
proof (induction as arbitrary: c got)
  case (Cons a as)
  obtain c1 got1 more1 where one: "fifo_step put get a (c, got) = Some (c1, got1)" "\<not> shut c1" "room c1 = room c"
    "got1 @ items c1 = got @ items c @ more1" "subseq more1 (puts [a])" "length (items c1) \<le> room c"
    using step_open [OF Cons.prems(1), of a got] Cons.prems(2) by blast
  then obtain c' got' more where two: "fifo_run put get as (c1, got1) = Some (c', got')" "\<not> shut c'" "room c' = room c1"
    "length (items c') \<le> room c1" "got' @ items c' = got1 @ items c1 @ more" "subseq more (puts as)"
    using Cons.IH [of c1 got1] by auto
  have p: "puts (a # as) = puts [a] @ puts as" by (cases a) simp_all
  have "got' @ items c' = got @ items c @ more1 @ more"
    using two(5) one(4) by (metis append.assoc)
  moreover have "subseq (more1 @ more) (puts (a # as))"
    unfolding p by (rule list_emb_append_mono [OF one(5) two(6)])
  ultimately show ?case using one(1,3) two(1-4) by (intro exI [of _ c'] exI [of _ got'] exI [of _ "more1 @ more"]) simp
qed simp

end

interpretation chan: bounded_fifo chan_send chan_recv chBuf chCap chClosed
  by unfold_locales (auto simp: chan_send_def chan_recv_def)

lemma make_chan_obs [simp]: "chBuf (make_chan n) = []" "chCap (make_chan n) = n" "\<not> chClosed (make_chan n)"
  by (simp_all add: make_chan_def)

end
