(* ===== verification/Pipeline.thy ===== *)
theory Pipeline
  imports Plugin_Manager Go_Chan
begin

text \<open>
  \<^verbatim>\<open>internal/pipeline/pipeline.go\<close>: synchronous processors, then one bounded queue with a worker for
  each sink and each asynchronous processor. Channels live in a list, \<^verbatim>\<open>sinkQueues\<close> and
  \<^verbatim>\<open>asyncQueues\<close> map plugin names to them, and a worker knows its client and its channel. The workers
  run between the operations: \<open>worker_step\<close> is one turn of a worker's loop. \<open>wkSeen\<close> records the events
  a worker has taken, \<open>plDropped\<close> the names passed to \<^verbatim>\<open>onDrop\<close>.
\<close>

section \<open>State\<close>

datatype worker_kind = SinkWorker | AsyncWorker

record worker =
  wkKind :: worker_kind
  wkName :: string
  wkClient :: Client
  wkChan :: nat
  wkDone :: bool
  wkSeen :: "CaptureEvent list"

record Pipeline =
  plMgr :: Manager
  plQueueSize :: nat
  plSinkQueues :: "string \<rightharpoonup> nat"
  plAsyncQueues :: "string \<rightharpoonup> nat"
  plChans :: "CaptureEvent chan list"
  plWorkers :: "worker list"
  plCancelled :: bool
  plDropped :: "string list"

definition newPipeline :: "Manager \<Rightarrow> int \<Rightarrow> Pipeline" where
  "newPipeline mgr queueSize =
     (let queueSize = (if queueSize \<le> 0 then 256 else queueSize)
      in \<lparr>plMgr = mgr, plQueueSize = nat queueSize, plSinkQueues = Map.empty, plAsyncQueues = Map.empty,
          plChans = [], plWorkers = [], plCancelled = False, plDropped = []\<rparr>)"

section \<open>Workers\<close>

definition start_worker :: "worker_kind \<Rightarrow> Client \<Rightarrow> Pipeline \<Rightarrow> Pipeline" where
  "start_worker kind c p =
     (let name = piName (clInfo c);
          ch = length (plChans p);
          p = p\<lparr>plChans := plChans p @ [make_chan (plQueueSize p)]\<rparr>;
          p = (case kind of
                 SinkWorker \<Rightarrow> p\<lparr>plSinkQueues := (plSinkQueues p)(name \<mapsto> ch)\<rparr>
               | AsyncWorker \<Rightarrow> p\<lparr>plAsyncQueues := (plAsyncQueues p)(name \<mapsto> ch)\<rparr>)
      in p\<lparr>plWorkers := plWorkers p @
            [\<lparr>wkKind = kind, wkName = name, wkClient = c, wkChan = ch, wkDone = False, wkSeen = []\<rparr>]\<rparr>)"

definition startWorkers :: "Pipeline \<Rightarrow> Pipeline" where
  "startWorkers p =
     (let p = fold (start_worker SinkWorker) (manager_Sinks (plMgr p)) p
      in fold (start_worker AsyncWorker) (AsyncProcessors (plMgr p)) p)"

definition pipeline_Start :: "Pipeline \<Rightarrow> Pipeline" where
  "pipeline_Start p = startWorkers (p\<lparr>plCancelled := False\<rparr>)"

text \<open>
  One turn of worker \<open>w\<close>: with \<open>ctxDone\<close> the \<^verbatim>\<open>select\<close> takes the case of the cancelled context, which it
  may do whenever the context is cancelled and does when there is nothing to receive; otherwise it
  receives, or waits. The plugin's answer is only logged.
\<close>

definition deliver :: "'p env \<Rightarrow> worker \<Rightarrow> CaptureEvent \<Rightarrow> 'p host \<Rightarrow> 'p host" where
  "deliver env w ev hs =
     (case wkKind w of
        SinkWorker \<Rightarrow> snd (client_Emit env ev (wkClient w) hs)
      | AsyncWorker \<Rightarrow> snd (client_Process env ev (wkClient w) hs))"

definition worker_step :: "'p env \<Rightarrow> nat \<Rightarrow> bool \<Rightarrow> Pipeline \<Rightarrow> 'p host \<Rightarrow> Pipeline \<times> 'p host" where
  "worker_step env i ctxDone p hs =
     (if length (plWorkers p) \<le> i then (p, hs)
      else
        let w = plWorkers p ! i; ch = plChans p ! wkChan w
        in if wkDone w then (p, hs)
           else if ctxDone \<and> plCancelled p then (p\<lparr>plWorkers := (plWorkers p)[i := w\<lparr>wkDone := True\<rparr>]\<rparr>, hs)
           else (case chBuf ch of
                   ev # rest \<Rightarrow>
                     (p\<lparr>plChans := (plChans p)[wkChan w := ch\<lparr>chBuf := rest\<rparr>],
                        plWorkers := (plWorkers p)[i := w\<lparr>wkSeen := wkSeen w @ [ev]\<rparr>]\<rparr>,
                      deliver env w ev hs)
                 | [] \<Rightarrow>
                     if chClosed ch \<or> plCancelled p then (p\<lparr>plWorkers := (plWorkers p)[i := w\<lparr>wkDone := True\<rparr>]\<rparr>, hs)
                     else (p, hs)))"

definition close_chan :: "nat \<Rightarrow> CaptureEvent chan list \<Rightarrow> CaptureEvent chan list" where
  "close_chan c cs = cs[c := (cs ! c)\<lparr>chClosed := True\<rparr>]"

text \<open>The first half of \<^verbatim>\<open>stopWorkers\<close>; the lists enumerate the two maps.\<close>

definition closeQueues :: "nat list \<Rightarrow> nat list \<Rightarrow> Pipeline \<Rightarrow> Pipeline" where
  "closeQueues sinks asyncs p =
     (let p = p\<lparr>plSinkQueues := Map.empty, plAsyncQueues := Map.empty\<rparr>;
          p = p\<lparr>plChans := fold close_chan sinks (plChans p)\<rparr>
      in p\<lparr>plChans := fold close_chan asyncs (plChans p)\<rparr>)"

text \<open>The second half, \<^verbatim>\<open>wg.Wait()\<close>: it returns when every worker has.\<close>

definition all_done :: "Pipeline \<Rightarrow> bool" where
  "all_done p \<longleftrightarrow> (\<forall>w \<in> set (plWorkers p). wkDone w)"

text \<open>A schedule: which worker takes a turn, and whether it sees the cancelled context.\<close>

type_synonym schedule = "(nat \<times> bool) list"

definition run_workers :: "'p env \<Rightarrow> schedule \<Rightarrow> Pipeline \<Rightarrow> 'p host \<Rightarrow> Pipeline \<times> 'p host" where
  "run_workers env sched p hs = fold (\<lambda>(i, d) (p, hs). worker_step env i d p hs) sched (p, hs)"

text \<open>\<^verbatim>\<open>stopWorkers\<close> under a schedule; \<open>None\<close> when it does not return under it.\<close>

definition stopWorkers :: "'p env \<Rightarrow> nat list \<Rightarrow> nat list \<Rightarrow> schedule \<Rightarrow> Pipeline \<Rightarrow> 'p host \<Rightarrow> (Pipeline \<times> 'p host) option" where
  "stopWorkers env sinks asyncs sched p hs =
     (let (p, hs) = run_workers env sched (closeQueues sinks asyncs p) hs
      in if all_done p then Some (p, hs) else None)"

definition AfterReload :: "'p env \<Rightarrow> nat list \<Rightarrow> nat list \<Rightarrow> schedule \<Rightarrow> Pipeline \<Rightarrow> 'p host \<Rightarrow> (Pipeline \<times> 'p host) option" where
  "AfterReload env sinks asyncs sched p hs =
     (case stopWorkers env sinks asyncs sched p hs of
        None \<Rightarrow> None
      | Some (p, hs) \<Rightarrow> Some (startWorkers p, hs))"

definition pipeline_Close :: "'p env \<Rightarrow> nat list \<Rightarrow> nat list \<Rightarrow> schedule \<Rightarrow> Pipeline \<Rightarrow> 'p host \<Rightarrow> (Pipeline \<times> 'p host) option" where
  "pipeline_Close env sinks asyncs sched p hs =
     (case stopWorkers env sinks asyncs sched (p\<lparr>plCancelled := True\<rparr>) hs of
        None \<Rightarrow> None
      | Some (p, hs) \<Rightarrow> let (m, hs) = manager_Close env (plMgr p) hs in Some (p\<lparr>plMgr := m\<rparr>, hs))"

section \<open>Emit\<close>

text \<open>The panic of a send on a closed channel is recovered from.\<close>

definition trySend :: "nat \<Rightarrow> CaptureEvent \<Rightarrow> Pipeline \<Rightarrow> Pipeline \<times> bool" where
  "trySend c ev p =
     (case chan_send ev (plChans p ! c) of
        None \<Rightarrow> (p, False)
      | Some (ch, ok) \<Rightarrow> (p\<lparr>plChans := (plChans p)[c := ch]\<rparr>, ok))"

fun run_sync :: "'p env \<Rightarrow> Client list \<Rightarrow> CaptureEvent \<Rightarrow> 'p host \<Rightarrow> CaptureEvent \<times> 'p host" where
  "run_sync env [] cur hs = (cur, hs)"
| "run_sync env (proc # procs) cur hs =
     (case client_Process env cur proc hs of
        (Inl err, hs) \<Rightarrow> run_sync env procs cur hs
      | (Inr out, hs) \<Rightarrow> run_sync env procs out hs)"

definition stamp :: "BuildInfo \<Rightarrow> Manager \<Rightarrow> CaptureEvent \<Rightarrow> CaptureEvent" where
  "stamp v m ev =
     ev\<lparr>ceClawguardVersion := biVersion v, ceClawguardCommit := biCommit v,
        ceClawguardEdition := biEdition v, cePlugins := PluginRefs m\<rparr>"

text \<open>One round of a fan-out: every queue gets its own deep copy.\<close>

definition send_or_drop :: "string \<Rightarrow> CaptureEvent \<Rightarrow> string \<times> nat \<Rightarrow> Pipeline \<Rightarrow> Pipeline" where
  "send_or_drop pre cur q p =
     (let (p, ok) = trySend (snd q) cur p
      in if ok then p else p\<lparr>plDropped := plDropped p @ [pre @ fst q]\<rparr>)"

text \<open>The two lists are the entries of the two maps, in the order of the iteration.\<close>

definition pipeline_Emit :: "BuildInfo \<Rightarrow> 'p env \<Rightarrow> (string \<times> nat) list \<Rightarrow> (string \<times> nat) list \<Rightarrow>
    CaptureEvent option \<Rightarrow> Pipeline \<Rightarrow> 'p host \<Rightarrow> Pipeline \<times> 'p host" where
  "pipeline_Emit v env sinks asyncs ev p hs =
     (case ev of
        None \<Rightarrow> (p, hs)
      | Some ev \<Rightarrow>
          let ev = stamp v (plMgr p) ev;
              (cur, hs) = run_sync env (SyncProcessors (plMgr p)) ev hs;
              p = fold (send_or_drop [] cur) sinks p;
              p = fold (send_or_drop ''processor:'' cur) asyncs p
          in (p, hs))"

section \<open>Invariant\<close>

text \<open>
  Queues are bounded, every worker has a channel of its own, and a queue that is registered is open
  and is no other queue.
\<close>

definition chans_ok :: "Pipeline \<Rightarrow> bool" where
  "chans_ok p \<longleftrightarrow> 0 < plQueueSize p \<and>
     (\<forall>ch \<in> set (plChans p). length (chBuf ch) \<le> plQueueSize p \<and> chCap ch = plQueueSize p) \<and>
     distinct (map wkChan (plWorkers p)) \<and> (\<forall>w \<in> set (plWorkers p). wkChan w < length (plChans p))"

definition registered :: "Pipeline \<Rightarrow> nat set" where
  "registered p = ran (plSinkQueues p) \<union> ran (plAsyncQueues p)"

lemma chans_okD:
  assumes "chans_ok p"
  shows "0 < plQueueSize p" "c < length (plChans p) \<Longrightarrow> length (chBuf (plChans p ! c)) \<le> plQueueSize p"
    "c < length (plChans p) \<Longrightarrow> chCap (plChans p ! c) = plQueueSize p"
    "i < length (plWorkers p) \<Longrightarrow> wkChan (plWorkers p ! i) < length (plChans p)"
    "i < length (plWorkers p) \<Longrightarrow> j < length (plWorkers p) \<Longrightarrow> wkChan (plWorkers p ! i) = wkChan (plWorkers p ! j) \<Longrightarrow> i = j"
  using assms by (auto simp: chans_ok_def distinct_conv_nth)

lemma newPipeline_ok: "chans_ok (newPipeline mgr n)"
  by (simp add: newPipeline_def chans_ok_def Let_def)

text \<open>What worker \<open>i\<close> has taken or will find in its queue.\<close>

definition flow :: "Pipeline \<Rightarrow> nat \<Rightarrow> CaptureEvent list" where
  "flow p i = wkSeen (plWorkers p ! i) @ chBuf (plChans p ! wkChan (plWorkers p ! i))"

lemma chans_ok_upd_chan:
  assumes "chans_ok p" and "length (chBuf ch) \<le> plQueueSize p" and "chCap ch = plQueueSize p"
  shows "chans_ok (p\<lparr>plChans := (plChans p)[c := ch]\<rparr>)"
  using assms by (auto simp: chans_ok_def dest!: set_update_cases)

lemma chans_ok_upd_worker:
  assumes "chans_ok p" and "wkChan w = wkChan (plWorkers p ! i)"
  shows "chans_ok (p\<lparr>plWorkers := (plWorkers p)[i := w]\<rparr>)"
proof (cases "i < length (plWorkers p)")
  case True
  have "map wkChan ((plWorkers p)[i := w]) = map wkChan (plWorkers p)"
    using assms(2) True by (metis list_update_id map_update nth_map)
  moreover have "\<forall>w \<in> set ((plWorkers p)[i := w]). wkChan w < length (plChans p)"
    using assms True by (auto simp: chans_ok_def dest!: set_update_cases)
  ultimately show ?thesis using assms(1) by (simp add: chans_ok_def)
next
  case False
  then show ?thesis using assms(1) by (simp add: list_update_beyond)
qed

text \<open>The turns of a worker, one equation for each branch.\<close>

definition turn_over :: "nat \<Rightarrow> Pipeline \<Rightarrow> Pipeline" where
  "turn_over i p = p\<lparr>plWorkers := (plWorkers p)[i := (plWorkers p ! i)\<lparr>wkDone := True\<rparr>]\<rparr>"

definition turn_take :: "nat \<Rightarrow> CaptureEvent \<Rightarrow> CaptureEvent list \<Rightarrow> Pipeline \<Rightarrow> Pipeline" where
  "turn_take i ev rest p =
     (let w = plWorkers p ! i
      in p\<lparr>plChans := (plChans p)[wkChan w := (plChans p ! wkChan w)\<lparr>chBuf := rest\<rparr>],
           plWorkers := (plWorkers p)[i := w\<lparr>wkSeen := wkSeen w @ [ev]\<rparr>]\<rparr>)"

lemma worker_step_eq:
  "worker_step env i d p hs =
     (if length (plWorkers p) \<le> i \<or> wkDone (plWorkers p ! i) then (p, hs)
      else if d \<and> plCancelled p then (turn_over i p, hs)
      else case chBuf (plChans p ! wkChan (plWorkers p ! i)) of
             ev # rest \<Rightarrow> (turn_take i ev rest p, deliver env (plWorkers p ! i) ev hs)
           | [] \<Rightarrow> if chClosed (plChans p ! wkChan (plWorkers p ! i)) \<or> plCancelled p then (turn_over i p, hs) else (p, hs))"
proof (cases "length (plWorkers p) \<le> i")
  case False
  then show ?thesis
    unfolding worker_step_def turn_over_def turn_take_def Let_def if_not_P [OF False]
    by (simp only: False simp_thms)
qed (simp add: worker_step_def)

lemma worker_step_cases:
  assumes "worker_step env i d p hs = (p', hs')"
  obtains (idle) "p' = p" "hs' = hs" "length (plWorkers p) \<le> i \<or> wkDone (plWorkers p ! i) \<or>
      \<not> chClosed (plChans p ! wkChan (plWorkers p ! i)) \<and> chBuf (plChans p ! wkChan (plWorkers p ! i)) = [] \<and> \<not> plCancelled p"
  | (finish) "i < length (plWorkers p)" "p' = turn_over i p" "hs' = hs"
      "chClosed (plChans p ! wkChan (plWorkers p ! i)) \<and> chBuf (plChans p ! wkChan (plWorkers p ! i)) = [] \<or> plCancelled p"
  | (take) ev rest where "i < length (plWorkers p)" "chBuf (plChans p ! wkChan (plWorkers p ! i)) = ev # rest"
      "\<not> wkDone (plWorkers p ! i)" "p' = turn_take i ev rest p" "hs' = deliver env (plWorkers p ! i) ev hs"
proof -
  note st = assms [unfolded worker_step_eq]
  show thesis
  proof (cases "length (plWorkers p) \<le> i \<or> wkDone (plWorkers p ! i)")
    case True
    then have "p' = p" "hs' = hs" using st by simp_all
    then show ?thesis using True by (intro idle) blast+
  next
    case False
    then show ?thesis
      using st idle finish take by (simp split: if_splits list.splits)
  qed
qed

lemma worker_step_ok:
  assumes ok: "chans_ok p" and st: "worker_step env i d p hs = (p', hs')"
  shows "chans_ok p'" and "length (plWorkers p') = length (plWorkers p)" and "plDropped p' = plDropped p"
    and "plSinkQueues p' = plSinkQueues p" "plAsyncQueues p' = plAsyncQueues p" "plMgr p' = plMgr p"
    and "plCancelled p' = plCancelled p" and "plQueueSize p' = plQueueSize p"
    and "length (plChans p') = length (plChans p)"
    and "j < length (plWorkers p) \<Longrightarrow> flow p' j = flow p j"
    and "j < length (plWorkers p) \<Longrightarrow> wkChan (plWorkers p' ! j) = wkChan (plWorkers p ! j)"
    and "c < length (plChans p) \<Longrightarrow> chClosed (plChans p' ! c) = chClosed (plChans p ! c)"
proof -
  have main: "chans_ok p' \<and> length (plWorkers p') = length (plWorkers p) \<and> plDropped p' = plDropped p \<and>
      plSinkQueues p' = plSinkQueues p \<and> plAsyncQueues p' = plAsyncQueues p \<and> plMgr p' = plMgr p \<and>
      plCancelled p' = plCancelled p \<and> plQueueSize p' = plQueueSize p \<and> length (plChans p') = length (plChans p) \<and>
      (\<forall>j < length (plWorkers p). flow p' j = flow p j \<and> wkChan (plWorkers p' ! j) = wkChan (plWorkers p ! j)) \<and>
      (\<forall>c < length (plChans p). chClosed (plChans p' ! c) = chClosed (plChans p ! c))"
    using st
  proof (cases rule: worker_step_cases)
    case idle
    then show ?thesis using ok by simp
  next
    case finish
    have "chans_ok p'" unfolding finish(2) turn_over_def by (rule chans_ok_upd_worker [OF ok]) simp
    then show ?thesis using finish(1,2) by (simp add: flow_def nth_list_update turn_over_def)
  next
    case (take ev rest)
    let ?w = "plWorkers p ! i"
    let ?ch = "plChans p ! wkChan ?w"
    note c = chans_okD(4) [OF ok take(1)]
    have "length (chBuf (?ch\<lparr>chBuf := rest\<rparr>)) \<le> plQueueSize p" "chCap (?ch\<lparr>chBuf := rest\<rparr>) = plQueueSize p"
      using chans_okD(2,3) [OF ok c] take(2) by simp_all
    note ok1 = chans_ok_upd_chan [OF ok this, of "wkChan ?w"]
    have "chans_ok p'"
      using chans_ok_upd_worker [OF ok1, of "?w\<lparr>wkSeen := wkSeen ?w @ [ev]\<rparr>" i]
      by (simp add: take(4) turn_take_def Let_def)
    moreover have "flow p' j = flow p j" if j: "j < length (plWorkers p)" for j
      using chans_okD(5) [OF ok take(1) j] take(1,2) j c
      by (cases "i = j") (auto simp: flow_def nth_list_update take(4) turn_take_def Let_def)
    ultimately show ?thesis
      using take(1) c by (simp add: nth_list_update take(4) turn_take_def Let_def)
  qed
  then show "chans_ok p'" "length (plWorkers p') = length (plWorkers p)" "plDropped p' = plDropped p"
    "plSinkQueues p' = plSinkQueues p" "plAsyncQueues p' = plAsyncQueues p" "plMgr p' = plMgr p"
    "plCancelled p' = plCancelled p" "plQueueSize p' = plQueueSize p" "length (plChans p') = length (plChans p)"
    "j < length (plWorkers p) \<Longrightarrow> flow p' j = flow p j"
    "j < length (plWorkers p) \<Longrightarrow> wkChan (plWorkers p' ! j) = wkChan (plWorkers p ! j)"
    "c < length (plChans p) \<Longrightarrow> chClosed (plChans p' ! c) = chClosed (plChans p ! c)"
    by blast+
qed

section \<open>Sends and turns in any order\<close>

text \<open>The steps that happen between two changes of the worker set, in the order they happen.\<close>

datatype pl_op = Send string CaptureEvent "string \<times> nat" | Turn nat bool

definition do_op :: "'p env \<Rightarrow> pl_op \<Rightarrow> Pipeline \<times> 'p host \<Rightarrow> Pipeline \<times> 'p host" where
  "do_op env a s =
     (case a of
        Send pre ev q \<Rightarrow> (send_or_drop pre ev q (fst s), snd s)
      | Turn i d \<Rightarrow> worker_step env i d (fst s) (snd s))"

definition run_ops :: "'p env \<Rightarrow> pl_op list \<Rightarrow> Pipeline \<times> 'p host \<Rightarrow> Pipeline \<times> 'p host" where
  "run_ops env ops s = fold (do_op env) ops s"

text \<open>The events offered to a channel.\<close>

fun offered :: "nat \<Rightarrow> pl_op list \<Rightarrow> CaptureEvent list" where
  "offered c [] = []"
| "offered c (Send pre ev q # ops) = (if snd q = c then ev # offered c ops else offered c ops)"
| "offered c (Turn i d # ops) = offered c ops"

definition sends :: "pl_op list \<Rightarrow> nat" where
  "sends ops = length (filter (\<lambda>a. case a of Send pre ev q \<Rightarrow> True | Turn i d \<Rightarrow> False) ops)"

definition send_ok :: "nat \<Rightarrow> Pipeline \<Rightarrow> bool" where
  "send_ok c p \<longleftrightarrow> \<not> chClosed (plChans p ! c) \<and> length (chBuf (plChans p ! c)) < chCap (plChans p ! c)"

lemma send_or_drop_eq:
  "send_or_drop pre ev q p =
     (if send_ok (snd q) p
      then p\<lparr>plChans := (plChans p)[snd q := (plChans p ! snd q)\<lparr>chBuf := chBuf (plChans p ! snd q) @ [ev]\<rparr>]\<rparr>
      else p\<lparr>plDropped := plDropped p @ [pre @ fst q]\<rparr>)"
  by (simp add: send_or_drop_def trySend_def Let_def send_ok_def chan_send_def)

lemma send_or_drop_ok:
  assumes ok: "chans_ok p" and c: "snd q < length (plChans p)"
  shows "chans_ok (send_or_drop pre ev q p)" and "plWorkers (send_or_drop pre ev q p) = plWorkers p"
    and "length (plChans (send_or_drop pre ev q p)) = length (plChans p)"
    and "plSinkQueues (send_or_drop pre ev q p) = plSinkQueues p" "plAsyncQueues (send_or_drop pre ev q p) = plAsyncQueues p"
    and "plMgr (send_or_drop pre ev q p) = plMgr p" "plCancelled (send_or_drop pre ev q p) = plCancelled p"
    and "plQueueSize (send_or_drop pre ev q p) = plQueueSize p"
    and "plDropped (send_or_drop pre ev q p) = plDropped p @ (if send_ok (snd q) p then [] else [pre @ fst q])"
    and "j < length (plWorkers p) \<Longrightarrow> flow (send_or_drop pre ev q p) j =
      flow p j @ (if wkChan (plWorkers p ! j) = snd q \<and> send_ok (snd q) p then [ev] else [])"
    and "d < length (plChans p) \<Longrightarrow> chBuf (plChans (send_or_drop pre ev q p) ! d) =
      chBuf (plChans p ! d) @ (if d = snd q \<and> send_ok d p then [ev] else [])"
    and "d < length (plChans p) \<Longrightarrow> chClosed (plChans (send_or_drop pre ev q p) ! d) = chClosed (plChans p ! d)"
proof -
  have "chans_ok (p\<lparr>plDropped := x\<rparr>)" for x using ok by (simp add: chans_ok_def)
  moreover have "chans_ok (p\<lparr>plChans := (plChans p)[snd q := (plChans p ! snd q)\<lparr>chBuf := chBuf (plChans p ! snd q) @ [ev]\<rparr>]\<rparr>)"
    if "send_ok (snd q) p"
    using that chans_okD(2,3) [OF ok c] by (intro chans_ok_upd_chan [OF ok]) (simp_all add: send_ok_def)
  ultimately show "chans_ok (send_or_drop pre ev q p)" by (simp add: send_or_drop_eq)
qed (use c in \<open>simp_all add: send_or_drop_eq flow_def nth_list_update\<close>)

text \<open>The drops counted under one tag.\<close>

definition drops :: "string \<Rightarrow> Pipeline \<Rightarrow> nat" where
  "drops tag p = length (filter (\<lambda>t. t = tag) (plDropped p))"

text \<open>The sends to a channel are the sends with its tag.\<close>

definition tagged :: "pl_op list \<Rightarrow> string \<Rightarrow> nat \<Rightarrow> bool" where
  "tagged ops tag c \<longleftrightarrow>
     (\<forall>a \<in> set ops. case a of Send pre ev q \<Rightarrow> (pre @ fst q = tag \<longleftrightarrow> snd q = c) | Turn i d \<Rightarrow> True)"

definition ops_in :: "pl_op list \<Rightarrow> Pipeline \<Rightarrow> bool" where
  "ops_in ops p \<longleftrightarrow> (\<forall>a \<in> set ops. case a of Send pre ev q \<Rightarrow> snd q < length (plChans p) | Turn i d \<Rightarrow> True)"

text \<open>
  Whatever the order of sends and turns: a worker sees the events that were offered to its queue in
  their order, none twice, and an event that it does not get is counted as a drop.
\<close>

lemma run_ops_flow:
  assumes "chans_ok p" and "ops_in ops p" and "i < length (plWorkers p)" and "run_ops env ops (p, hs) = (p', hs')"
    and "tagged ops tag (wkChan (plWorkers p ! i))"
  shows "chans_ok p' \<and> length (plWorkers p') = length (plWorkers p) \<and> length (plChans p') = length (plChans p) \<and>
    wkChan (plWorkers p' ! i) = wkChan (plWorkers p ! i) \<and>
    (\<exists>new. flow p' i = flow p i @ new \<and> subseq new (offered (wkChan (plWorkers p ! i)) ops) \<and>
       drops tag p' + length new = drops tag p + length (offered (wkChan (plWorkers p ! i)) ops))"
  using assms
proof (induction ops arbitrary: p hs)
  case Nil
  then show ?case by (simp add: run_ops_def)
next
  case (Cons a ops)
  obtain p1 hs1 where st: "do_op env a (p, hs) = (p1, hs1)" by fastforce
  have r: "run_ops env ops (p1, hs1) = (p', hs')"
    using Cons.prems(4) st by (simp add: run_ops_def)
  have one: "chans_ok p1 \<and> length (plWorkers p1) = length (plWorkers p) \<and> length (plChans p1) = length (plChans p) \<and>
      wkChan (plWorkers p1 ! i) = wkChan (plWorkers p ! i) \<and>
      (\<exists>new. flow p1 i = flow p i @ new \<and> subseq new (offered (wkChan (plWorkers p ! i)) [a]) \<and>
         drops tag p1 + length new = drops tag p + length (offered (wkChan (plWorkers p ! i)) [a]))"
  proof (cases a)
    case (Send pre ev q)
    then have q: "snd q < length (plChans p)" using Cons.prems(2) by (simp add: ops_in_def)
    have p1: "p1 = send_or_drop pre ev q p" using st Send by (simp add: do_op_def)
    note s = send_or_drop_ok [OF Cons.prems(1) q, where pre = pre and ev = ev]
    show ?thesis
      using s(1,2,3) s(10) [OF Cons.prems(3)] s(9) Cons.prems(5) by (auto simp: p1 Send drops_def tagged_def)
  next
    case (Turn j d)
    have p1: "worker_step env j d p hs = (p1, hs1)" using st Turn by (simp add: do_op_def)
    note s = worker_step_ok [OF Cons.prems(1) p1]
    show ?thesis
      using s(1,2,3,9) s(10,11) [OF Cons.prems(3)] by (simp add: Turn drops_def)
  qed
  then have "ops_in ops p1" "i < length (plWorkers p1)" "tagged ops tag (wkChan (plWorkers p1 ! i))"
    using Cons.prems(2,3,5) unfolding ops_in_def tagged_def by (simp_all split: pl_op.splits)
  from Cons.IH [OF _ this(1,2) r this(3)] one
  have ih: "chans_ok p' \<and> length (plWorkers p') = length (plWorkers p1) \<and> length (plChans p') = length (plChans p1) \<and>
    wkChan (plWorkers p' ! i) = wkChan (plWorkers p1 ! i) \<and>
    (\<exists>new. flow p' i = flow p1 i @ new \<and> subseq new (offered (wkChan (plWorkers p1 ! i)) ops) \<and>
       drops tag p' + length new = drops tag p1 + length (offered (wkChan (plWorkers p1 ! i)) ops))"
    by blast
  let ?c = "wkChan (plWorkers p ! i)"
  obtain n1 where n1: "flow p1 i = flow p i @ n1" "subseq n1 (offered ?c [a])"
    "drops tag p1 + length n1 = drops tag p + length (offered ?c [a])" using one by blast
  obtain n2 where n2: "flow p' i = flow p1 i @ n2" "subseq n2 (offered ?c ops)"
    "drops tag p' + length n2 = drops tag p1 + length (offered ?c ops)" using ih one by auto
  have off: "offered ?c (a # ops) = offered ?c [a] @ offered ?c ops"
    by (cases a) simp_all
  have "flow p' i = flow p i @ (n1 @ n2)" using n1(1) n2(1) by simp
  moreover have "subseq (n1 @ n2) (offered ?c (a # ops))"
    unfolding off by (rule list_emb_append_mono [OF n1(2) n2(2)])
  moreover have "drops tag p' + length (n1 @ n2) = drops tag p + length (offered ?c (a # ops))"
    using n1(3) n2(3) unfolding off by simp
  ultimately show ?case using ih one by auto
qed

end
