(* ===== verification/Pipeline_Workers.thy ===== *)
theory Pipeline_Workers
  imports Pipeline
begin

text \<open>
  Facts about the life of the workers of the pipeline: what a start makes, what a stop under a schedule
  delivers and when it returns, what a pipeline is that has just started, and the fan-out of an emit.
\<close>

section \<open>Starting the workers\<close>

definition pname :: "Client \<Rightarrow> string" where
  "pname c = piName (clInfo c)"

definition worker_for :: "worker_kind \<Rightarrow> Client \<Rightarrow> nat \<Rightarrow> worker" where
  "worker_for kind c n = \<lparr>wkKind = kind, wkName = pname c, wkClient = c, wkChan = n, wkDone = False, wkSeen = []\<rparr>"

definition queue_map :: "Client list \<Rightarrow> nat \<Rightarrow> (string \<rightharpoonup> nat)" where
  "queue_map cs n = map_of (rev (zip (map pname cs) [n..<n + length cs]))"

lemma upt_Cons: "[n..<n + length (c # cs)] = n # [Suc n..<Suc n + length cs]"
  by (simp add: upt_conv_Cons del: upt_Suc)

lemma queue_map_Cons: "queue_map (c # cs) n = [pname c \<mapsto> n] ++ queue_map cs (Suc n)"
  unfolding queue_map_def upt_Cons by simp

lemma start_worker_obs:
  "plWorkers (start_worker k c p) = plWorkers p @ [worker_for k c (length (plChans p))]"
  "plChans (start_worker k c p) = plChans p @ [make_chan (plQueueSize p)]"
  "plSinkQueues (start_worker k c p) = (if k = SinkWorker then (plSinkQueues p)(pname c \<mapsto> length (plChans p)) else plSinkQueues p)"
  "plAsyncQueues (start_worker k c p) = (if k = AsyncWorker then (plAsyncQueues p)(pname c \<mapsto> length (plChans p)) else plAsyncQueues p)"
  "plMgr (start_worker k c p) = plMgr p" "plCancelled (start_worker k c p) = plCancelled p"
  "plQueueSize (start_worker k c p) = plQueueSize p" "plDropped (start_worker k c p) = plDropped p"
  by (simp_all add: start_worker_def Let_def worker_for_def pname_def split: worker_kind.split)

lemma fold_start_obs:
  "plWorkers (fold (start_worker k) cs p) =
     plWorkers p @ map2 (worker_for k) cs [length (plChans p)..<length (plChans p) + length cs] \<and>
   plChans (fold (start_worker k) cs p) = plChans p @ replicate (length cs) (make_chan (plQueueSize p)) \<and>
   plSinkQueues (fold (start_worker k) cs p) =
     (if k = SinkWorker then plSinkQueues p ++ queue_map cs (length (plChans p)) else plSinkQueues p) \<and>
   plAsyncQueues (fold (start_worker k) cs p) =
     (if k = AsyncWorker then plAsyncQueues p ++ queue_map cs (length (plChans p)) else plAsyncQueues p) \<and>
   plMgr (fold (start_worker k) cs p) = plMgr p \<and> plCancelled (fold (start_worker k) cs p) = plCancelled p \<and>
   plQueueSize (fold (start_worker k) cs p) = plQueueSize p \<and> plDropped (fold (start_worker k) cs p) = plDropped p"
proof (induction cs arbitrary: p)
  case Nil
  then show ?case by (simp add: queue_map_def)
next
  case (Cons c cs)
  show ?case
    using Cons.IH [of "start_worker k c p"] unfolding upt_Cons queue_map_Cons
    by (auto simp: start_worker_obs simp del: fun_upd_apply)
qed

lemma start_worker_ok:
  assumes "chans_ok p"
  shows "chans_ok (start_worker k c p)"
proof -
  have "wkChan w \<noteq> length (plChans p)" if "w \<in> set (plWorkers p)" for w
    using assms that by (auto simp: chans_ok_def)
  then have "distinct (map wkChan (plWorkers (start_worker k c p)))"
    using assms by (auto simp: start_worker_obs worker_for_def chans_ok_def)
  moreover have "\<forall>w \<in> set (plWorkers (start_worker k c p)). wkChan w < length (plChans (start_worker k c p))"
    using assms by (auto simp: start_worker_obs worker_for_def chans_ok_def less_Suc_eq)
  ultimately show ?thesis
    using assms by (auto simp: chans_ok_def start_worker_obs make_chan_def)
qed

lemma startWorkers_ok: "chans_ok p \<Longrightarrow> chans_ok (startWorkers p)"
proof -
  have "chans_ok p \<Longrightarrow> chans_ok (fold (start_worker k) cs p)" for k cs p
    by (induction cs arbitrary: p) (simp_all add: start_worker_ok)
  then show "chans_ok p \<Longrightarrow> chans_ok (startWorkers p)"
    by (simp add: startWorkers_def Let_def)
qed

text \<open>The channel numbers of the sinks, then those of the asynchronous processors.\<close>

lemma startWorkers_size: "plQueueSize (startWorkers p) = plQueueSize p"
proof -
  have "plQueueSize (fold (start_worker k) cs p) = plQueueSize p" for k cs p
    by (induction cs arbitrary: p) (simp_all add: start_worker_def Let_def split: worker_kind.split)
  then show ?thesis by (simp add: startWorkers_def Let_def)
qed

lemma startWorkers_obs:
  fixes p
  defines "n \<equiv> length (plChans p)" and "ss \<equiv> manager_Sinks (plMgr p)" and "as \<equiv> AsyncProcessors (plMgr p)"
  shows "plWorkers (startWorkers p) = plWorkers p @ map2 (worker_for SinkWorker) ss [n..<n + length ss] @
      map2 (worker_for AsyncWorker) as [n + length ss..<n + length ss + length as]"
    and "plChans (startWorkers p) = plChans p @ replicate (length ss + length as) (make_chan (plQueueSize p))"
    and "plSinkQueues (startWorkers p) = plSinkQueues p ++ queue_map ss n"
    and "plAsyncQueues (startWorkers p) = plAsyncQueues p ++ queue_map as (n + length ss)"
    and "plCancelled (startWorkers p) = plCancelled p" and "plMgr (startWorkers p) = plMgr p"
proof -
  note f = fold_start_obs [of SinkWorker ss p]
  note g = fold_start_obs [of AsyncWorker as "fold (start_worker SinkWorker) ss p"]
  have e: "startWorkers p = fold (start_worker AsyncWorker) as (fold (start_worker SinkWorker) ss p)"
    by (simp add: startWorkers_def Let_def ss_def as_def f [unfolded ss_def])
  show "plWorkers (startWorkers p) = plWorkers p @ map2 (worker_for SinkWorker) ss [n..<n + length ss] @
      map2 (worker_for AsyncWorker) as [n + length ss..<n + length ss + length as]"
    "plChans (startWorkers p) = plChans p @ replicate (length ss + length as) (make_chan (plQueueSize p))"
    "plSinkQueues (startWorkers p) = plSinkQueues p ++ queue_map ss n"
    "plAsyncQueues (startWorkers p) = plAsyncQueues p ++ queue_map as (n + length ss)"
    "plCancelled (startWorkers p) = plCancelled p" "plMgr (startWorkers p) = plMgr p"
    using f g unfolding e by (simp_all add: n_def replicate_add)
qed

text \<open>With distinct names every channel stays registered; a name that comes again hides the first.\<close>

lemma queue_map_ran:
  "distinct (map pname cs) \<Longrightarrow> ran (queue_map cs n) = {n..<n + length cs}"
proof -
  assume d: "distinct (map pname cs)"
  have "ran (map_of (rev (zip (map pname cs) [n..<n + length cs]))) = set [n..<n + length cs]"
    using d by (subst ran_distinct) (simp_all add: rev_map [symmetric] flip: list.set_map)
  then show ?thesis by (simp add: queue_map_def)
qed

lemma queue_map_hidden:
  assumes "i < j" and "j < length cs" and "pname (cs ! i) = pname (cs ! j)"
  shows "n + i \<notin> ran (queue_map cs n)"
proof
  assume "n + i \<in> ran (queue_map cs n)"
  then obtain x where x: "queue_map cs n x = Some (n + i)" by (auto simp: ran_def)
  have "(x, n + i) \<in> set (zip (map pname cs) [n..<n + length cs])"
    using map_of_SomeD [OF x [unfolded queue_map_def]] by simp
  then have xi: "x = pname (cs ! i)"
    by (auto simp: set_zip)
  have split: "cs = take j cs @ cs ! j # drop (Suc j) cs"
    using assms(2) by (rule id_take_nth_drop)
  have "queue_map (cs1 @ c # cs2) m = queue_map cs1 m ++ ([pname c \<mapsto> m + length cs1] ++ queue_map cs2 (Suc (m + length cs1)))" for cs1 c cs2 m
  proof (induction cs1 arbitrary: m)
    case (Cons a cs1)
    then show ?case by (simp add: queue_map_Cons cong: if_cong)
  qed (simp add: queue_map_Cons, simp add: queue_map_def)
  from this [of "take j cs" "cs ! j" "drop (Suc j) cs" n]
  have q: "queue_map cs n = queue_map (take j cs) n ++ ([pname (cs ! j) \<mapsto> n + j] ++ queue_map (drop (Suc j) cs) (Suc (n + j)))"
    using assms(2) split by simp
  have "\<exists>k \<ge> n + j. ([pname (cs ! j) \<mapsto> n + j] ++ queue_map (drop (Suc j) cs) (Suc (n + j))) x = Some k"
  proof (cases "queue_map (drop (Suc j) cs) (Suc (n + j)) x")
    case None
    then show ?thesis using xi assms(3) by (auto simp: map_add_def)
  next
    case (Some k)
    have "(x, k) \<in> set (zip (map pname (drop (Suc j) cs)) [Suc (n + j)..<Suc (n + j) + length (drop (Suc j) cs)])"
      using map_of_SomeD [OF Some [unfolded queue_map_def]] by simp
    then have "k \<in> set [Suc (n + j)..<Suc (n + j) + length (drop (Suc j) cs)]" by (rule set_zip_rightD)
    then have "Suc (n + j) \<le> k" by (simp only: set_upt atLeastLessThan_iff)
    then show ?thesis using Some by (auto simp: map_add_def)
  qed
  then show False
    using x assms(1) unfolding q by (auto simp: map_add_def split: option.splits)
qed

section \<open>Stopping the workers\<close>

lemma worker_step_done:
  assumes ok: "chans_ok p" and nc: "\<not> plCancelled p" and st: "worker_step env i d p hs = (p', hs')"
    and j: "j < length (plWorkers p)"
  shows "wkDone (plWorkers p' ! j) \<longleftrightarrow> wkDone (plWorkers p ! j) \<or>
      j = i \<and> chClosed (plChans p ! wkChan (plWorkers p ! j)) \<and> chBuf (plChans p ! wkChan (plWorkers p ! j)) = []"
    and "wkDone (plWorkers p' ! j) \<Longrightarrow> chBuf (plChans p' ! wkChan (plWorkers p ! j)) = chBuf (plChans p ! wkChan (plWorkers p ! j))"
proof -
  have main: "(wkDone (plWorkers p' ! j) \<longleftrightarrow> wkDone (plWorkers p ! j) \<or>
      j = i \<and> chClosed (plChans p ! wkChan (plWorkers p ! j)) \<and> chBuf (plChans p ! wkChan (plWorkers p ! j)) = []) \<and>
      (wkDone (plWorkers p' ! j) \<longrightarrow> chBuf (plChans p' ! wkChan (plWorkers p ! j)) = chBuf (plChans p ! wkChan (plWorkers p ! j)))"
    using st
  proof (cases rule: worker_step_cases)
    case idle
    then show ?thesis using j by auto
  next
    case finish
    then show ?thesis
      using nc by (cases "i = j") (auto simp: turn_over_def nth_list_update)
  next
    case (take ev rest)
    then show ?thesis
      using chans_okD(5) [OF ok take(1) j] j chans_okD(4) [OF ok take(1)]
      by (cases "i = j") (auto simp: turn_take_def Let_def nth_list_update)
  qed
  then show "wkDone (plWorkers p' ! j) \<longleftrightarrow> wkDone (plWorkers p ! j) \<or>
      j = i \<and> chClosed (plChans p ! wkChan (plWorkers p ! j)) \<and> chBuf (plChans p ! wkChan (plWorkers p ! j)) = []"
    and "wkDone (plWorkers p' ! j) \<Longrightarrow> chBuf (plChans p' ! wkChan (plWorkers p ! j)) = chBuf (plChans p ! wkChan (plWorkers p ! j))"
    by blast+
qed

lemma run_workers_Cons:
  "run_workers env ((i, d) # sched) p hs = (case worker_step env i d p hs of (p, hs) \<Rightarrow> run_workers env sched p hs)"
  by (simp add: run_workers_def split: prod.split)

lemma run_workers_append:
  "run_workers env (xs @ ys) p hs = (case run_workers env xs p hs of (p, hs) \<Rightarrow> run_workers env ys p hs)"
  by (simp add: run_workers_def split: prod.split)

text \<open>What turns of workers leave as it is, and what a worker that returns has done.\<close>

definition turned :: "Pipeline \<Rightarrow> Pipeline \<Rightarrow> bool" where
  "turned p p' \<longleftrightarrow> chans_ok p' \<and> length (plWorkers p') = length (plWorkers p) \<and>
     length (plChans p') = length (plChans p) \<and> plCancelled p' = plCancelled p \<and> plMgr p' = plMgr p \<and>
     plSinkQueues p' = plSinkQueues p \<and> plAsyncQueues p' = plAsyncQueues p \<and> plDropped p' = plDropped p \<and>
     (\<forall>j < length (plWorkers p). flow p' j = flow p j \<and> wkChan (plWorkers p' ! j) = wkChan (plWorkers p ! j)) \<and>
     (\<forall>c < length (plChans p). chClosed (plChans p' ! c) = chClosed (plChans p ! c))"

lemma worker_step_turned: "chans_ok p \<Longrightarrow> worker_step env i d p hs = (p', hs') \<Longrightarrow> turned p p'"
  unfolding turned_def using worker_step_ok [of p env i d hs p' hs'] by blast

lemma turned_refl: "chans_ok p \<Longrightarrow> turned p p"
  by (simp add: turned_def)

lemma turned_trans: "turned p p' \<Longrightarrow> turned p' p'' \<Longrightarrow> turned p p''"
  by (simp add: turned_def)

lemma run_workers_turned:
  "chans_ok p \<Longrightarrow> run_workers env sched p hs = (p', hs') \<Longrightarrow> turned p p'"
proof (induction sched arbitrary: p hs)
  case Nil
  then show ?case by (simp add: run_workers_def turned_refl)
next
  case (Cons a sched)
  obtain i d where a: "a = (i, d)" by fastforce
  obtain p1 hs1 where st: "worker_step env i d p hs = (p1, hs1)" by fastforce
  note t = worker_step_turned [OF Cons.prems(1) st]
  have "chans_ok p1" using t by (simp add: turned_def)
  then show ?case
    using Cons.IH [of p1 hs1] Cons.prems(2) st t turned_trans by (simp add: run_workers_Cons a)
qed

lemma run_workers_done:
  assumes "chans_ok p" and "\<not> plCancelled p" and "run_workers env sched p hs = (p', hs')" and "j < length (plWorkers p)"
    and "wkDone (plWorkers p' ! j)"
  shows "wkDone (plWorkers p ! j) \<or>
    chClosed (plChans p ! wkChan (plWorkers p ! j)) \<and> chBuf (plChans p' ! wkChan (plWorkers p ! j)) = []"
  using assms
proof (induction sched arbitrary: p' hs' rule: rev_induct)
  case Nil
  then show ?case by (simp add: run_workers_def)
next
  case (snoc a sched)
  obtain i d where a: "a = (i, d)" by fastforce
  obtain p1 hs1 where r: "run_workers env sched p hs = (p1, hs1)" by fastforce
  have st: "worker_step env i d p1 hs1 = (p', hs')"
    using snoc.prems(3) by (simp add: run_workers_append r a) (simp add: run_workers_def)
  note t = run_workers_turned [OF snoc.prems(1) r, unfolded turned_def]
  have p1: "chans_ok p1" "\<not> plCancelled p1" "j < length (plWorkers p1)" "wkChan (plWorkers p1 ! j) = wkChan (plWorkers p ! j)"
    "chClosed (plChans p1 ! wkChan (plWorkers p ! j)) = chClosed (plChans p ! wkChan (plWorkers p ! j))"
    using t snoc.prems(2,4) chans_okD(4) [OF snoc.prems(1,4)] by simp_all
  note d = worker_step_done [OF p1(1,2) st p1(3)]
  show ?case
    using d snoc.prems(5) snoc.IH [OF snoc.prems(1,2) r snoc.prems(4)] p1(4,5) by auto
qed

text \<open>The queues are closed, and nothing else changes.\<close>

lemma close_chan_obs:
  assumes "c < length chans"
  shows "chBuf (close_chan a chans ! c) = chBuf (chans ! c) \<and> chCap (close_chan a chans ! c) = chCap (chans ! c) \<and>
    (chClosed (close_chan a chans ! c) \<longleftrightarrow> c = a \<or> chClosed (chans ! c))"
  using assms by (cases "c = a") (simp_all add: close_chan_def)

lemma fold_close_chan:
  "length (fold close_chan cs chans) = length chans \<and>
   (c < length chans \<longrightarrow> chBuf (fold close_chan cs chans ! c) = chBuf (chans ! c) \<and>
     chCap (fold close_chan cs chans ! c) = chCap (chans ! c) \<and>
     (chClosed (fold close_chan cs chans ! c) \<longleftrightarrow> c \<in> set cs \<or> chClosed (chans ! c)))"
proof (induction cs arbitrary: chans)
  case (Cons a cs)
  have "length (close_chan a chans) = length chans" by (simp add: close_chan_def)
  then show ?case
    using Cons [of "close_chan a chans"] close_chan_obs [of c chans a] by auto
qed simp

lemma closeQueues_obs:
  "plWorkers (closeQueues ss as p) = plWorkers p" "plCancelled (closeQueues ss as p) = plCancelled p"
  "plMgr (closeQueues ss as p) = plMgr p" "plDropped (closeQueues ss as p) = plDropped p"
  "plQueueSize (closeQueues ss as p) = plQueueSize p"
  "length (plChans (closeQueues ss as p)) = length (plChans p)"
  "plSinkQueues (closeQueues ss as p) = Map.empty" "plAsyncQueues (closeQueues ss as p) = Map.empty"
  "c < length (plChans p) \<Longrightarrow> chBuf (plChans (closeQueues ss as p) ! c) = chBuf (plChans p ! c)"
  "c < length (plChans p) \<Longrightarrow> chCap (plChans (closeQueues ss as p) ! c) = chCap (plChans p ! c)"
  "c < length (plChans p) \<Longrightarrow> chClosed (plChans (closeQueues ss as p) ! c) \<longleftrightarrow>
     c \<in> set ss \<union> set as \<or> chClosed (plChans p ! c)"
  by (auto simp: closeQueues_def Let_def fold_close_chan)

lemma closeQueues_ok: "chans_ok p \<Longrightarrow> chans_ok (closeQueues ss as p)"
  unfolding chans_ok_def closeQueues_obs all_set_conv_all_nth
  by (simp add: closeQueues_obs)

lemma flow_close: "chans_ok p \<Longrightarrow> i < length (plWorkers p) \<Longrightarrow> flow (closeQueues ss as p) i = flow p i"
  using chans_okD(4) [of p i] by (simp add: flow_def closeQueues_obs)

text \<open>No queued event is lost when the workers are stopped without cancelling.\<close>

lemma stop_delivers:
  assumes ok: "chans_ok p" and nc: "\<not> plCancelled p" and stop: "stopWorkers env ss as sched p hs = Some (p', hs')"
    and i: "i < length (plWorkers p)" "\<not> wkDone (plWorkers p ! i)"
  shows "wkSeen (plWorkers p' ! i) = flow p i" and "chans_ok p'" and "all_done p'"
proof -
  let ?q = "closeQueues ss as p"
  have run: "run_workers env sched ?q hs = (p', hs')" "all_done p'"
    using stop by (auto simp: stopWorkers_def Let_def split: prod.splits if_splits)
  note t = run_workers_turned [OF closeQueues_ok [OF ok] run(1), unfolded turned_def]
  show "chans_ok p'" "all_done p'" using t run(2) by simp_all
  have "wkDone (plWorkers p' ! i)"
    using run(2) i(1) t by (simp add: all_done_def closeQueues_obs)
  from run_workers_done [OF closeQueues_ok [OF ok] _ run(1) _ this] nc i
  have "chBuf (plChans p' ! wkChan (plWorkers p ! i)) = []"
    by (simp add: closeQueues_obs)
  moreover have "flow p' i = flow p i" "wkChan (plWorkers p' ! i) = wkChan (plWorkers p ! i)"
    using t i(1) flow_close [OF ok i(1)] by (simp_all add: closeQueues_obs)
  ultimately show "wkSeen (plWorkers p' ! i) = flow p i"
    by (simp add: flow_def)
qed

text \<open>A worker whose queue is not registered keeps \<^verbatim>\<open>wg.Wait\<close> from returning.\<close>

lemma stop_blocks:
  assumes ok: "chans_ok p" and nc: "\<not> plCancelled p" and i: "i < length (plWorkers p)" "\<not> wkDone (plWorkers p ! i)"
    and hid: "wkChan (plWorkers p ! i) \<notin> set ss \<union> set as" "\<not> chClosed (plChans p ! wkChan (plWorkers p ! i))"
  shows "stopWorkers env ss as sched p hs = None"
proof -
  let ?q = "closeQueues ss as p"
  obtain p' hs' where run: "run_workers env sched ?q hs = (p', hs')" by fastforce
  note c = chans_okD(4) [OF ok i(1)]
  have "\<not> wkDone (plWorkers p' ! i)"
    using run_workers_done [OF closeQueues_ok [OF ok] _ run] nc i hid closeQueues_obs(11) [OF c, of ss as]
    by (auto simp: closeQueues_obs)
  moreover have "length (plWorkers p') = length (plWorkers p)"
    using run_workers_turned [OF closeQueues_ok [OF ok] run] by (simp add: turned_def closeQueues_obs)
  ultimately have "\<not> all_done p'" using i(1) by (auto simp: all_done_def)
  then show ?thesis by (simp add: stopWorkers_def run Let_def)
qed

text \<open>Otherwise the workers can always be run until all of them have returned.\<close>

definition todo :: "Pipeline \<Rightarrow> nat \<Rightarrow> nat" where
  "todo p i = (if wkDone (plWorkers p ! i) then 0 else 1) + (length (flow p i) - length (wkSeen (plWorkers p ! i)))"

lemma worker_step_progress:
  assumes ok: "chans_ok p" and i: "i < length (plWorkers p)" "\<not> wkDone (plWorkers p ! i)"
    and cl: "chClosed (plChans p ! wkChan (plWorkers p ! i))" and st: "worker_step env i False p hs = (p', hs')"
  shows "todo p' i < todo p i" and "j \<noteq> i \<Longrightarrow> plWorkers p' ! j = plWorkers p ! j"
proof -
  note t = worker_step_turned [OF ok st, unfolded turned_def]
  have fl: "flow p' i = flow p i" using t i(1) by simp
  have "todo p' i < todo p i \<and> (j \<noteq> i \<longrightarrow> plWorkers p' ! j = plWorkers p ! j)"
  proof (cases "chBuf (plChans p ! wkChan (plWorkers p ! i))")
    case Nil
    then have p': "p' = turn_over i p" using st i cl by (simp add: worker_step_eq)
    then show ?thesis using fl i by (simp add: todo_def) (simp add: turn_over_def)
  next
    case (Cons ev rest)
    then have p': "p' = turn_take i ev rest p" using st i by (simp add: worker_step_eq)
    have "length (wkSeen (plWorkers p ! i)) < length (flow p i)" using Cons by (simp add: flow_def)
    moreover have "wkSeen (plWorkers p' ! i) = wkSeen (plWorkers p ! i) @ [ev]" "\<not> wkDone (plWorkers p' ! i)"
      using i by (simp_all add: p' turn_take_def Let_def)
    ultimately show ?thesis using fl i by (simp add: todo_def) (simp add: p' turn_take_def Let_def)
  qed
  then show "todo p' i < todo p i" "j \<noteq> i \<Longrightarrow> plWorkers p' ! j = plWorkers p ! j" by blast+
qed

lemma workers_finish:
  assumes "chans_ok p" and "\<forall>i < length (plWorkers p). wkDone (plWorkers p ! i) \<or> chClosed (plChans p ! wkChan (plWorkers p ! i))"
  shows "\<exists>sched. all_done (fst (run_workers env sched p hs))"
  using assms
proof (induction "sum (todo p) {..<length (plWorkers p)}" arbitrary: p hs rule: less_induct)
  case less
  show ?case
  proof (cases "all_done p")
    case True
    then show ?thesis by (intro exI [of _ "[]"]) (simp add: run_workers_def)
  next
    case False
    then obtain i where i: "i < length (plWorkers p)" "\<not> wkDone (plWorkers p ! i)"
      by (auto simp: all_done_def in_set_conv_nth)
    then have cl: "chClosed (plChans p ! wkChan (plWorkers p ! i))" using less.prems(2) by auto
    obtain p1 hs1 where st: "worker_step env i False p hs = (p1, hs1)" by fastforce
    note t = worker_step_turned [OF less.prems(1) st, unfolded turned_def]
    note pr = worker_step_progress [OF less.prems(1) i cl st]
    have "todo p1 j = todo p j" if "j < length (plWorkers p)" "j \<noteq> i" for j
      using pr(2) [OF that(2)] t that(1) by (simp add: todo_def)
    then have "\<forall>j \<in> {..<length (plWorkers p)}. todo p1 j \<le> todo p j"
      using pr(1) by (metis lessThan_iff less_imp_le order_refl)
    then have "sum (todo p1) {..<length (plWorkers p)} < sum (todo p) {..<length (plWorkers p)}"
      using i(1) pr(1) by (intro sum_strict_mono_ex1) auto
    moreover have "\<forall>j < length (plWorkers p1). wkDone (plWorkers p1 ! j) \<or> chClosed (plChans p1 ! wkChan (plWorkers p1 ! j))"
    proof (intro allI impI)
      fix j assume j: "j < length (plWorkers p1)"
      then have "wkChan (plWorkers p ! j) < length (plChans p)" using t chans_okD(4) [OF less.prems(1)] by simp
      then show "wkDone (plWorkers p1 ! j) \<or> chClosed (plChans p1 ! wkChan (plWorkers p1 ! j))"
        using less.prems(2) pr(2) [of j] t j cl by (cases "j = i") auto
    qed
    ultimately obtain sched where "all_done (fst (run_workers env sched p1 hs1))"
      using less.hyps [of p1 hs1] t by auto
    then show ?thesis
      using st by (intro exI [of _ "(i, False) # sched"]) (simp add: run_workers_Cons)
  qed
qed

lemma stop_returns:
  assumes "chans_ok p" and "\<forall>i < length (plWorkers p). wkDone (plWorkers p ! i) \<or>
      wkChan (plWorkers p ! i) \<in> set ss \<union> set as \<or> chClosed (plChans p ! wkChan (plWorkers p ! i))"
  shows "\<exists>sched p' hs'. stopWorkers env ss as sched p hs = Some (p', hs')"
proof -
  have "\<forall>i < length (plWorkers (closeQueues ss as p)). wkDone (plWorkers (closeQueues ss as p) ! i) \<or>
      chClosed (plChans (closeQueues ss as p) ! wkChan (plWorkers (closeQueues ss as p) ! i))"
    using assms chans_okD(4) [OF assms(1)] by (auto simp: closeQueues_obs)
  from workers_finish [OF closeQueues_ok [OF assms(1)] this]
  obtain sched where "all_done (fst (run_workers env sched (closeQueues ss as p) hs))" by blast
  then show ?thesis
    by (intro exI [of _ sched]) (auto simp: stopWorkers_def Let_def split: prod.splits)
qed

section \<open>A pipeline that has just started its workers\<close>

text \<open>Before: no queue is registered and every worker has returned, as after \<open>stopWorkers\<close>.\<close>

definition quiet :: "Pipeline \<Rightarrow> bool" where
  "quiet p \<longleftrightarrow> chans_ok p \<and> all_done p \<and> plSinkQueues p = Map.empty \<and> plAsyncQueues p = Map.empty"

definition loaded_plugins :: "Manager \<Rightarrow> Client list" where
  "loaded_plugins m = manager_Sinks m @ AsyncProcessors m"

lemma started_workers:
  assumes "all_done p"
  defines "n \<equiv> length (plChans p)" and "ps \<equiv> loaded_plugins (plMgr p)" and "k \<equiv> length (plWorkers p)"
  shows "length (plWorkers (startWorkers p)) = k + length ps"
    and "i < length ps \<Longrightarrow> wkChan (plWorkers (startWorkers p) ! (k + i)) = n + i"
    and "i < length ps \<Longrightarrow> wkClient (plWorkers (startWorkers p) ! (k + i)) = ps ! i"
    and "i < length ps \<Longrightarrow> \<not> wkDone (plWorkers (startWorkers p) ! (k + i))"
    and "i < length ps \<Longrightarrow> plChans (startWorkers p) ! (n + i) = make_chan (plQueueSize p)"
    and "i < k \<Longrightarrow> wkDone (plWorkers (startWorkers p) ! i)"
  using assms(1) unfolding startWorkers_obs
  by (auto simp: n_def ps_def k_def loaded_plugins_def nth_append worker_for_def all_done_def)

lemma started_registered:
  assumes q: "quiet p" and d: "distinct (map pname (manager_Sinks (plMgr p)))" "distinct (map pname (AsyncProcessors (plMgr p)))"
    and i: "i < length (plWorkers (startWorkers p))"
  shows "wkDone (plWorkers (startWorkers p) ! i) \<or> wkChan (plWorkers (startWorkers p) ! i) \<in> registered (startWorkers p)"
proof -
  let ?n = "length (plChans p)" and ?k = "length (plWorkers p)" and ?ps = "loaded_plugins (plMgr p)"
  have dn: "all_done p" using q by (simp add: quiet_def)
  note w = started_workers [OF dn]
  have "registered (startWorkers p) = {?n..<?n + length ?ps}"
    using q queue_map_ran [OF d(1)] queue_map_ran [OF d(2)]
    by (auto simp: registered_def startWorkers_obs quiet_def loaded_plugins_def)
  moreover have "wkChan (plWorkers (startWorkers p) ! i) \<in> {?n..<?n + length ?ps}" if "?k \<le> i"
  proof -
    have "i = ?k + (i - ?k)" "i - ?k < length ?ps" using that i w(1) by simp_all
    then have "wkChan (plWorkers (startWorkers p) ! i) = ?n + (i - ?k)" using w(2) [of "i - ?k"] by metis
    then show ?thesis using \<open>i - ?k < length ?ps\<close> by simp
  qed
  ultimately show ?thesis using w(6) by (metis not_le)
qed

lemma started_hidden:
  assumes q: "quiet p" and ij: "i < j" "j < length (manager_Sinks (plMgr p))"
    and eq: "pname (manager_Sinks (plMgr p) ! i) = pname (manager_Sinks (plMgr p) ! j)"
  defines "w \<equiv> plWorkers (startWorkers p) ! (length (plWorkers p) + i)"
  shows "length (plWorkers p) + i < length (plWorkers (startWorkers p))" and "\<not> wkDone w"
    and "wkChan w \<notin> registered (startWorkers p)" and "\<not> chClosed (plChans (startWorkers p) ! wkChan w)"
proof -
  let ?n = "length (plChans p)" and ?ss = "manager_Sinks (plMgr p)" and ?as = "AsyncProcessors (plMgr p)"
  have dn: "all_done p" using q by (simp add: quiet_def)
  have i: "i < length (loaded_plugins (plMgr p))" "i < length ?ss" using ij by (simp_all add: loaded_plugins_def)
  note s = started_workers [OF dn]
  show "length (plWorkers p) + i < length (plWorkers (startWorkers p))" "\<not> wkDone w"
    using s(1) s(4) [OF i(1)] i(1) by (simp_all add: w_def)
  have c: "wkChan w = ?n + i" using s(2) [OF i(1)] by (simp add: w_def)
  have as: "ran (queue_map ?as (?n + length ?ss)) \<subseteq> {?n + length ?ss..}"
  proof
    fix c assume "c \<in> ran (queue_map ?as (?n + length ?ss))"
    then obtain x where "queue_map ?as (?n + length ?ss) x = Some c" by (auto simp: ran_def)
    then have "(x, c) \<in> set (zip (map pname ?as) [?n + length ?ss..<?n + length ?ss + length ?as])"
      unfolding queue_map_def by (auto dest: map_of_SomeD)
    then have "c \<in> set [?n + length ?ss..<?n + length ?ss + length ?as]" by (rule set_zip_rightD)
    then show "c \<in> {?n + length ?ss..}" by simp
  qed
  show "wkChan w \<notin> registered (startWorkers p)"
    using queue_map_hidden [OF ij eq, of ?n] as i(2) q
    by (auto simp: registered_def startWorkers_obs quiet_def c)
  show "\<not> chClosed (plChans (startWorkers p) ! wkChan w)"
    using s(5) [OF i(1)] by (simp add: c make_chan_def)
qed

section \<open>Emit\<close>

text \<open>Emit as sends: the sinks' queues first, then those of the asynchronous processors.\<close>

definition emit_ops :: "CaptureEvent \<Rightarrow> (string \<times> nat) list \<Rightarrow> (string \<times> nat) list \<Rightarrow> pl_op list" where
  "emit_ops cur sinks asyncs = map (Send [] cur) sinks @ map (Send ''processor:'' cur) asyncs"

lemma run_ops_append: "run_ops env (xs @ ys) s = run_ops env ys (run_ops env xs s)"
  by (simp add: run_ops_def)

lemma run_ops_sends: "run_ops env (map (Send pre cur) qs) (p, hs) = (fold (send_or_drop pre cur) qs p, hs)"
  by (induction qs arbitrary: p) (simp_all add: run_ops_def do_op_def)

lemma pipeline_Emit_ops:
  assumes "run_sync env (SyncProcessors (plMgr p)) (stamp v (plMgr p) ev) hs = (cur, hs1)"
  shows "pipeline_Emit v env sinks asyncs (Some ev) p hs = run_ops env (emit_ops cur sinks asyncs) (p, hs1)"
  using assms by (simp add: pipeline_Emit_def Let_def emit_ops_def run_ops_append run_ops_sends)

text \<open>What one fan-out does to every channel: a copy at its end, or a drop under its name.\<close>

lemma fold_send:
  assumes "chans_ok p" and "distinct (map snd qs)" and "\<forall>q \<in> set qs. snd q < length (plChans p)"
  shows "chans_ok (fold (send_or_drop pre cur) qs p) \<and>
    length (plChans (fold (send_or_drop pre cur) qs p)) = length (plChans p) \<and>
    plWorkers (fold (send_or_drop pre cur) qs p) = plWorkers p \<and>
    plDropped (fold (send_or_drop pre cur) qs p) =
      plDropped p @ map (\<lambda>q. pre @ fst q) (filter (\<lambda>q. \<not> send_ok (snd q) p) qs) \<and>
    (\<forall>c < length (plChans p). chBuf (plChans (fold (send_or_drop pre cur) qs p) ! c) =
      chBuf (plChans p ! c) @ (if c \<in> snd ` set qs \<and> send_ok c p then [cur] else [])) \<and>
    (\<forall>c < length (plChans p). c \<notin> snd ` set qs \<longrightarrow> (send_ok c (fold (send_or_drop pre cur) qs p) \<longleftrightarrow> send_ok c p))"
  using assms
proof (induction qs arbitrary: p)
  case (Cons q qs)
  let ?p = "send_or_drop pre cur q p"
  have q: "snd q < length (plChans p)" using Cons.prems(3) by simp
  note s = send_or_drop_ok [OF Cons.prems(1) q, where pre = pre and ev = cur]
  have same: "send_ok c ?p \<longleftrightarrow> send_ok c p" if "c < length (plChans p)" "c \<noteq> snd q" for c
    using s(11,12) [OF that(1)] chans_okD(3) [OF s(1), of c] chans_okD(3) [OF Cons.prems(1), of c] that s(3,8)
    by (simp add: send_ok_def)
  have fl: "filter (\<lambda>r. \<not> send_ok (snd r) ?p) qs = filter (\<lambda>r. \<not> send_ok (snd r) p) qs"
  proof (rule filter_cong)
    fix r assume "r \<in> set qs"
    then have "snd r < length (plChans p)" "snd r \<noteq> snd q" using Cons.prems(2,3) by (force simp: image_iff)+
    then show "(\<not> send_ok (snd r) ?p) = (\<not> send_ok (snd r) p)" using same by simp
  qed simp
  note ih = Cons.IH [of ?p]
  have "\<forall>r \<in> set qs. snd r < length (plChans ?p)" "distinct (map snd qs)" using Cons.prems(2,3) s(3) by simp_all
  then have ih: "chans_ok (fold (send_or_drop pre cur) qs ?p)"
    "length (plChans (fold (send_or_drop pre cur) qs ?p)) = length (plChans p)"
    "plWorkers (fold (send_or_drop pre cur) qs ?p) = plWorkers p"
    "plDropped (fold (send_or_drop pre cur) qs ?p) = plDropped ?p @ map (\<lambda>q. pre @ fst q) (filter (\<lambda>q. \<not> send_ok (snd q) p) qs)"
    "\<And>c. c < length (plChans p) \<Longrightarrow> chBuf (plChans (fold (send_or_drop pre cur) qs ?p) ! c) =
      chBuf (plChans ?p ! c) @ (if c \<in> snd ` set qs \<and> send_ok c ?p then [cur] else [])"
    "\<And>c. c < length (plChans p) \<Longrightarrow> c \<notin> snd ` set qs \<Longrightarrow> (send_ok c (fold (send_or_drop pre cur) qs ?p) \<longleftrightarrow> send_ok c ?p)"
    using ih s(1,2,3) fl by simp_all
  have notin: "snd q \<notin> snd ` set qs" using Cons.prems(2) by simp
  have "chBuf (plChans (fold (send_or_drop pre cur) (q # qs) p) ! c) =
      chBuf (plChans p ! c) @ (if c \<in> snd ` set (q # qs) \<and> send_ok c p then [cur] else [])" if "c < length (plChans p)" for c
    using ih(5) [OF that] s(11) [OF that] same [OF that] notin by (cases "c = snd q") auto
  moreover have "send_ok c (fold (send_or_drop pre cur) (q # qs) p) \<longleftrightarrow> send_ok c p"
    if "c < length (plChans p)" "c \<notin> snd ` set (q # qs)" for c
    using ih(6) [OF that(1)] same [OF that(1)] that(2) by auto
  ultimately show ?case
    using ih(1,2,3,4) s(9) by simp
qed simp

text \<open>The turns of a stop are operations too.\<close>

lemma run_workers_ops: "run_workers env sched p hs = run_ops env (map (\<lambda>(i, d). Turn i d) sched) (p, hs)"
proof (induction sched arbitrary: p hs)
  case (Cons a sched)
  obtain i d where a: "a = (i, d)" by fastforce
  obtain p1 hs1 where st: "worker_step env i d p hs = (p1, hs1)" by fastforce
  show ?case using Cons.IH [of p1 hs1] st by (simp add: a run_workers_Cons run_ops_def do_op_def)
qed (simp add: run_workers_def run_ops_def)

lemma ops_in_cong: "length (plChans p') = length (plChans p) \<Longrightarrow> ops_in ops p' \<longleftrightarrow> ops_in ops p"
  unfolding ops_in_def by (simp only:)

end
