(* ===== verification/Plugin_Contract.thy ===== *)
theory Plugin_Contract
  imports Sdk
begin

text \<open>
  What the host may rely on of a plugin built with \<^verbatim>\<open>pluginsdk\<close>: the locale \<open>plugin\<close> is what every one
  of them promises, \<open>sink_plugin\<close> and \<open>processor_plugin\<close> what embedding \<^verbatim>\<open>SinkOnly\<close> and
  \<^verbatim>\<open>ProcessorOnly\<close> adds. The lemmas say what \<open>handle\<close> answers; the theories of the plugins interpret
  the locales.
\<close>

text \<open>\<^verbatim>\<open>v, _ := cfg.Settings[key].(string)\<close>, and the same for a \<^verbatim>\<open>bool\<close>.\<close>

definition string_setting :: "PluginConfig \<Rightarrow> string \<Rightarrow> string" where
  "string_setting cfg key =
     (case cfg of None \<Rightarrow> [] | Some m \<Rightarrow> (case m key of Some (AString s) \<Rightarrow> s | _ \<Rightarrow> []))"

definition bool_setting :: "PluginConfig \<Rightarrow> string \<Rightarrow> bool" where
  "bool_setting cfg key =
     (case cfg of None \<Rightarrow> False | Some m \<Rightarrow> (case m key of Some (ABool b) \<Rightarrow> b | _ \<Rightarrow> False))"

section \<open>Plugins\<close>

locale plugin =
  fixes h :: "'s Handler" and name :: string and kind :: string and v :: BuildInfo
  assumes info: "hInfo h s = FillInfo v name kind"
begin

lemma info_answer:
  assumes "encInfo cd (FillInfo v name kind) = Some b"
  shows "handle cd h \<lparr>rqID = i, rqMethod = MethodInfo, rqParams = raw\<rparr> s = (okResp i b, s)"
proof -
  have "piAPIVersion (FillInfo v name kind) \<noteq> []" by (simp add: FillInfo_def APIVersion_def)
  then show ?thesis using assms by (simp add: handle_def info Let_def)
qed

lemma close_answer:
  assumes "hClose h s = (None, s')"
  shows "handle cd h \<lparr>rqID = i, rqMethod = MethodClose, rqParams = raw\<rparr> s = (statusResp cd i ''closed'', s')"
  using assms by (simp add: handle_def)

end

locale sink_plugin = plugin h name "''sink''" v for h :: "'s Handler" and name v +
  assumes process_id: "hProcess h ev s = (Inr (Some ev), ev, s)"
begin

lemma process_answer:
  assumes "decEvent cd raw = Some ev" and "encEvent cd ev = Some b"
  shows "handle cd h \<lparr>rqID = i, rqMethod = MethodProcess, rqParams = raw\<rparr> s = (okResp i b, s)"
  using assms by (simp add: handle_def process_id)

end

locale processor_plugin = plugin h name "''processor''" v for h :: "'s Handler" and name v +
  assumes emit_error: "hEmit h ev s = (Some ''not a sink'', s)"
    and process_total: "\<exists>out. hProcess h ev s = (Inr (Some out), out, s)"
begin

lemma emit_answer:
  assumes "decEvent cd raw = Some ev"
  shows "handle cd h \<lparr>rqID = i, rqMethod = MethodEmit, rqParams = raw\<rparr> s = (errResp i ''not a sink'', s)"
  using assms by (simp add: handle_def emit_error)

text \<open>A processor never answers a decoded event with an error, if its own event can be encoded.\<close>

lemma process_answers:
  assumes "decEvent cd raw = Some ev" and "\<And>e. encEvent cd e \<noteq> None"
  shows "\<exists>b. handle cd h \<lparr>rqID = i, rqMethod = MethodProcess, rqParams = raw\<rparr> s = (okResp i b, s)"
proof -
  obtain out where out: "hProcess h ev s = (Inr (Some out), out, s)" using process_total by blast
  obtain b where "encEvent cd out = Some b" using assms(2) by blast
  then show ?thesis using assms(1) out by (intro exI [of _ b]) (simp add: handle_def)
qed

end

section \<open>The processors\<close>

interpretation detect: processor_plugin "detect_handler v" "''detect''" v for v
  by unfold_locales (auto simp: detect_handler_def ProcessorOnly_Emit_def detect_Process_def Let_def)

interpretation mask: processor_plugin "mask_handler v" "''mask''" v for v
  by unfold_locales (auto simp: mask_handler_def ProcessorOnly_Emit_def mask_Process_def Let_def)

end
