(* ===== verification/Plugin_Props.thy ===== *)
theory Plugin_Props
  imports Plugin_Manager Plugin_Contract
begin

text \<open>
  Host and plugin together: what a call to a plugin served by \<^verbatim>\<open>pluginsdk.Serve\<close> returns, what a load
  of the manager starts, and what a failed load leaves behind.
\<close>

section \<open>Helpers\<close>

lemma handle_Process:
  assumes "decEvent cd params = Some ev" and "hProcess h ev s = (Inr out, ev', s')"
    and "encEvent cd (case out of None \<Rightarrow> ev' | Some e \<Rightarrow> e) = Some b"
  shows "handle cd h \<lparr>rqID = i, rqMethod = MethodProcess, rqParams = params\<rparr> s = (okResp i b, s')"
  using assms by (simp add: handle_def Let_def)

lemma handle_Process_error:
  assumes "decEvent cd params = Some ev" and "hProcess h ev s = (Inl err, ev', s')"
  shows "handle cd h \<lparr>rqID = i, rqMethod = MethodProcess, rqParams = params\<rparr> s = (errResp i err, s')"
  using assms by (simp add: handle_def Let_def)

lemma okResp_obs [simp]: "rsResult (okResp i b) = b" "rsError (errResp i e) = e"
  by (simp_all add: okResp_def errResp_def)

text \<open>
  Starting a plugin of the library: the client's information is what the plugin says of itself, so that
  its name is the plugin's own, whatever the entry is called.
\<close>

definition starts_plugin :: "'s env \<Rightarrow> 's Handler \<Rightarrow> PluginInfo \<Rightarrow> string \<Rightarrow> PluginEntry \<Rightarrow> bool" where
  "starts_plugin env h pinfo bin e \<longleftrightarrow>
     (\<exists>cn s' raw b st. envPeer env = serve_peer (envCodec env) h \<and> envSpawn env bin = Some cn \<and> idle cn \<and>
        hConfigure h (eSettings e) (cnPlugin cn) = (None, s') \<and>
        encConfig (envCodec env) (eSettings e) = Some raw \<and> decConfig (envCodec env) raw = Some (eSettings e) \<and> raw \<noteq> [] \<and>
        encInfo (envCodec env) pinfo = Some b \<and> decInfo (envCodec env) b = Some pinfo \<and> b \<noteq> [] \<and>
        encStatus (envCodec env) ''ok'' = Some st \<and> decStatus (envCodec env) st \<noteq> None \<and>
        (\<forall>req \<in> {\<lparr>rqID = 1, rqMethod = MethodInfo, rqParams = []\<rparr>, \<lparr>rqID = 2, rqMethod = MethodConfigure, rqParams = raw\<rparr>}.
           carries (encRequest (envCodec env)) (decRequest (envCodec env)) req) \<and>
        (\<forall>resp \<in> {okResp 1 b, okResp 2 st}. carries (encResponse (envCodec env)) (decResponse (envCodec env)) resp))"

context plugin
begin

lemma Start_started_as:
  fixes env :: "'s env"
  assumes "starts_plugin env h (FillInfo v name kind) bin e" and "name \<noteq> []" "kind \<noteq> []"
  shows "\<exists>c hs'. Start env bin e k hs = (Inr c, hs') \<and> clInfo c = FillInfo v name kind"
proof -
  let ?cd = "envCodec env"
  obtain cn s' raw b st where peer: "envPeer env = serve_peer ?cd h" and sp: "envSpawn env bin = Some cn" and idl: "idle cn"
    and cf: "hConfigure h (eSettings e) (cnPlugin cn) = (None, s')"
    and cfg: "encConfig ?cd (eSettings e) = Some raw" "decConfig ?cd raw = Some (eSettings e)" "raw \<noteq> []"
    and inf: "encInfo ?cd (FillInfo v name kind) = Some b" "decInfo ?cd b = Some (FillInfo v name kind)" "b \<noteq> []"
    and st: "encStatus ?cd ''ok'' = Some st" "decStatus ?cd st \<noteq> None"
    and rq: "\<forall>req \<in> {\<lparr>rqID = 1, rqMethod = MethodInfo, rqParams = []\<rparr>, \<lparr>rqID = 2, rqMethod = MethodConfigure, rqParams = raw\<rparr>}.
      carries (encRequest ?cd) (decRequest ?cd) req"
    and rs: "\<forall>resp \<in> {okResp 1 b, okResp 2 st}. carries (encResponse ?cd) (decResponse ?cd) resp"
    using assms(1) unfolding starts_plugin_def by blast
  have api: "piAPIVersion (FillInfo v name kind) = APIVersion" "piName (FillInfo v name kind) = name"
    "piKind (FillInfo v name kind) = kind"
    by (simp_all add: FillInfo_def)
  define c0 where "c0 = \<lparr>clName = eName e, clKind = k, clMode = (if k = ''processor'' then EffectiveMode e else []),
      clInfo = zeroInfo, clProc = hsNext hs\<rparr>"
  let ?c1 = "c0\<lparr>clInfo := FillInfo v name kind\<rparr>"
  have s0: "hsConns (spawned hs cn) (clProc c0) = Some cn" "hsNextID (spawned hs cn) (clProc c0) = 0"
    by (simp_all add: spawned_def c0_def)
  have hinfo: "handle ?cd h \<lparr>rqID = hsNextID (spawned hs cn) (clProc c0) + 1, rqMethod = MethodInfo, rqParams = []\<rparr> (cnPlugin cn) =
      (okResp 1 b, cnPlugin cn)"
    unfolding s0(2) using info_answer [OF inf(1)] by simp
  have r1: "carries (encRequest ?cd) (decRequest ?cd)
      \<lparr>rqID = hsNextID (spawned hs cn) (clProc c0) + 1, rqMethod = MethodInfo, rqParams = []\<rparr>"
    using rq by (simp add: s0(2))
  have p1: "carries (encResponse ?cd) (decResponse ?cd) (okResp 1 b)" using rs by simp
  obtain hs1 where i: "client_Info env c0 (spawned hs cn) = (Inr (FillInfo v name kind), hs1)"
    and h1: "hsConns hs1 (clProc ?c1) = Some cn" "hsNextID hs1 (clProc ?c1) = 1"
    using call_served [OF peer s0(1) idl r1 hinfo p1, where dec = "decInfo ?cd" and result = zeroInfo] inf(2,3) s0(2)
    by (simp add: client_Info_def MarshalParams_def UnmarshalResult_def okResp_def)
  have hconf: "handle ?cd h \<lparr>rqID = hsNextID hs1 (clProc ?c1) + 1, rqMethod = MethodConfigure, rqParams = raw\<rparr> (cnPlugin cn) =
      (okResp 2 st, s')"
    using cf cfg(2,3) st(1) by (simp add: handle_def statusResp_def h1(2) [simplified])
  have r2: "carries (encRequest ?cd) (decRequest ?cd)
      \<lparr>rqID = hsNextID hs1 (clProc ?c1) + 1, rqMethod = MethodConfigure, rqParams = raw\<rparr>"
    using rq by (simp add: h1(2) [simplified])
  have p2: "carries (encResponse ?cd) (decResponse ?cd) (okResp 2 st)" using rs by simp
  obtain r hs2 where conf: "client_Configure env (eSettings e) ?c1 hs1 = (Inr r, hs2)"
    using call_served [OF peer h1(1) idl r2 hconf p2, where dec = "decStatus ?cd" and result = "[]"] cfg(1) st(2)
    by (cases "st = []") (auto simp: client_Configure_def MarshalParams_def UnmarshalResult_def okResp_def)
  have "Start env bin e k hs = (Inr ?c1, hs2)"
    unfolding Start_def sp option.case Let_def spawned_def [symmetric] c0_def [symmetric] i prod.case sum.case
    using api assms(2,3) conf by simp
  then show ?thesis by (intro exI [of _ ?c1] exI [of _ hs2]) simp
qed

end

text \<open>A codec that is right about one request, one response and two events, for the witnesses.\<close>

definition example_codec :: "Request \<Rightarrow> Response \<Rightarrow> CaptureEvent \<Rightarrow> CaptureEvent \<Rightarrow> codec" where
  "example_codec req resp ev out =
     \<lparr>encRequest = (\<lambda>_. Some [1]), decRequest = (\<lambda>_. Some req), encResponse = (\<lambda>_. Some [2]), decResponse = (\<lambda>_. Some resp),
      encInfo = (\<lambda>_. None), decInfo = (\<lambda>_. None), encConfig = (\<lambda>_. None), decConfig = (\<lambda>_. None),
      encEvent = (\<lambda>e. Some (if e = ev then [3] else [4])), decEvent = (\<lambda>b. Some (if b = [3] then ev else out)),
      encStatus = (\<lambda>_. Some [5]), decStatus = (\<lambda>_. Some []),
      decErrorText = (\<lambda>_ _. []), encErrorText = (\<lambda>_. [])\<rparr>"

definition no_build :: BuildInfo where
  "no_build = \<lparr>biVersion = [], biCommit = [], biBuildTime = [], biEdition = []\<rparr>"

definition example_peer :: "codec \<Rightarrow> unit env" where
  "example_peer cd = \<lparr>envCodec = cd, envPeer = serve_peer cd (mask_handler no_build),
     envSpawn = (\<lambda>_. None), envStat = (\<lambda>_. None), envLookPath = (\<lambda>_. None), envJoin = (\<lambda>a b. a @ b)\<rparr>"

definition example_client :: "string \<Rightarrow> nat \<Rightarrow> Client" where
  "example_client name p = \<lparr>clName = name, clKind = ''sink'', clMode = [],
     clInfo = zeroInfo\<lparr>piName := name\<rparr>, clProc = p\<rparr>"

definition idle_conn :: "unit conn" where
  "idle_conn = \<lparr>cnStdin = \<lparr>wrOut = [], wrLimit = None\<rparr>, cnStdout = [], cnPlugin = ()\<rparr>"

definition example_host :: "unit host" where
  "example_host = \<lparr>hsConns = [3 \<mapsto> idle_conn], hsNextID = (\<lambda>_. 0), hsNext = 4\<rparr>"

section \<open>Properties\<close>



text \<open>A manager with no plugins over a host that runs nothing.\<close>

definition empty_host :: "nat host" where
  "empty_host = \<lparr>hsConns = Map.empty, hsNextID = (\<lambda>_. 0), hsNext = 0\<rparr>"

lemma manager_ok_empty: "manager_ok (NewManager cfg) empty_host"
  by (simp add: manager_ok_def host_ok_def empty_host_def NewManager_def clients_def procs_of_def)

text \<open>A plugin that answers the numbered requests of a start, the processor \<^verbatim>\<open>p\<close> and a sink without a binary.\<close>

definition answering_codec :: codec where
  "answering_codec =
     \<lparr>encRequest = (\<lambda>r. Some [1]), decRequest = (\<lambda>_. None), encResponse = (\<lambda>_. None),
      decResponse = (\<lambda>b. Some (okResp (ucast (hd b)) [1])),
      encInfo = (\<lambda>_. None), decInfo = (\<lambda>_. Some (zeroInfo\<lparr>piName := ''p''\<rparr>)), encConfig = (\<lambda>_. Some [1]), decConfig = (\<lambda>_. None),
      encEvent = (\<lambda>_. None), decEvent = (\<lambda>_. None), encStatus = (\<lambda>_. None), decStatus = (\<lambda>_. Some []),
      decErrorText = (\<lambda>_ _. []), encErrorText = (\<lambda>_. [])\<rparr>"

definition answering_env :: "nat env" where
  "answering_env =
     \<lparr>envCodec = answering_codec,
      envPeer = (\<lambda>cn. \<lparr>cnStdin = \<lparr>wrOut = [], wrLimit = None\<rparr>, cnStdout = frame [word_of_nat (cnPlugin cn + 1)],
        cnPlugin = cnPlugin cn + 1\<rparr>),
      envSpawn = (\<lambda>_. Some \<lparr>cnStdin = \<lparr>wrOut = [], wrLimit = None\<rparr>, cnStdout = [], cnPlugin = 0\<rparr>),
      envStat = (\<lambda>_. None), envLookPath = (\<lambda>_. None), envJoin = (\<lambda>a b. a @ b)\<rparr>"

definition one_processor :: PluginEntry where
  "one_processor = \<lparr>eName = ''p'', eDisabled = False, eSettings = None, ePath = ''/p'', eMode = ''sync''\<rparr>"

definition example_config :: "PluginEntry list \<Rightarrow> Config" where
  "example_config sinks = \<lparr>PluginDir = [], Processors = [one_processor], Sinks = sinks, SinkQueue = 4, HTTPPort = 1\<rparr>"

definition answered :: "nat \<Rightarrow> nat conn" where
  "answered n = \<lparr>cnStdin = \<lparr>wrOut = [], wrLimit = None\<rparr>, cnStdout = [], cnPlugin = n\<rparr>"

lemma answering_call:
  assumes "hsConns hs (clProc c) = Some (answered n)" and "hsNextID hs (clProc c) = k"
    and "k + 1 = ucast (word_of_nat (Suc n) :: u8)" and "dec [1] = Some r"
  shows "call answering_env meth (Some raw) dec z c hs =
    (Inr r, hs\<lparr>hsNextID := (hsNextID hs)(clProc c := k + 1), hsConns := (hsConns hs)(clProc c \<mapsto> answered (Suc n))\<rparr>)"
proof -
  have f: "ReadMessage u (frame [x]) = (case u [x] of None \<Rightarrow> Inl BadJSON | Some v \<Rightarrow> Inr (v, []))"
    for u :: "bytes \<Rightarrow> 'x option" and x
    using ReadMessage_frame [of "[x]" u "[]"] by (simp add: frame_fits_def)
  show ?thesis
    using assms by (simp add: call_def Let_def answering_env_def answering_codec_def WriteMessage_Some f UnmarshalResult_def
        okResp_def answered_def)
qed

lemma answering_start:
  "\<exists>c hs'. Start answering_env ''/p'' one_processor ''processor'' hs = (Inr c, hs') \<and>
    clProc c = hsNext hs \<and> hsConns hs' = (hsConns hs)(hsNext hs \<mapsto> answered 2)"
proof -
  have spawn: "envSpawn answering_env b = Some (answered 0)" for b by (simp add: answering_env_def answered_def)
  have cd: "decInfo (envCodec answering_env) [1] = Some (zeroInfo\<lparr>piName := ''p''\<rparr>)"
    "decStatus (envCodec answering_env) [1] = Some []" "encConfig (envCodec answering_env) cfg = Some [1]" for cfg
    by (simp_all add: answering_env_def answering_codec_def)
  have one: "client_Info answering_env c h =
      (Inr (zeroInfo\<lparr>piName := ''p''\<rparr>), h\<lparr>hsNextID := (hsNextID h)(clProc c := 1), hsConns := (hsConns h)(clProc c \<mapsto> answered 1)\<rparr>)"
    if "hsConns h (clProc c) = Some (answered 0)" "hsNextID h (clProc c) = 0" for c h
    using answering_call [OF that, where dec = "decInfo (envCodec answering_env)"] cd(1) by (simp add: client_Info_def MarshalParams_def)
  have two: "client_Configure answering_env cfg c h =
      (Inr [], h\<lparr>hsNextID := (hsNextID h)(clProc c := 1 + 1), hsConns := (hsConns h)(clProc c \<mapsto> answered (Suc 1))\<rparr>)"
    if "hsConns h (clProc c) = Some (answered 1)" "hsNextID h (clProc c) = 1" for cfg c h
    using answering_call [OF that, where dec = "decStatus (envCodec answering_env)"] cd(2,3)
    by (simp add: client_Configure_def MarshalParams_def)
  show ?thesis
    by (simp add: Start_def spawn Let_def one two zeroInfo_def one_processor_def numeral_2_eq_2)
qed

lemma answering_processors:
  "\<exists>c hs'. load_entries answering_env dir ''processor'' [one_processor] cs hs = (Loaded (cs @ [c]), hs') \<and>
    clProc c = hsNext hs \<and> hsConns hs' = (hsConns hs)(hsNext hs \<mapsto> answered 2)"
proof -
  have r: "ResolveBinary answering_env dir one_processor ''processor'' = Some ''/p''" "\<not> eDisabled one_processor"
    by (simp_all add: ResolveBinary_def one_processor_def)
  then show ?thesis using answering_start [of hs] by auto
qed

definition missing_sink :: PluginEntry where
  "missing_sink = \<lparr>eName = ''s'', eDisabled = False, eSettings = None, ePath = [], eMode = []\<rparr>"

lemma missing_sink_fails:
  "load_entries answering_env dir ''sink'' [missing_sink] cs hs = (ResolveFailed, hs)"
  by (simp add: missing_sink_def ResolveBinary_def Let_def is_file_def answering_env_def)

lemma stop_empty:
  "stopLocked env (NewManager cfg) hs = (NewManager cfg, hs)" "mgCfg (NewManager cfg) = cfg"
  by (simp_all add: stopLocked_def NewManager_def)

lemma example_config_obs [simp]:
  "PluginDir (example_config ss) = []" "Processors (example_config ss) = [one_processor]" "Sinks (example_config ss) = ss"
  by (simp_all add: example_config_def)

section \<open>Properties of a load\<close>

text \<open>A load that succeeds runs exactly what the configuration enables: for every enabled entry, in its
  order, one client of that name, kind and effective mode, each with a process of its own that is
  running; the processes of the previous clients are gone and nothing else was started or stopped.\<close>

theorem load_runs_configuration:
  assumes "manager_ok m hs" and "loadLocked env m hs = (None, m', hs')"
  shows "list_all2 (client_for ''processor'') (wanted (Processors (mgCfg m))) (mgProcessors m') \<and>
    list_all2 (client_for ''sink'') (wanted (Sinks (mgCfg m))) (mgSinks m') \<and>
    distinct (map clProc (clients m')) \<and> running hs' = running hs - procs_of (clients m) \<union> procs_of (clients m') \<and>
    manager_ok m' hs'"
  using load_ok [OF assms] manager_okD(2) [of m' hs'] by blast

theorem load_runs_configuration_witness:
  "\<exists>m hs. loadLocked answering_env (NewManager (example_config [])) empty_host = (None, m, hs) \<and>
     list_all2 (client_for ''processor'') [one_processor] (mgProcessors m) \<and> mgSinks m = [] \<and>
     running hs = procs_of (clients m)"
proof -
  obtain c hs' where p: "load_entries answering_env [] ''processor'' [one_processor] [] empty_host = (Loaded [c], hs')"
    using answering_processors [of "[]" "[]" empty_host] by auto
  obtain m where l: "loadLocked answering_env (NewManager (example_config [])) empty_host = (None, m, hs')"
    using p by (simp add: loadLocked_def stop_empty)
  have "wanted [one_processor] = [one_processor]" "wanted [] = []" by (simp_all add: wanted_def one_processor_def)
  moreover have "running empty_host = {}" by (simp add: running_def empty_host_def)
  ultimately show ?thesis
    using load_runs_configuration [OF manager_ok_empty l] l by (simp add: stop_empty)
qed

text \<open>C23: A load that fails half way leaks: when the binary of a sink is not found after the processors have
  been started, the error is returned and the manager has no plugin, so that nothing will ever close
  them, but every processor that was started still runs.\<close>

theorem load_failure_leaks:
  assumes "manager_ok m hs" and "stopLocked env m hs = (m1, hs1)"
    and "load_entries env (PluginDir (mgCfg m)) ''processor'' (Processors (mgCfg m)) [] hs1 = (Loaded procs, hs2)"
    and "load_entries env (PluginDir (mgCfg m)) ''sink'' (Sinks (mgCfg m)) [] hs2 = (ResolveFailed, hs3)"
  shows "loadLocked env m hs = (Some NotFound, m1, hs3) \<and> clients m1 = [] \<and> procs_of procs \<subseteq> running hs3 \<and>
    running (snd (manager_Close env m1 hs3)) = running hs3"
proof -
  note l = load_orphans [OF assms]
  have "running (snd (manager_Close env m1 hs3)) = running hs3"
    using stopLocked_obs(3) [of env m1 hs3] l(2)
    by (cases "stopLocked env m1 hs3") (simp add: manager_Close_def procs_of_def)
  then show ?thesis using l by simp
qed

theorem load_failure_leaks_witness:
  "\<exists>hs p. loadLocked answering_env (NewManager (example_config [missing_sink])) empty_host =
       (Some NotFound, NewManager (example_config [missing_sink]), hs) \<and> p \<in> running hs"
proof -
  let ?m = "NewManager (example_config [missing_sink])"
  obtain c hs' where p: "load_entries answering_env [] ''processor'' [one_processor] [] empty_host = (Loaded [c], hs')"
    using answering_processors [of "[]" "[]" empty_host] by auto
  have "load_entries answering_env (PluginDir (mgCfg ?m)) ''processor'' (Processors (mgCfg ?m)) [] empty_host = (Loaded [c], hs')"
    "load_entries answering_env (PluginDir (mgCfg ?m)) ''sink'' (Sinks (mgCfg ?m)) [] hs' = (ResolveFailed, hs')"
    using p by (simp_all add: stop_empty missing_sink_fails del: load_entries.simps)
  from load_failure_leaks [OF manager_ok_empty stop_empty(1) this] show ?thesis
    by (auto simp: procs_of_def)
qed

end
