(* ===== verification/Pipeline_Props.thy ===== *)
theory Pipeline_Props
  imports Pipeline_Workers Plugin_Props
begin

text \<open>
  What the pipeline of \<^verbatim>\<open>internal/pipeline\<close> guarantees for every interleaving of its workers with the
  emitting read loop: nothing is lost without being counted, one emit reaches every queue at most
  once and never waits, and when a stop returns and when it hangs.
\<close>

section \<open>Helpers\<close>

lemma take_subseq_flow:
  assumes "chans_ok p" and "ops_in ops p" and "i < length (plWorkers p)" and "run_ops env ops (p, hs) = (p', hs')"
    and "tagged ops tag (wkChan (plWorkers p ! i))"
  obtains new where "flow p' i = flow p i @ new" and "subseq new (offered (wkChan (plWorkers p ! i)) ops)"
    and "drops tag p' + length new = drops tag p + length (offered (wkChan (plWorkers p ! i)) ops)"
  using run_ops_flow [OF assms] by blast

text \<open>A pipeline with the given sinks.\<close>

definition example_manager :: "Client list \<Rightarrow> Manager" where
  "example_manager cs = \<lparr>mgCfg = Default, mgProcessors = [], mgSinks = cs\<rparr>"

definition example_pipe :: "Client list \<Rightarrow> Pipeline" where
  "example_pipe cs = startWorkers (newPipeline (example_manager cs) 4)"

lemma new_quiet: "quiet (newPipeline mgr n)"
  using newPipeline_ok [of mgr n] by (simp add: quiet_def all_done_def newPipeline_def Let_def)

lemma new_mgr [simp]: "plMgr (newPipeline mgr n) = mgr"
  by (simp add: newPipeline_def Let_def)

lemma example_plugins [simp]:
  "manager_Sinks (example_manager cs) = cs" "AsyncProcessors (example_manager cs) = []"
  "SyncProcessors (example_manager cs) = []"
  by (simp_all add: example_manager_def manager_Sinks_def AsyncProcessors_def SyncProcessors_def)

lemma example_pipe_ok: "chans_ok (example_pipe cs)"
  by (simp add: example_pipe_def startWorkers_ok newPipeline_ok)

lemma example_pipe_obs:
  "length (plWorkers (example_pipe cs)) = length cs" "length (plChans (example_pipe cs)) = length cs"
  "plMgr (example_pipe cs) = example_manager cs" "\<not> plCancelled (example_pipe cs)"
  using startWorkers_obs [of "newPipeline (example_manager cs) 4"]
  by (simp_all add: example_pipe_def newPipeline_def Let_def)

lemma example_worker:
  assumes "i < length cs"
  shows "wkChan (plWorkers (example_pipe cs) ! i) = i" and "\<not> wkDone (plWorkers (example_pipe cs) ! i)"
proof -
  have d: "all_done (newPipeline (example_manager cs) 4)" by (simp add: all_done_def newPipeline_def Let_def)
  have n: "plWorkers (newPipeline (example_manager cs) 4) = []" "plChans (newPipeline (example_manager cs) 4) = []"
    by (simp_all add: newPipeline_def Let_def)
  have "i < length (loaded_plugins (example_manager cs))"
    using assms by (simp add: loaded_plugins_def)
  then show "wkChan (plWorkers (example_pipe cs) ! i) = i" and "\<not> wkDone (plWorkers (example_pipe cs) ! i)"
    using started_workers(2,4) [OF d, of i] by (simp_all add: n example_pipe_def)
qed

definition quiet_peer :: "unit env" where
  "quiet_peer = example_peer (example_codec \<lparr>rqID = 1, rqMethod = MethodEmit, rqParams = [3]\<rparr> (okResp 1 [3]) zeroEvent zeroEvent)"

section \<open>Schedules that end the workers\<close>

text \<open>How many turns a worker needs at most once its queue is closed or the context cancelled.\<close>

definition need :: "Pipeline \<Rightarrow> nat \<Rightarrow> nat" where
  "need p i = (if wkDone (plWorkers p ! i) then 0 else Suc (length (chBuf (plChans p ! wkChan (plWorkers p ! i)))))"

definition turns :: "nat \<Rightarrow> schedule \<Rightarrow> nat" where
  "turns i sched = length (filter (\<lambda>t. fst t = i) sched)"

definition ending :: "Pipeline \<Rightarrow> bool" where
  "ending p \<longleftrightarrow> plCancelled p \<or>
     (\<forall>i < length (plWorkers p). wkDone (plWorkers p ! i) \<or> chClosed (plChans p ! wkChan (plWorkers p ! i)))"

lemma worker_step_need:
  assumes ok: "chans_ok p" and cl: "ending p" and i: "i < length (plWorkers p)" and st: "worker_step env j d p hs = (p', hs')"
  shows "need p' i \<le> need p i - (if i = j then 1 else 0)"
  using st
proof (cases rule: worker_step_cases)
  case idle
  then have "i = j \<Longrightarrow> need p i = 0" using cl i by (auto simp: ending_def need_def)
  then show ?thesis using idle(1) by simp
next
  case finish
  then show ?thesis by (cases "i = j") (simp_all add: need_def turn_over_def)
next
  case (take ev rest)
  have "wkChan (plWorkers p ! j) < length (plChans p)" using chans_okD(4) [OF ok take(1)] .
  moreover have "i \<noteq> j \<Longrightarrow> wkChan (plWorkers p ! i) \<noteq> wkChan (plWorkers p ! j)"
    using chans_okD(5) [OF ok i take(1)] by blast
  ultimately show ?thesis
    using take i by (cases "i = j") (simp_all add: need_def turn_take_def Let_def)
qed

lemma worker_step_ending:
  assumes ok: "chans_ok p" and cl: "ending p" and st: "worker_step env j d p hs = (p', hs')"
  shows "ending p'"
proof -
  note w = worker_step_ok [OF ok st]
  have "wkDone (plWorkers p' ! i)" if "i < length (plWorkers p)" "wkDone (plWorkers p ! i)" for i
    using worker_step_need [OF ok cl that(1) st] that(2) by (simp add: need_def split: if_splits)
  then show ?thesis
    using cl w(2,7,11,12) chans_okD(4) [OF ok] by (auto simp: ending_def)
qed

text \<open>Every schedule that gives each worker these turns ends the workers.\<close>

lemma fair_finish:
  assumes "chans_ok p" and "ending p" and "\<forall>i < length (plWorkers p). need p i \<le> turns i sched"
  shows "all_done (fst (run_workers env sched p hs))"
  using assms
proof (induction sched arbitrary: p hs)
  case Nil
  then show ?case by (auto simp: need_def turns_def run_workers_def all_done_def in_set_conv_nth split: if_splits)
next
  case (Cons a sched)
  obtain j d where a: "a = (j, d)" by fastforce
  obtain p1 hs1 where st: "worker_step env j d p hs = (p1, hs1)" by fastforce
  have "need p1 i \<le> turns i sched" if "i < length (plWorkers p)" for i
    using worker_step_need [OF Cons.prems(1,2) that st] Cons.prems(3) that by (auto simp: a turns_def split: if_splits)
  then show ?case
    using Cons.IH [of p1 hs1] worker_step_ok(1,2) [OF Cons.prems(1) st] worker_step_ending [OF Cons.prems(1,2) st] st
    by (simp add: a run_workers_Cons)
qed

lemma stop_fair:
  assumes ok: "chans_ok p"
    and reg: "plCancelled p \<or> (\<forall>i < length (plWorkers p). wkDone (plWorkers p ! i) \<or> wkChan (plWorkers p ! i) \<in> set ss \<union> set as)"
    and fair: "\<forall>i < length (plWorkers p). need p i \<le> turns i sched"
  shows "\<exists>p' hs'. stopWorkers env ss as sched p hs = Some (p', hs')"
proof -
  let ?q = "closeQueues ss as p"
  have "ending ?q"
    using reg chans_okD(4) [OF ok] by (auto simp: ending_def closeQueues_obs)
  moreover have "need ?q i = need p i" if "i < length (plWorkers p)" for i
    using chans_okD(4) [OF ok that] by (simp add: need_def closeQueues_obs)
  ultimately have "all_done (fst (run_workers env sched ?q hs))"
    using fair_finish [OF closeQueues_ok [OF ok], of ss as sched] fair by (simp add: closeQueues_obs)
  then show ?thesis by (cases "run_workers env sched ?q hs") (simp add: stopWorkers_def)
qed

text \<open>Turns that take the case of the cancelled context.\<close>

definition give_up :: "nat list \<Rightarrow> schedule" where
  "give_up is = map (\<lambda>i. (i, True)) is"

lemma run_give_up:
  assumes "plCancelled p"
  shows "\<exists>p'. run_workers env (give_up is) p hs = (p', hs) \<and> map wkSeen (plWorkers p') = map wkSeen (plWorkers p) \<and>
    plChans p' = plChans p \<and> plDropped p' = plDropped p \<and> plMgr p' = plMgr p \<and>
    (\<forall>i < length (plWorkers p). wkDone (plWorkers p' ! i) \<longleftrightarrow> wkDone (plWorkers p ! i) \<or> i \<in> set is)"
  using assms
proof (induction "is" arbitrary: p)
  case Nil
  then show ?case by (simp add: run_workers_def give_up_def)
next
  case (Cons i "is")
  let ?q = "if length (plWorkers p) \<le> i \<or> wkDone (plWorkers p ! i) then p else turn_over i p"
  have st: "worker_step env i True p hs = (?q, hs)" using Cons.prems by (simp add: worker_step_eq)
  have q: "plCancelled ?q" "map wkSeen (plWorkers ?q) = map wkSeen (plWorkers p)" "plChans ?q = plChans p"
    "plDropped ?q = plDropped p" "plMgr ?q = plMgr p"
    using Cons.prems by (simp_all add: turn_over_def map_update list_update_same_conv)
  have l: "length (plWorkers ?q) = length (plWorkers p)" by (simp add: turn_over_def)
  have d: "wkDone (plWorkers ?q ! j) \<longleftrightarrow> wkDone (plWorkers p ! j) \<or> j = i" if "j < length (plWorkers p)" for j
    using that by (cases "i = j") (auto simp: turn_over_def)
  from Cons.IH [OF q(1)] obtain p' where p': "run_workers env (give_up is) ?q hs = (p', hs)"
    "map wkSeen (plWorkers p') = map wkSeen (plWorkers ?q)" "plChans p' = plChans ?q" "plDropped p' = plDropped ?q"
    "plMgr p' = plMgr ?q" "\<forall>j < length (plWorkers ?q). wkDone (plWorkers p' ! j) \<longleftrightarrow> wkDone (plWorkers ?q ! j) \<or> j \<in> set is"
    by blast
  have "run_workers env (give_up (i # is)) p hs = (p', hs)"
    using st p'(1) by (simp add: give_up_def run_workers_Cons)
  then show ?case
    using p'(2-6) q d l by (intro exI [of _ p']) auto
qed

section \<open>Properties\<close>

text \<open>C17: No event is lost unseen: over any interleaving of sends and worker turns, what a worker has taken
  and still finds in its queue grows only at the end, by events offered to its queue in the order they
  were offered, and each offered event that is missing is one more drop counted for that plugin.\<close>

theorem events_conserved:
  assumes "chans_ok p" and "ops_in ops p" and "i < length (plWorkers p)" and "run_ops env ops (p, hs) = (p', hs')"
    and "tagged ops tag (wkChan (plWorkers p ! i))"
  shows "\<exists>new. wkSeen (plWorkers p' ! i) @ chBuf (plChans p' ! wkChan (plWorkers p' ! i)) =
      wkSeen (plWorkers p ! i) @ chBuf (plChans p ! wkChan (plWorkers p ! i)) @ new \<and>
    subseq new (offered (wkChan (plWorkers p ! i)) ops) \<and>
    drops tag p' + length new = drops tag p + length (offered (wkChan (plWorkers p ! i)) ops)"
  using take_subseq_flow [OF assms] unfolding flow_def append_assoc by metis

theorem events_conserved_witness:
  "\<exists>p' hs' new. run_ops quiet_peer [Send [] zeroEvent (''a'', 0), Turn 0 False]
       (example_pipe [example_client ''a'' 3], example_host) = (p', hs') \<and>
     wkSeen (plWorkers p' ! 0) @ chBuf (plChans p' ! wkChan (plWorkers p' ! 0)) =
       wkSeen (plWorkers (example_pipe [example_client ''a'' 3]) ! 0) @
       chBuf (plChans (example_pipe [example_client ''a'' 3]) ! 0) @ new \<and> subseq new [zeroEvent]"
proof -
  let ?p = "example_pipe [example_client ''a'' 3]" and ?ops = "[Send [] zeroEvent (''a'', 0), Turn 0 False]"
  obtain p' hs' where r: "run_ops quiet_peer ?ops (?p, example_host) = (p', hs')" by fastforce
  have w: "wkChan (plWorkers ?p ! 0) = 0" using example_worker(1) [of 0 "[example_client ''a'' 3]"] by simp
  have "ops_in ?ops ?p" by (simp add: ops_in_def example_pipe_obs)
  moreover have "0 < length (plWorkers ?p)" by (simp add: example_pipe_obs)
  moreover have "tagged ?ops ''a'' (wkChan (plWorkers ?p ! 0))" by (simp add: tagged_def w)
  ultimately show ?thesis
    using events_conserved [OF example_pipe_ok _ _ r, where i = 0 and tag = "''a''"] r w by (simp add: w) blast
qed

text \<open>
  The synchronous processors as a chain, written without the loop: the event and the processes before each
  of them and after the last one. A processor that answers hands on its answer, one that fails hands on
  what it was given.
\<close>

definition handed_on :: "CaptureEvent \<Rightarrow> (call_error + CaptureEvent) \<times> 'p host \<Rightarrow> CaptureEvent \<times> 'p host" where
  "handed_on ev r = (case fst r of Inl err \<Rightarrow> ev | Inr out \<Rightarrow> out, snd r)"

definition sync_chain :: "'p env \<Rightarrow> Client list \<Rightarrow> (CaptureEvent \<times> 'p host) list \<Rightarrow> bool" where
  "sync_chain env procs xs \<longleftrightarrow> length xs = length procs + 1 \<and>
     (\<forall>i < length procs. xs ! Suc i = handed_on (fst (xs ! i)) (client_Process env (fst (xs ! i)) (procs ! i) (snd (xs ! i))))"

lemma run_sync_chain: "\<exists>xs. sync_chain env procs xs \<and> hd xs = (ev, hs) \<and> last xs = run_sync env procs ev hs"
proof (induction procs arbitrary: ev hs)
  case Nil
  then show ?case by (intro exI [of _ "[(ev, hs)]"]) (simp add: sync_chain_def)
next
  case (Cons c cs)
  obtain r h1 where r: "client_Process env ev c hs = (r, h1)" by fastforce
  let ?next = "case r of Inl _ \<Rightarrow> ev | Inr out \<Rightarrow> out"
  obtain xs where xs: "sync_chain env cs xs" "hd xs = (?next, h1)" "last xs = run_sync env cs ?next h1"
    using Cons.IH by blast
  have ne: "xs \<noteq> []" using xs(1) by (auto simp: sync_chain_def)
  have "sync_chain env (c # cs) ((ev, hs) # xs)"
    using xs(1,2) ne r by (auto simp: sync_chain_def handed_on_def less_Suc_eq_0_disj hd_conv_nth split: sum.split)
  then show ?case
    using xs(3) ne r by (intro exI [of _ "(ev, hs) # xs"]) (simp split: sum.split)
qed

text \<open>C25: Emitting an event stamps it with the version, commit and edition of the build and the plugins in use,
  and passes it through the synchronous processors in their order: each gets what the one before it
  handed on, a failed one hands on what it was given and the next one is asked all the same. The last
  event of this chain is then offered once to every queue of the snapshot: a queue with room gets it at its
  end, a full or closed one is counted as a drop under its name, other queues stay as they are, and no
  worker takes a turn. The queues of the snapshot are different ones and belong to the pipeline.\<close>

theorem emit_fans_out:
  assumes "chans_ok p" and "distinct (map snd (sinks @ asyncs))" and "\<forall>q \<in> set (sinks @ asyncs). snd q < length (plChans p)"
    and "pipeline_Emit v env sinks asyncs (Some ev) p hs = (p', hs')"
  shows "\<exists>xs cur. sync_chain env (SyncProcessors (plMgr p)) xs \<and>
    hd xs = (ev\<lparr>ceClawguardVersion := biVersion v, ceClawguardCommit := biCommit v, ceClawguardEdition := biEdition v,
                cePlugins := PluginRefs (plMgr p)\<rparr>, hs) \<and>
    last xs = (cur, hs') \<and> plWorkers p' = plWorkers p \<and>
    (\<forall>c < length (plChans p). chBuf (plChans p' ! c) =
      chBuf (plChans p ! c) @ (if c \<in> snd ` set (sinks @ asyncs) \<and> send_ok c p then [cur] else [])) \<and>
    plDropped p' = plDropped p @ map fst (filter (\<lambda>q. \<not> send_ok (snd q) p) sinks) @
      map (\<lambda>q. ''processor:'' @ fst q) (filter (\<lambda>q. \<not> send_ok (snd q) p) asyncs)"
proof -
  obtain cur hs1 where sync: "run_sync env (SyncProcessors (plMgr p)) (stamp v (plMgr p) ev) hs = (cur, hs1)" by fastforce
  define p1 where "p1 = fold (send_or_drop [] cur) sinks p"
  have p': "p' = fold (send_or_drop ''processor:'' cur) asyncs p1" and hs': "hs' = hs1"
    using assms(4) sync by (simp_all add: pipeline_Emit_def p1_def Let_def)
  have d: "distinct (map snd sinks)" "distinct (map snd asyncs)" "snd ` set sinks \<inter> snd ` set asyncs = {}"
    using assms(2) by auto
  have r: "\<forall>q \<in> set sinks. snd q < length (plChans p)" "\<forall>q \<in> set asyncs. snd q < length (plChans p)"
    using assms(3) by auto
  note one = fold_send [OF assms(1) d(1) r(1), of "[]" cur, folded p1_def]
  have r1: "\<forall>q \<in> set asyncs. snd q < length (plChans p1)" using r(2) one by simp
  note two = fold_send [OF conjunct1 [OF one] d(2) r1, of "''processor:''" cur, folded p']
  have ok: "send_ok (snd q) p1 = send_ok (snd q) p" if "q \<in> set asyncs" for q
    using one r(2) d(3) that by blast
  have f: "filter (\<lambda>q. \<not> send_ok (snd q) p1) asyncs = filter (\<lambda>q. \<not> send_ok (snd q) p) asyncs"
    using ok by (intro filter_cong) simp_all
  have buf: "chBuf (plChans p' ! c) = chBuf (plChans p ! c) @
      (if c \<in> snd ` set (sinks @ asyncs) \<and> send_ok c p then [cur] else [])" if "c < length (plChans p)" for c
  proof -
    have a: "chBuf (plChans p' ! c) = chBuf (plChans p1 ! c) @ (if c \<in> snd ` set asyncs \<and> send_ok c p1 then [cur] else [])"
      using two one that by simp
    have b: "chBuf (plChans p1 ! c) = chBuf (plChans p ! c) @ (if c \<in> snd ` set sinks \<and> send_ok c p then [cur] else [])"
      using one that by simp
    have "c \<in> snd ` set asyncs \<Longrightarrow> send_ok c p1 = send_ok c p" using ok by auto
    then show ?thesis unfolding a b using d(3) by (auto simp: image_Un)
  qed
  obtain xs where "sync_chain env (SyncProcessors (plMgr p)) xs" "hd xs = (stamp v (plMgr p) ev, hs)" "last xs = (cur, hs')"
    using run_sync_chain [of env "SyncProcessors (plMgr p)" "stamp v (plMgr p) ev" hs] sync hs' by auto
  moreover have "plWorkers p' = plWorkers p" using one two by simp
  ultimately show ?thesis
    using one two buf unfolding f stamp_def by (intro exI [of _ xs] exI [of _ cur]) simp
qed

text \<open>A synchronous processor that has gone, so that its call fails: the event is stamped and goes on.\<close>

definition sync_manager :: Manager where
  "sync_manager = \<lparr>mgCfg = Default, mgProcessors = [(example_client ''b'' 9)\<lparr>clMode := ''sync''\<rparr>],
     mgSinks = [example_client ''a'' 3]\<rparr>"

theorem emit_fans_out_witness:
  "\<exists>p' hs' cur. pipeline_Emit no_build quiet_peer [(''a'', 0)] [] (Some zeroEvent) (startWorkers (newPipeline sync_manager 4)) example_host
       = (p', hs') \<and> chBuf (plChans p' ! 0) = [cur] \<and> SyncProcessors sync_manager \<noteq> []"
proof -
  let ?p = "startWorkers (newPipeline sync_manager 4)"
  obtain p' hs' where e: "pipeline_Emit no_build quiet_peer [(''a'', 0)] [] (Some zeroEvent) ?p example_host = (p', hs')"
    by fastforce
  have l: "SyncProcessors sync_manager = [(example_client ''b'' 9)\<lparr>clMode := ''sync''\<rparr>]" "manager_Sinks sync_manager = [example_client ''a'' 3]"
    "AsyncProcessors sync_manager = []"
    by (simp_all add: sync_manager_def SyncProcessors_def manager_Sinks_def AsyncProcessors_def)
  have c: "plChans ?p = [make_chan 4]"
    using startWorkers_obs(2) [of "newPipeline sync_manager 4"] by (simp add: l newPipeline_def Let_def)
  then have "send_ok 0 ?p" by (simp add: send_ok_def make_chan_def)
  moreover have "chans_ok ?p" by (simp add: startWorkers_ok newPipeline_ok)
  ultimately show ?thesis
    using emit_fans_out [OF _ _ _ e] e c l by (fastforce simp: make_chan_def)
qed

text \<open>C19: Stopping delivers: once their queues are closed, the workers return under every schedule that gives each
  of them one turn more than it has events queued, however the calls to the plugins answer; and
  whenever a stop that is not a cancellation returns, each worker has taken every event that was in
  its queue, in order.\<close>

theorem fair_stop_drains:
  assumes "chans_ok p"
    and "\<forall>i < length (plWorkers p). wkDone (plWorkers p ! i) \<or> wkChan (plWorkers p ! i) \<in> set ss \<union> set as"
  shows "((\<forall>i < length (plWorkers p). \<not> wkDone (plWorkers p ! i) \<longrightarrow>
        length (chBuf (plChans p ! wkChan (plWorkers p ! i))) < turns i sched) \<longrightarrow>
      (\<exists>p' hs'. stopWorkers env ss as sched p hs = Some (p', hs'))) \<and>
    (\<forall>p' hs'. \<not> plCancelled p \<and> stopWorkers env ss as sched p hs = Some (p', hs') \<longrightarrow>
      (\<forall>i < length (plWorkers p). \<not> wkDone (plWorkers p ! i) \<longrightarrow>
         wkSeen (plWorkers p' ! i) = wkSeen (plWorkers p ! i) @ chBuf (plChans p ! wkChan (plWorkers p ! i))))"
  using stop_fair [OF assms(1) disjI2 [OF assms(2)], of sched env hs] stop_delivers(1) [OF assms(1)]
  by (auto simp: need_def Suc_le_eq flow_def)

theorem fair_stop_drains_witness:
  "\<exists>p' hs'. stopWorkers quiet_peer [0] [] [(0, False)] (example_pipe [example_client ''a'' 3]) example_host = Some (p', hs')"
proof -
  let ?p = "example_pipe [example_client ''a'' 3]"
  have w: "wkChan (plWorkers ?p ! 0) = 0" using example_worker(1) [of 0 "[example_client ''a'' 3]"] by simp
  have "plChans ?p = [make_chan 4]"
    unfolding example_pipe_def startWorkers_obs by (simp add: newPipeline_def Let_def)
  then have c: "\<forall>i < length (plWorkers ?p). wkDone (plWorkers ?p ! i) \<or> wkChan (plWorkers ?p ! i) \<in> set [0] \<union> set []"
    "\<forall>i < length (plWorkers ?p). \<not> wkDone (plWorkers ?p ! i) \<longrightarrow>
      length (chBuf (plChans ?p ! wkChan (plWorkers ?p ! i))) < turns i [(0, False)]"
    using w by (simp_all add: example_pipe_obs turns_def make_chan_def)
  from fair_stop_drains [OF example_pipe_ok c(1), of "[(0, False)]" quiet_peer example_host] c(2) show ?thesis by blast
qed

text \<open>Stopping delivers: with the queues of all running workers closed, the workers can always run to
  their end, however the calls to the plugins answer; and whenever a stop that is not a cancellation
  returns, each worker has taken every event that was in its queue, in order.\<close>

theorem stop_drains:
  assumes "chans_ok p" and "\<not> plCancelled p"
    and "\<forall>i < length (plWorkers p). wkDone (plWorkers p ! i) \<or> wkChan (plWorkers p ! i) \<in> set ss \<union> set as"
  shows "(\<exists>sched p' hs'. stopWorkers env ss as sched p hs = Some (p', hs')) \<and>
    (\<forall>sched p' hs' i. stopWorkers env ss as sched p hs = Some (p', hs') \<and> i < length (plWorkers p) \<and> \<not> wkDone (plWorkers p ! i) \<longrightarrow>
       all_done p' \<and> wkSeen (plWorkers p' ! i) = wkSeen (plWorkers p ! i) @ chBuf (plChans p ! wkChan (plWorkers p ! i)))"
proof (intro conjI allI impI)
  show "\<exists>sched p' hs'. stopWorkers env ss as sched p hs = Some (p', hs')"
    using assms(3) by (intro stop_returns [OF assms(1)]) blast
next
  fix sched p' hs' i
  assume "stopWorkers env ss as sched p hs = Some (p', hs') \<and> i < length (plWorkers p) \<and> \<not> wkDone (plWorkers p ! i)"
  then show "all_done p'" "wkSeen (plWorkers p' ! i) = wkSeen (plWorkers p ! i) @ chBuf (plChans p ! wkChan (plWorkers p ! i))"
    using stop_delivers [OF assms(1,2), of env ss as sched hs p' hs' i] by (simp_all add: flow_def)
qed

theorem stop_drains_witness:
  "\<exists>sched p' hs'. stopWorkers quiet_peer [0] [] sched (example_pipe [example_client ''a'' 3]) example_host = Some (p', hs')"
proof -
  let ?p = "example_pipe [example_client ''a'' 3]"
  have "\<forall>i < length (plWorkers ?p). wkDone (plWorkers ?p ! i) \<or> wkChan (plWorkers ?p ! i) \<in> set [0] \<union> set []"
    using example_worker(1) [of 0 "[example_client ''a'' 3]"] by (simp add: example_pipe_obs)
  from stop_drains [OF example_pipe_ok example_pipe_obs(4) this] show ?thesis by blast
qed

text \<open>C20: Two sinks that report the same name hang the pipeline: the second start overwrites the queue of
  the first in the map, so that a stop does not close it, and as its worker waits for it no schedule
  makes the stop, and with it a reload, return.\<close>

theorem duplicate_name_hangs:
  assumes "quiet p" and "i < j" and "j < length (manager_Sinks (plMgr p))"
    and "pname (manager_Sinks (plMgr p) ! i) = pname (manager_Sinks (plMgr p) ! j)" and "\<not> plCancelled p"
    and "set ss = ran (plSinkQueues (startWorkers p))" and "set as = ran (plAsyncQueues (startWorkers p))"
  shows "stopWorkers env ss as sched (startWorkers p) hs = None \<and> AfterReload env ss as sched (startWorkers p) hs = None"
proof -
  note h = started_hidden [OF assms(1-4)]
  have ok: "chans_ok (startWorkers p)" using assms(1) startWorkers_ok by (simp add: quiet_def)
  have nc: "\<not> plCancelled (startWorkers p)" using assms(5) by (simp add: startWorkers_obs(5))
  have "wkChan (plWorkers (startWorkers p) ! (length (plWorkers p) + i)) \<notin> set ss \<union> set as"
    using h(3) by (simp add: assms(6,7) registered_def)
  then have "stopWorkers env ss as sched (startWorkers p) hs = None"
    using stop_blocks [OF ok nc h(1,2) _ h(4)] by blast
  then show ?thesis by (simp add: AfterReload_def)
qed

theorem duplicate_name_hangs_witness:
  "\<forall>sched. AfterReload quiet_peer [1] [] sched (example_pipe [example_client ''a'' 3, example_client ''a'' 4]) example_host = None"
proof
  fix sched
  let ?cs = "[example_client ''a'' 3, example_client ''a'' 4]"
  let ?q = "newPipeline (example_manager ?cs) 4"
  have n: "plSinkQueues ?q = Map.empty" "plAsyncQueues ?q = Map.empty" "plChans ?q = []" "\<not> plCancelled ?q"
    by (simp_all add: newPipeline_def Let_def)
  have pn: "pname (example_client ''a'' k) = ''a''" for k by (simp add: pname_def example_client_def)
  have "plSinkQueues (startWorkers ?q) = [''a'' \<mapsto> 1]" "plAsyncQueues (startWorkers ?q) = Map.empty"
    by (simp_all add: startWorkers_obs n queue_map_def pn upt_rec)
  then have r: "set [1] = ran (plSinkQueues (startWorkers ?q))" "set [] = ran (plAsyncQueues (startWorkers ?q))" by simp_all
  show "AfterReload quiet_peer [1] [] sched (example_pipe ?cs) example_host = None"
    unfolding example_pipe_def
    by (rule conjunct2 [OF duplicate_name_hangs [where i = 0 and j = 1, OF new_quiet _ _ _ n(4) r]]) (simp_all add: pn)
qed

text \<open>C16: Closing may discard: the pipeline is cancelled before its queues are closed, so that a worker may return
  with its queue full. There is always a schedule under which the close returns and no worker has
  taken any of the events that were queued; none of them is counted as a drop.\<close>

theorem close_discards_queued:
  "\<exists>sched p' hs'. pipeline_Close env ss as sched p hs = Some (p', hs') \<and> map wkSeen (plWorkers p') = map wkSeen (plWorkers p) \<and>
     map chBuf (plChans p') = map chBuf (plChans p) \<and> plDropped p' = plDropped p"
proof -
  let ?c = "p\<lparr>plCancelled := True\<rparr>" and ?is = "[0..<length (plWorkers p)]"
  let ?q = "closeQueues ss as ?c"
  have "plCancelled ?q" by (simp add: closeQueues_obs)
  from run_give_up [OF this, of env ?is hs] obtain p' where p': "run_workers env (give_up ?is) ?q hs = (p', hs)"
    "map wkSeen (plWorkers p') = map wkSeen (plWorkers p)" "plChans p' = plChans ?q" "plDropped p' = plDropped p"
    "\<forall>i < length (plWorkers p). wkDone (plWorkers p' ! i)"
    by (auto simp: closeQueues_obs)
  have "all_done p'"
    using p'(2,5) map_eq_imp_length_eq [OF p'(2)] by (auto simp: all_done_def in_set_conv_nth)
  then have stop: "stopWorkers env ss as (give_up ?is) ?c hs = Some (p', hs)"
    using p'(1) by (simp add: stopWorkers_def)
  have "map chBuf (plChans ?q) = map chBuf (plChans p)"
    by (rule nth_equalityI) (simp_all add: closeQueues_obs)
  moreover obtain m hs' where "manager_Close env (plMgr p') hs = (m, hs')" by fastforce
  ultimately show ?thesis
    using stop p'(2,3,4) by (intro exI [of _ "give_up ?is"]) (simp add: pipeline_Close_def)
qed

end
