(* ===== verification/Reload.thy ===== *)
theory Reload
  imports Pipeline_Props Metrics
begin

text \<open>
  The life of the plugins in \<^verbatim>\<open>main.go\<close>: what \<^verbatim>\<open>main\<close> starts, and the \<^verbatim>\<open>SIGHUP\<close> handler that loads the
  configuration again, reloads the manager, and then has the pipeline follow. The handler and the
  pipeline share the manager: it is the pipeline's \<open>plMgr\<close>.
\<close>

section \<open>Start and reload\<close>

definition refreshPluginMetrics :: "Manager \<Rightarrow> metrics \<Rightarrow> metrics" where
  "refreshPluginMetrics mgr mt =
     fold (\<lambda>info. setPluginInfoMetrics (piName info) (piKind info) (piVersion info) (piCommit info)) (Infos mgr)
       (resetPluginInfoMetrics mt)"

text \<open>The points at which \<^verbatim>\<open>main\<close> gives up with \<^verbatim>\<open>log.Fatalf\<close>, which ends the process without its deferred calls.\<close>

datatype fatal = ConfigFatal | PluginsFatal | LoadFatal | RingbufFatal

definition start_plugins :: "'p env \<Rightarrow> Config \<times> load_error option \<Rightarrow> metrics \<Rightarrow> 'p host \<Rightarrow>
    (fatal \<times> 'p host) + (Pipeline \<times> metrics \<times> 'p host)" where
  "start_plugins env loaded mt hs =
     (case loaded of
        (cfg, Some err) \<Rightarrow> Inl (ConfigFatal, hs)
      | (cfg, None) \<Rightarrow>
          (case manager_Load env (NewManager cfg) hs of
             (Some err, mgr, hs) \<Rightarrow> Inl (PluginsFatal, hs)
           | (None, mgr, hs) \<Rightarrow>
               let mt = refreshPluginMetrics mgr mt;
                   p = newPipeline mgr (SinkQueue cfg)
               in Inr (pipeline_Start p, mt, hs)))"

text \<open>
  One \<^verbatim>\<open>SIGHUP\<close>. \<open>ops\<close> are the sends and worker turns that happen between \<^verbatim>\<open>Reload\<close> and \<^verbatim>\<open>AfterReload\<close>,
  \<open>sched\<close> the turns of the workers that are being stopped; \<open>None\<close> when it does not return under them.
\<close>

definition sighup :: "'p env \<Rightarrow> Config \<times> load_error option \<Rightarrow> pl_op list \<Rightarrow> nat list \<Rightarrow> nat list \<Rightarrow> schedule \<Rightarrow>
    Pipeline \<Rightarrow> metrics \<Rightarrow> 'p host \<Rightarrow> (Pipeline \<times> metrics \<times> 'p host) option" where
  "sighup env loaded ops sinks asyncs sched p mt hs =
     (case loaded of
        (newCfg, Some err) \<Rightarrow> Some (p, mt, hs)
      | (newCfg, None) \<Rightarrow>
          (case Reload env newCfg (plMgr p) hs of
             (Some err, mgr, hs) \<Rightarrow> Some (p\<lparr>plMgr := mgr\<rparr>, mt, hs)
           | (None, mgr, hs) \<Rightarrow>
               let (p, hs) = run_ops env ops (p\<lparr>plMgr := mgr\<rparr>, hs)
               in (case AfterReload env sinks asyncs sched p hs of
                     None \<Rightarrow> None
                   | Some (p, hs) \<Rightarrow> Some (p, refreshPluginMetrics mgr mt, hs))))"

section \<open>Calls to plugins that are gone\<close>

text \<open>The workers that have not returned belong to clients without a subprocess.\<close>

definition dead_workers :: "Pipeline \<Rightarrow> 'p host \<Rightarrow> bool" where
  "dead_workers p hs \<longleftrightarrow>
     (\<forall>w \<in> set (plWorkers p). wkDone w \<or> clProc (wkClient w) \<notin> running hs)"

lemma call_dead:
  assumes "clProc c \<notin> running hs"
  shows "hsConns (snd (call env meth params dec z c hs)) = hsConns hs"
  using assms by (auto simp: call_def Let_def running_def split: option.splits)

lemma deliver_dead: "clProc (wkClient w) \<notin> running hs \<Longrightarrow> hsConns (deliver env w ev hs) = hsConns hs"
  by (simp add: deliver_def client_Emit_def client_Process_def call_dead split: worker_kind.split)

lemma running_cong: "hsConns hs' = hsConns hs \<Longrightarrow> running hs' = running hs"
  by (simp add: running_def)

lemma worker_step_dead:
  assumes "dead_workers p hs" and "worker_step env i d p hs = (p', hs')"
  shows "dead_workers p' hs' \<and> hsConns hs' = hsConns hs"
  using assms(2)
proof (cases rule: worker_step_cases)
  case idle
  then show ?thesis using assms(1) by simp
next
  case finish
  then show ?thesis
    using assms(1) by (auto simp: dead_workers_def turn_over_def dest!: set_update_cases)
next
  case (take ev rest)
  let ?w = "plWorkers p ! i"
  have w: "clProc (wkClient ?w) \<notin> running hs" using assms(1) take(1,3) by (auto simp: dead_workers_def)
  have h: "hsConns hs' = hsConns hs" using deliver_dead [OF w] take(5) by simp
  then show ?thesis
    using assms(1) w running_cong [OF h] take(4)
    by (auto simp: dead_workers_def turn_take_def Let_def dest!: set_update_cases)
qed

lemma run_ops_dead:
  assumes "dead_workers p hs" and "run_ops env ops (p, hs) = (p', hs')"
  shows "dead_workers p' hs' \<and> hsConns hs' = hsConns hs"
  using assms
proof (induction ops arbitrary: p hs)
  case (Cons a ops)
  obtain p1 hs1 where st: "do_op env a (p, hs) = (p1, hs1)" by fastforce
  have "dead_workers p1 hs1 \<and> hsConns hs1 = hsConns hs"
  proof (cases a)
    case (Send pre ev q)
    then show ?thesis using st Cons.prems(1) by (auto simp: do_op_def send_or_drop_eq dead_workers_def split: if_splits)
  next
    case (Turn i d)
    then show ?thesis using st worker_step_dead [OF Cons.prems(1)] by (simp add: do_op_def)
  qed
  then show ?case using Cons.IH [of p1 hs1] Cons.prems(2) st by (simp add: run_ops_def)
qed (simp add: run_ops_def)

lemma stop_dead:
  assumes "dead_workers p hs" and "stopWorkers env ss as sched p hs = Some (p', hs')"
  shows "hsConns hs' = hsConns hs"
proof -
  have "run_workers env sched (closeQueues ss as p) hs = (p', hs')"
    using assms(2) by (auto simp: stopWorkers_def Let_def split: prod.splits if_splits)
  moreover have "dead_workers (closeQueues ss as p) hs"
    using assms(1) by (simp add: dead_workers_def closeQueues_obs)
  ultimately show ?thesis using run_ops_dead by (metis run_workers_ops)
qed

section \<open>A load kills the plugins there were\<close>

lemma load_entries_fresh:
  assumes "load_entries env dir kind es cs hs = (r, hs')"
  shows "hsNext hs \<le> hsNext hs' \<and> running hs' \<subseteq> running hs \<union> {hsNext hs..}"
  using assms
proof (induction es arbitrary: cs hs)
  case (Cons e es)
  show ?case
  proof (cases "eDisabled e \<or> ResolveBinary env dir e kind = None")
    case True
    then show ?thesis using Cons by (auto split: if_splits)
  next
    case False
    then obtain bin where bin: "\<not> eDisabled e" "ResolveBinary env dir e kind = Some bin" by auto
    obtain x hs1 where st: "Start env bin e kind hs = (x, hs1)" by fastforce
    have one: "hsNext hs \<le> hsNext hs1 \<and> running hs1 \<subseteq> running hs \<union> {hsNext hs..}"
      using st by (cases rule: Start_cases) (auto simp: running_def)
    show ?thesis
    proof (cases x)
      case (Inl err)
      then show ?thesis using Cons.prems bin st one by simp
    next
      case (Inr c)
      then have "load_entries env dir kind es (cs @ [c]) hs1 = (r, hs')" using Cons.prems bin st by simp
      from Cons.IH [OF this] one show ?thesis by auto
    qed
  qed
qed simp

lemma load_dead:
  assumes ok: "manager_ok m hs" and load: "loadLocked env m hs = (e, m', hs')"
  shows "procs_of (clients m) \<inter> running hs' = {}"
proof -
  obtain m1 hs1 where stop: "stopLocked env m hs = (m1, hs1)" by fastforce
  note s = stopLocked_obs [OF stop]
  let ?dir = "PluginDir (mgCfg m)"
  obtain rp hs2 where p: "load_entries env ?dir ''processor'' (Processors (mgCfg m)) [] hs1 = (rp, hs2)" by fastforce
  obtain rs hs3 where q: "load_entries env ?dir ''sink'' (Sinks (mgCfg m)) [] hs2 = (rs, hs3)" by fastforce
  note f = load_entries_fresh [OF p] load_entries_fresh [OF q]
  have "running hs' \<subseteq> running hs1 \<union> {hsNext hs..}"
    using load p q f s(4) by (auto simp: loadLocked_def stop s(2) fold_kill Let_def split: load_result.splits)
  moreover have "procs_of (clients m) \<subseteq> {..<hsNext hs}"
    using manager_okD(1,3) [OF ok] by (auto simp: host_ok_def running_def)
  ultimately show ?thesis using s(3) by fastforce
qed

section \<open>What sends and turns keep\<close>

lemma send_or_drop_obs:
  "plWorkers (send_or_drop pre ev q p) = plWorkers p" "plMgr (send_or_drop pre ev q p) = plMgr p"
  "plQueueSize (send_or_drop pre ev q p) = plQueueSize p" "plCancelled (send_or_drop pre ev q p) = plCancelled p"
  by (simp_all add: send_or_drop_eq)

definition kept :: "Pipeline \<Rightarrow> Pipeline \<Rightarrow> bool" where
  "kept p p' \<longleftrightarrow> chans_ok p' \<and> length (plWorkers p') = length (plWorkers p) \<and> length (plChans p') = length (plChans p) \<and>
     plMgr p' = plMgr p \<and> plQueueSize p' = plQueueSize p \<and> plCancelled p' = plCancelled p"

lemma run_ops_kept:
  assumes "chans_ok p" and "ops_in ops p" and "run_ops env ops (p, hs) = (p', hs')"
  shows "kept p p'"
  using assms
proof (induction ops arbitrary: p hs)
  case Nil
  then show ?case by (simp add: kept_def run_ops_def)
next
  case (Cons a ops)
  obtain p1 hs1 where st: "do_op env a (p, hs) = (p1, hs1)" by fastforce
  have one: "kept p p1"
  proof (cases a)
    case (Send pre ev q)
    then have q: "snd q < length (plChans p)" using Cons.prems(2) by (simp add: ops_in_def)
    have "p1 = send_or_drop pre ev q p" using st Send by (simp add: do_op_def)
    then show ?thesis
      using send_or_drop_ok(1-3) [OF Cons.prems(1) q] by (simp add: kept_def send_or_drop_obs)
  next
    case (Turn i d)
    then have "worker_step env i d p hs = (p1, hs1)" using st by (simp add: do_op_def)
    from worker_step_ok [OF Cons.prems(1) this] show ?thesis by (simp add: kept_def)
  qed
  then have e: "length (plChans p1) = length (plChans p)" by (simp add: kept_def)
  have "ops_in ops p" using Cons.prems(2) by (simp add: ops_in_def)
  then have "ops_in ops p1" using ops_in_cong [OF e] by simp
  moreover have "run_ops env ops (p1, hs1) = (p', hs')" using Cons.prems(3) st by (simp add: run_ops_def)
  ultimately show ?case using Cons.IH [of p1 hs1] one by (simp add: kept_def)
qed

lemma stop_kept:
  assumes "chans_ok p" and "stopWorkers env ss as sched p hs = Some (p', hs')"
  shows "kept p p' \<and> quiet p'"
proof -
  have run: "run_workers env sched (closeQueues ss as p) hs = (p', hs')" and d: "all_done p'"
    using assms(2) by (auto simp: stopWorkers_def Let_def split: prod.splits if_splits)
  have "ops_in (map (\<lambda>(i, d). Turn i d) sched) (closeQueues ss as p)" by (auto simp: ops_in_def)
  from run_ops_kept [OF closeQueues_ok [OF assms(1)] this] run
  have "kept (closeQueues ss as p) p'" by (simp add: run_workers_ops)
  moreover have "plSinkQueues p' = Map.empty" "plAsyncQueues p' = Map.empty"
    using run_workers_turned [OF closeQueues_ok [OF assms(1)] run] by (simp_all add: turned_def closeQueues_obs)
  ultimately show ?thesis using d by (simp add: kept_def quiet_def closeQueues_obs)
qed

lemma refresh_info:
  "pluginInfo (refreshPluginMetrics m mt) =
     (\<lambda>k. if k \<in> (\<lambda>i. (piName i, piKind i, piVersion i, piCommit i)) ` set (Infos m) then Some 1 else None)"
proof -
  have "pluginInfo (fold (\<lambda>info. setPluginInfoMetrics (piName info) (piKind info) (piVersion info) (piCommit info)) is mt') k =
      (if k \<in> (\<lambda>i. (piName i, piKind i, piVersion i, piCommit i)) ` set is then Some 1 else pluginInfo mt' k)" for "is" :: "PluginInfo list" and mt' :: metrics and k
    by (induction "is" arbitrary: mt') (auto simp: setPluginInfoMetrics_def)
  then show ?thesis by (intro ext) (simp add: refreshPluginMetrics_def resetPluginInfoMetrics_def)
qed

lemma sighup_reloaded:
  assumes "sighup env (cfg, None) ops ss as sched p mt hs = Some (p', mt', hs')" and "Reload env cfg (plMgr p) hs = (None, m, hs1)"
  obtains p1 hs2 p2 where "run_ops env ops (p\<lparr>plMgr := m\<rparr>, hs1) = (p1, hs2)" and "stopWorkers env ss as sched p1 hs2 = Some (p2, hs')"
    and "p' = startWorkers p2" and "mt' = refreshPluginMetrics m mt"
  using assms by (auto simp: sighup_def AfterReload_def Let_def split: prod.splits option.splits)

lemma set_mgr_obs:
  "chans_ok (p\<lparr>plMgr := m\<rparr>) \<longleftrightarrow> chans_ok p" "ops_in ops (p\<lparr>plMgr := m\<rparr>) \<longleftrightarrow> ops_in ops p"
  "dead_workers (p\<lparr>plMgr := m\<rparr>) hs \<longleftrightarrow> dead_workers p hs" "flow (p\<lparr>plMgr := m\<rparr>) i = flow p i"
  by (simp_all add: chans_ok_def ops_in_cong [of "p\<lparr>plMgr := m\<rparr>" p] dead_workers_def flow_def)

lemma owned_dead:
  assumes "manager_ok m hs" and "Reload env cfg m hs = (e, m', hs1)"
    and "\<forall>w \<in> set (plWorkers p). wkDone w \<or> wkClient w \<in> set (clients m)"
  shows "dead_workers p hs1"
proof -
  have "manager_ok (m\<lparr>mgCfg := cfg\<rparr>) hs" "clients (m\<lparr>mgCfg := cfg\<rparr>) = clients m"
    using assms(1) by (simp_all add: manager_ok_def clients_def)
  then have "procs_of (clients m) \<inter> running hs1 = {}"
    using load_dead [of "m\<lparr>mgCfg := cfg\<rparr>" hs env e m' hs1] assms(2) by (simp add: Reload_def)
  then show ?thesis using assms(3) by (auto simp: dead_workers_def procs_of_def)
qed

text \<open>A pipeline with one sink and one queued event, and configurations that do and do not load.\<close>

definition queued_pipe :: Pipeline where
  "queued_pipe = send_or_drop [] zeroEvent (''a'', 0) (example_pipe [example_client ''a'' 3])"

definition example_cfg :: "PluginEntry list \<Rightarrow> Config" where
  "example_cfg sinks = Default\<lparr>Processors := [], Sinks := sinks\<rparr>"

lemma reload_examples:
  "\<exists>m hs1. Reload env (example_cfg []) mgr hs = (None, m, hs1)"
  "\<exists>m hs1. Reload quiet_peer (example_cfg [missing_sink]) mgr hs = (Some NotFound, m, hs1)"
  by (simp_all add: Reload_def loadLocked_def stopLocked_def Let_def example_cfg_def missing_sink_def ResolveBinary_def
      is_file_def quiet_peer_def example_peer_def)

lemma queued_pipe_obs:
  "chans_ok queued_pipe" "\<not> plCancelled queued_pipe" "manager_ok (plMgr queued_pipe) example_host"
  "length (plWorkers queued_pipe) = 1" "plMgr queued_pipe = example_manager [example_client ''a'' 3]"
  "\<not> wkDone (plWorkers queued_pipe ! 0)" "wkChan (plWorkers queued_pipe ! 0) = 0"
  "wkClient (plWorkers queued_pipe ! 0) = example_client ''a'' 3" "chBuf (plChans queued_pipe ! 0) = [zeroEvent]"
proof -
  let ?p = "example_pipe [example_client ''a'' 3]"
  have q: "snd (''a'', 0) < length (plChans ?p)" by (simp add: example_pipe_obs)
  note s = send_or_drop_ok [OF example_pipe_ok q, where pre = "[]" and ev = zeroEvent, folded queued_pipe_def]
  have d: "all_done (newPipeline (example_manager [example_client ''a'' 3]) 4)" by (simp add: all_done_def newPipeline_def Let_def)
  have n: "plWorkers (newPipeline (example_manager [example_client ''a'' 3]) 4) = []"
    "plChans (newPipeline (example_manager [example_client ''a'' 3]) 4) = []"
    "plQueueSize (newPipeline (example_manager [example_client ''a'' 3]) 4) = 4"
    by (simp_all add: newPipeline_def Let_def)
  have l: "loaded_plugins (example_manager [example_client ''a'' 3]) = [example_client ''a'' 3]"
    by (simp add: loaded_plugins_def)
  note w = started_workers(2-5) [OF d, where i = 0, unfolded n new_mgr l, folded example_pipe_def]
  show "chans_ok queued_pipe" "\<not> plCancelled queued_pipe" "length (plWorkers queued_pipe) = 1"
    "plMgr queued_pipe = example_manager [example_client ''a'' 3]" "\<not> wkDone (plWorkers queued_pipe ! 0)"
    "wkChan (plWorkers queued_pipe ! 0) = 0" "wkClient (plWorkers queued_pipe ! 0) = example_client ''a'' 3"
    using s w by (simp_all add: example_pipe_obs)
  have "send_ok 0 ?p" using w(4) by (simp add: send_ok_def make_chan_def)
  then show "chBuf (plChans queued_pipe ! 0) = [zeroEvent]"
    using s(11) [of 0] w(4) by (simp add: example_pipe_obs make_chan_def)
  show "manager_ok (plMgr queued_pipe) example_host"
    by (simp add: s(6) example_pipe_obs) (simp add: manager_ok_def host_ok_def example_host_def clients_def example_manager_def
        example_client_def procs_of_def running_def)
qed

lemma queued_pipe_owned: "\<forall>w \<in> set (plWorkers queued_pipe). wkDone w \<or> wkClient w \<in> set (clients (plMgr queued_pipe))"
  using queued_pipe_obs by (simp add: all_set_conv_all_nth clients_def example_manager_def)

lemma queued_reload:
  "\<exists>sched p' mt' hs' m hs1. Reload quiet_peer (example_cfg []) (plMgr queued_pipe) example_host = (None, m, hs1) \<and>
     sighup quiet_peer (example_cfg [], None) [] [0] [] sched queued_pipe metrics_init example_host = Some (p', mt', hs')"
proof -
  obtain m hs1 where r: "Reload quiet_peer (example_cfg []) (plMgr queued_pipe) example_host = (None, m, hs1)"
    using reload_examples(1) by blast
  have ok: "chans_ok (queued_pipe\<lparr>plMgr := m\<rparr>)" using queued_pipe_obs(1) by (simp add: set_mgr_obs)
  have "\<exists>sched p' hs'. stopWorkers quiet_peer [0] [] sched (queued_pipe\<lparr>plMgr := m\<rparr>) hs1 = Some (p', hs')"
    by (rule stop_returns [OF ok]) (simp add: queued_pipe_obs)
  then obtain sched p' hs' where "stopWorkers quiet_peer [0] [] sched (queued_pipe\<lparr>plMgr := m\<rparr>) hs1 = Some (p', hs')" by blast
  then show ?thesis
    using r by (intro exI [of _ sched]) (simp add: sighup_def AfterReload_def run_ops_def)
qed

section \<open>Properties\<close>

text \<open>C21: A reload that returns installs the plugins of the new configuration: the pipeline has the reloaded manager, all the
  workers there were have returned, and there is one new worker for each sink and each asynchronous
  processor, running, with an open and empty queue; the plugin info series are those of the new plugins and
  no others. The size of the queues is not reloaded: it stays the one the pipeline was made with when the program
  started, whatever sink_queue says in the new configuration.\<close>

theorem reload_installs:
  assumes "chans_ok p" and "ops_in ops p" and "Reload env cfg (plMgr p) hs = (None, m, hs1)"
    and "sighup env (cfg, None) ops ss as sched p mt hs = Some (p', mt', hs')"
  shows "plMgr p' = m \<and> chans_ok p' \<and> plQueueSize p' = plQueueSize p \<and>
    (let k = length (plWorkers p); new = drop k (plWorkers p')
     in (\<forall>w \<in> set (take k (plWorkers p')). wkDone w) \<and> map wkClient new = manager_Sinks m @ AsyncProcessors m \<and>
       (\<forall>w \<in> set new. \<not> wkDone w \<and> plChans p' ! wkChan w = make_chan (plQueueSize p))) \<and>
    pluginInfo mt' = (\<lambda>k. if k \<in> (\<lambda>i. (piName i, piKind i, piVersion i, piCommit i)) ` set (Infos m) then Some 1 else None)"
proof -
  obtain p1 hs2 p2 where s: "run_ops env ops (p\<lparr>plMgr := m\<rparr>, hs1) = (p1, hs2)" "stopWorkers env ss as sched p1 hs2 = Some (p2, hs')"
    "p' = startWorkers p2" "mt' = refreshPluginMetrics m mt"
    by (rule sighup_reloaded [OF assms(4,3)])
  have k1: "kept (p\<lparr>plMgr := m\<rparr>) p1"
    using assms(1,2) by (intro run_ops_kept [OF _ _ s(1)]) (simp_all add: set_mgr_obs)
  then have ok: "chans_ok p1" by (simp add: kept_def)
  note k2 = stop_kept [OF ok s(2)]
  have e: "plMgr p2 = m" "plQueueSize p2 = plQueueSize p" "length (plWorkers p2) = length (plWorkers p)" "all_done p2" "chans_ok p2"
    using k1 k2 by (simp_all add: kept_def quiet_def)
  note w = started_workers [OF e(4), unfolded e(1-3)] startWorkers_ok [OF e(5)] startWorkers_obs(6) [of p2]
  let ?new = "drop (length (plWorkers p)) (plWorkers p')"
  have n: "length ?new = length (loaded_plugins m)" using w(1) by (simp add: s(3))
  have nth: "?new ! i = plWorkers p' ! (length (plWorkers p) + i)" if "i < length (loaded_plugins m)" for i
    using w(1) by (simp add: s(3))
  have "map wkClient ?new = loaded_plugins m"
    using n nth w(3) by (intro nth_equalityI) (simp_all add: s(3))
  moreover have "\<forall>w \<in> set ?new. \<not> wkDone w \<and> plChans p' ! wkChan w = make_chan (plQueueSize p)"
    using n nth w(2,4,5) by (simp add: all_set_conv_all_nth s(3))
  moreover have "\<forall>w \<in> set (take (length (plWorkers p)) (plWorkers p')). wkDone w"
    using w(1,6) by (simp add: all_set_conv_all_nth s(3))
  ultimately show ?thesis
    using w(7,8) e(1,2) by (simp add: s(3,4) refresh_info loaded_plugins_def startWorkers_size Let_def)
qed

theorem reload_installs_witness:
  "\<exists>sched p' mt' hs'. sighup quiet_peer (example_cfg [], None) [] [0] [] sched queued_pipe metrics_init example_host = Some (p', mt', hs') \<and>
     (\<forall>w \<in> set (take 1 (plWorkers p')). wkDone w)"
proof -
  obtain sched p' mt' hs' m hs1 where r: "Reload quiet_peer (example_cfg []) (plMgr queued_pipe) example_host = (None, m, hs1)"
    and s: "sighup quiet_peer (example_cfg [], None) [] [0] [] sched queued_pipe metrics_init example_host = Some (p', mt', hs')"
    using queued_reload by blast
  have "ops_in [] queued_pipe" by (simp add: ops_in_def)
  from reload_installs [OF queued_pipe_obs(1) this r s] s show ?thesis by (auto simp: Let_def queued_pipe_obs)
qed

text \<open>C18: A reload closes the plugins before it drains their queues: when it returns, each old worker has
  taken all events that were queued, but every one of them was sent to a subprocess that is gone - no
  connection has changed since the reload of the manager - and none of them is counted as a drop.\<close>

theorem reload_loses_queued:
  assumes "chans_ok p" and "\<not> plCancelled p" and "manager_ok (plMgr p) hs"
    and "\<forall>w \<in> set (plWorkers p). wkDone w \<or> wkClient w \<in> set (clients (plMgr p))"
    and "Reload env cfg (plMgr p) hs = (None, m, hs1)" and "sighup env (cfg, None) [] ss as sched p mt hs = Some (p', mt', hs')"
  shows "hsConns hs' = hsConns hs1 \<and> plDropped p' = plDropped p \<and>
    (\<forall>i < length (plWorkers p). \<not> wkDone (plWorkers p ! i) \<longrightarrow>
       wkSeen (plWorkers p' ! i) = wkSeen (plWorkers p ! i) @ chBuf (plChans p ! wkChan (plWorkers p ! i)))"
proof -
  obtain p1 hs2 p2 where s: "run_ops env [] (p\<lparr>plMgr := m\<rparr>, hs1) = (p1, hs2)" "stopWorkers env ss as sched p1 hs2 = Some (p2, hs')"
    "p' = startWorkers p2" by (rule sighup_reloaded [OF assms(6,5)])
  then have stop: "stopWorkers env ss as sched (p\<lparr>plMgr := m\<rparr>) hs1 = Some (p2, hs')" by (simp add: run_ops_def)
  have ok: "chans_ok (p\<lparr>plMgr := m\<rparr>)" "\<not> plCancelled (p\<lparr>plMgr := m\<rparr>)" using assms(1,2) by (simp_all add: set_mgr_obs)
  have dead: "dead_workers (p\<lparr>plMgr := m\<rparr>) hs1"
    using owned_dead [OF assms(3,5,4)] by (simp add: set_mgr_obs)
  have run: "run_workers env sched (closeQueues ss as (p\<lparr>plMgr := m\<rparr>)) hs1 = (p2, hs')"
    using stop by (auto simp: stopWorkers_def Let_def split: prod.splits if_splits)
  note t = run_workers_turned [OF closeQueues_ok [OF ok(1)] run]
  have "plDropped p' = plDropped p"
    using t fold_start_obs by (simp add: s(3) turned_def closeQueues_obs startWorkers_def Let_def)
  moreover have "wkSeen (plWorkers p' ! i) = flow p i" if "i < length (plWorkers p)" "\<not> wkDone (plWorkers p ! i)" for i
  proof -
    have "plWorkers p' ! i = plWorkers p2 ! i"
      using that(1) t by (simp add: s(3) startWorkers_obs nth_append turned_def closeQueues_obs)
    moreover have "wkSeen (plWorkers p2 ! i) = flow (p\<lparr>plMgr := m\<rparr>) i"
      using stop_delivers(1) [OF ok stop, of i] that by simp
    ultimately show ?thesis by (simp add: set_mgr_obs)
  qed
  ultimately show ?thesis using stop_dead [OF dead stop] by (simp add: flow_def)
qed

theorem reload_loses_queued_witness:
  "\<exists>sched p' mt' hs' m hs1. Reload quiet_peer (example_cfg []) (plMgr queued_pipe) example_host = (None, m, hs1) \<and>
     sighup quiet_peer (example_cfg [], None) [] [0] [] sched queued_pipe metrics_init example_host = Some (p', mt', hs') \<and>
     hsConns hs' = hsConns hs1 \<and> [zeroEvent] = drop (length (wkSeen (plWorkers queued_pipe ! 0))) (wkSeen (plWorkers p' ! 0))"
proof -
  obtain sched p' mt' hs' m hs1 where r: "Reload quiet_peer (example_cfg []) (plMgr queued_pipe) example_host = (None, m, hs1)"
    and s: "sighup quiet_peer (example_cfg [], None) [] [0] [] sched queued_pipe metrics_init example_host = Some (p', mt', hs')"
    using queued_reload by blast
  from reload_loses_queued [OF queued_pipe_obs(1-3) queued_pipe_owned r s]
  have "hsConns hs' = hsConns hs1" "wkSeen (plWorkers p' ! 0) = wkSeen (plWorkers queued_pipe ! 0) @ [zeroEvent]"
    by (simp_all add: queued_pipe_obs)
  then show ?thesis using r s by (metis append_eq_conv_conj)
qed

text \<open>C22: A reload that fails after the configuration was read turns the program off without stopping it: the
  manager has no plugin left, so that events are no longer processed, the queues stay registered and
  their workers keep taking events, and whatever is sent from then on reaches no subprocess.\<close>

theorem reload_failure_silences:
  assumes "manager_ok (plMgr p) hs" and "\<forall>w \<in> set (plWorkers p). wkDone w \<or> wkClient w \<in> set (clients (plMgr p))"
    and "Reload env cfg (plMgr p) hs = (Some err, m, hs1)"
  shows "sighup env (cfg, None) ops ss as sched p mt hs = Some (p\<lparr>plMgr := m\<rparr>, mt, hs1) \<and> clients m = [] \<and>
    SyncProcessors m = [] \<and> (\<forall>later p' hs'. run_ops env later (p\<lparr>plMgr := m\<rparr>, hs1) = (p', hs') \<longrightarrow> hsConns hs' = hsConns hs1)"
proof -
  have ok: "manager_ok ((plMgr p)\<lparr>mgCfg := cfg\<rparr>) hs" using assms(1) by (simp add: manager_ok_def clients_def)
  have c: "clients m = []" using load_failed(1) [OF ok] assms(3) by (simp add: Reload_def)
  have dead: "dead_workers (p\<lparr>plMgr := m\<rparr>) hs1" using owned_dead [OF assms(1,3,2)] by (simp add: set_mgr_obs)
  have "hsConns hs' = hsConns hs1" if "run_ops env later (p\<lparr>plMgr := m\<rparr>, hs1) = (p', hs')" for later p' hs'
    using run_ops_dead [OF dead that] by blast
  then show ?thesis using assms(3) c by (simp add: sighup_def clients_def SyncProcessors_def)
qed

theorem reload_failure_silences_witness:
  "\<exists>m hs1. sighup quiet_peer (example_cfg [missing_sink], None) [] [0] [] [] queued_pipe metrics_init example_host =
     Some (queued_pipe\<lparr>plMgr := m\<rparr>, metrics_init, hs1) \<and> clients m = []"
proof -
  obtain m hs1 where r: "Reload quiet_peer (example_cfg [missing_sink]) (plMgr queued_pipe) example_host = (Some NotFound, m, hs1)"
    using reload_examples(2) by blast
  from reload_failure_silences [OF queued_pipe_obs(3) queued_pipe_owned r] show ?thesis by blast
qed

end
