(* ===== verification/Sink_File.thy ===== *)
theory Sink_File
  imports Plugin_Props "HOL-Library.Sublist"
begin

text \<open>
  \<^verbatim>\<open>cmd/clawguard-sink-file/main.go\<close>: the sink that appends one JSON line per event to a file. The
  state holds the files it writes to; what \<^verbatim>\<open>os\<close> reports (whether a directory or a file can be
  opened, how much of a write arrives) and \<^verbatim>\<open>json.Marshal\<close> are arguments.
\<close>

section \<open>Operations\<close>

text \<open>The row of an event: the event, and its payload as text when it has one.\<close>

record row =
  rwEvent :: CaptureEvent
  rwPayloadText :: bytes

record file_os =
  osDir :: "string \<Rightarrow> string"
  osMkdirAll :: "string \<Rightarrow> string option"
  osOpen :: "string \<Rightarrow> string option"
  osWrite :: "bytes \<Rightarrow> bytes \<Rightarrow> nat \<times> string option"
  osClose :: "string option"
  jsonRow :: "row \<Rightarrow> string + bytes"
  jsonSession :: "PluginInfo \<Rightarrow> bytes"

text \<open>
  An open file is its path; \<open>fsDisk\<close> has the contents. \<open>osWrite\<close> is given the contents and the data,
  and says how much of the data was written and which error there was.
\<close>

record fileSink =
  fsPath :: string
  fsFile :: "string option"
  fsDisk :: "string \<rightharpoonup> bytes"

definition contents :: "fileSink \<Rightarrow> string \<Rightarrow> bytes" where
  "contents s p = (case fsDisk s p of None \<Rightarrow> [] | Some b \<Rightarrow> b)"

definition write_file :: "file_os \<Rightarrow> string \<Rightarrow> bytes \<Rightarrow> fileSink \<Rightarrow> string option \<times> fileSink" where
  "write_file os p data s =
     (let (n, err) = osWrite os (contents s p) data
      in (err, s\<lparr>fsDisk := (fsDisk s)(p \<mapsto> contents s p @ take n data)\<rparr>))"

definition file_Info :: "BuildInfo \<Rightarrow> PluginInfo" where
  "file_Info v = FillInfo v ''file'' ''sink''"

definition file_Configure :: "BuildInfo \<Rightarrow> file_os \<Rightarrow> PluginConfig \<Rightarrow> fileSink \<Rightarrow> string option \<times> fileSink" where
  "file_Configure v os cfg s =
     (let path = string_setting cfg ''path'';
          path = (if path = [] then ''/var/log/clawguard/plaintext.jsonl'' else path)
      in case osMkdirAll os (osDir os path) of
           Some err \<Rightarrow> (Some err, s)
         | None \<Rightarrow>
             (case osOpen os path of
                Some err \<Rightarrow> (Some err, s)
              | None \<Rightarrow>
                  let s = s\<lparr>fsPath := path, fsFile := Some path, fsDisk := (fsDisk s)(path \<mapsto> contents s path)\<rparr>;
                      (err, s) = write_file os path (jsonSession os (file_Info v) @ [10]) s
                  in (None, s)))"

definition file_row :: "CaptureEvent \<Rightarrow> row" where
  "file_row ev = (let r = \<lparr>rwEvent = ev, rwPayloadText = []\<rparr>
                  in if 0 < length (cePayload ev) then r\<lparr>rwPayloadText := cePayload ev\<rparr> else r)"

definition file_Emit :: "file_os \<Rightarrow> CaptureEvent \<Rightarrow> fileSink \<Rightarrow> string option \<times> fileSink" where
  "file_Emit os ev s =
     (case fsFile s of
        None \<Rightarrow> (Some ''file sink not configured'', s)
      | Some p \<Rightarrow>
          (case jsonRow os (file_row ev) of
             Inl err \<Rightarrow> (Some err, s)
           | Inr b \<Rightarrow> write_file os p (b @ [10]) s))"

definition file_Close :: "file_os \<Rightarrow> fileSink \<Rightarrow> string option \<times> fileSink" where
  "file_Close os s =
     (case fsFile s of
        None \<Rightarrow> (None, s)
      | Some p \<Rightarrow> (osClose os, s\<lparr>fsFile := None\<rparr>))"

definition file_handler :: "BuildInfo \<Rightarrow> file_os \<Rightarrow> fileSink Handler" where
  "file_handler v os =
     \<lparr>hInfo = (\<lambda>_. file_Info v), hConfigure = file_Configure v os, hProcess = SinkOnly_Process,
      hEmit = file_Emit os, hClose = file_Close os\<rparr>"

interpretation file_sink: sink_plugin "file_handler v os" "''file''" v for v os
  by unfold_locales (simp_all add: file_handler_def file_Info_def SinkOnly_Process_def)

section \<open>Runs\<close>

text \<open>Events one after the other, with the errors of each.\<close>

fun file_emits :: "file_os \<Rightarrow> CaptureEvent list \<Rightarrow> fileSink \<Rightarrow> string option list \<times> fileSink" where
  "file_emits os [] s = ([], s)"
| "file_emits os (ev # evs) s =
     (let (err, s) = file_Emit os ev s; (errs, s) = file_emits os evs s in (err # errs, s))"

text \<open>A write without an error has written everything; a marshalled value is one line.\<close>

definition writes_honest :: "file_os \<Rightarrow> bool" where
  "writes_honest os \<longleftrightarrow> (\<forall>c d. snd (osWrite os c d) = None \<longrightarrow> length d \<le> fst (osWrite os c d))"

definition one_line :: "file_os \<Rightarrow> bool" where
  "one_line os \<longleftrightarrow> (\<forall>r b. jsonRow os r = Inr b \<longrightarrow> 10 \<notin> set b)"

definition line :: "file_os \<Rightarrow> CaptureEvent \<Rightarrow> bytes" where
  "line os ev = (case jsonRow os (file_row ev) of Inl _ \<Rightarrow> [] | Inr b \<Rightarrow> b @ [10])"

definition lines_in :: "bytes \<Rightarrow> nat" where
  "lines_in b = length (filter (\<lambda>x. x = 10) b)"

lemma write_file_obs:
  assumes "write_file os p data s = (err, s')"
  shows "fsFile s' = fsFile s" and "prefix (contents s p) (contents s' p)"
    and "q \<noteq> p \<Longrightarrow> fsDisk s' q = fsDisk s q"
    and "writes_honest os \<Longrightarrow> err = None \<Longrightarrow> contents s' p = contents s p @ data"
  using assms by (auto simp: write_file_def contents_def writes_honest_def Let_def split: prod.splits) (metis fst_conv snd_conv take_all)

lemma file_Emit_obs:
  assumes "file_Emit os ev s = (err, s')" and "fsFile s = Some p"
  shows "fsFile s' = Some p" and "prefix (contents s p) (contents s' p)" and "q \<noteq> p \<Longrightarrow> fsDisk s' q = fsDisk s q"
    and "writes_honest os \<Longrightarrow> err = None \<Longrightarrow> contents s' p = contents s p @ line os ev \<and> jsonRow os (file_row ev) \<noteq> Inl x"
proof -
  have "fsFile s' = Some p \<and> prefix (contents s p) (contents s' p) \<and> (q \<noteq> p \<longrightarrow> fsDisk s' q = fsDisk s q) \<and>
    (writes_honest os \<longrightarrow> err = None \<longrightarrow> contents s' p = contents s p @ line os ev \<and> jsonRow os (file_row ev) \<noteq> Inl x)"
  proof (cases "jsonRow os (file_row ev)")
    case (Inl e)
    then show ?thesis using assms by (auto simp: file_Emit_def)
  next
    case (Inr b)
    then have "write_file os p (b @ [10]) s = (err, s')" using assms by (simp add: file_Emit_def)
    from write_file_obs [OF this] show ?thesis using assms(2) Inr by (simp add: line_def)
  qed
  then show "fsFile s' = Some p" "prefix (contents s p) (contents s' p)" "q \<noteq> p \<Longrightarrow> fsDisk s' q = fsDisk s q"
    "writes_honest os \<Longrightarrow> err = None \<Longrightarrow> contents s' p = contents s p @ line os ev \<and> jsonRow os (file_row ev) \<noteq> Inl x"
    by blast+
qed

lemma lines_append [simp]: "lines_in (a @ b) = lines_in a + lines_in b" "lines_in [] = 0"
  by (simp_all add: lines_in_def)

lemma lines_line: "one_line os \<Longrightarrow> jsonRow os (file_row ev) = Inr b \<Longrightarrow> lines_in (line os ev) = 1"
  by (auto simp: one_line_def line_def lines_in_def filter_empty_conv)

lemma file_emits_append:
  assumes "fsFile s = Some p" and "file_emits os evs s = (errs, s')"
  shows "prefix (contents s p) (contents s' p) \<and> (\<forall>q. q \<noteq> p \<longrightarrow> fsDisk s' q = fsDisk s q) \<and> length errs = length evs \<and>
    (writes_honest os \<and> set errs \<subseteq> {None} \<longrightarrow> contents s' p = contents s p @ concat (map (line os) evs) \<and>
       (one_line os \<longrightarrow> lines_in (contents s' p) = lines_in (contents s p) + length evs))"
  using assms
proof (induction evs arbitrary: s errs)
  case (Cons ev evs)
  obtain err s1 where st: "file_Emit os ev s = (err, s1)" by fastforce
  obtain errs1 where r: "file_emits os evs s1 = (errs1, s')" "errs = err # errs1"
    using Cons.prems(2) st by (auto split: prod.splits)
  note e = file_Emit_obs [OF st Cons.prems(1)]
  note ih = Cons.IH [OF e(1) r(1)]
  have "lines_in (line os ev) = 1" if "writes_honest os" "err = None" "one_line os"
    using e(4) [OF that(1,2)] lines_line [OF that(3)] by (cases "jsonRow os (file_row ev)") auto
  then show ?case using ih e(2,3,4) r(2) prefix_order.trans by auto
qed simp

lemma file_Configure_obs:
  assumes "file_Configure v os cfg s = (None, s')"
  shows "\<exists>p. fsFile s' = Some p \<and> (string_setting cfg ''path'' \<noteq> [] \<longrightarrow> p = string_setting cfg ''path'') \<and>
    (\<exists>hd. prefix hd (jsonSession os (file_Info v) @ [10]) \<and> contents s' p = contents s p @ hd) \<and>
    (\<forall>q. q \<noteq> p \<longrightarrow> fsDisk s' q = fsDisk s q)"
proof -
  let ?p = "if string_setting cfg ''path'' = [] then ''/var/log/clawguard/plaintext.jsonl'' else string_setting cfg ''path''"
  let ?s = "s\<lparr>fsPath := ?p, fsFile := Some ?p, fsDisk := (fsDisk s)(?p \<mapsto> contents s ?p)\<rparr>"
  let ?hd = "jsonSession os (file_Info v) @ [10]"
  have "s' = snd (write_file os ?p ?hd ?s)"
    using assms by (auto simp: file_Configure_def Let_def split: option.splits prod.splits)
  then have "fsFile s' = Some ?p" "contents s' ?p = contents s ?p @ take (fst (osWrite os (contents s ?p) ?hd)) ?hd"
    "\<forall>q. q \<noteq> ?p \<longrightarrow> fsDisk s' q = fsDisk s q"
    by (simp_all add: write_file_def contents_def split_beta)
  moreover have "string_setting cfg ''path'' \<noteq> [] \<longrightarrow> ?p = string_setting cfg ''path''" by simp
  ultimately show ?thesis using take_is_prefix by blast
qed

section \<open>Properties\<close>

text \<open>The file sink is append-only and complete: configuring it and emitting events leaves what its file
  held in place and every other file untouched; when no emit returns an error, the session header (as
  much of it as could be written) and then exactly the lines of the events follow, in order, one for
  each event; and after a close an emit is refused and writes nothing.\<close>

theorem file_session_log:
  assumes "file_Configure v os cfg s = (None, s1)" and "file_emits os evs s1 = (errs, s2)"
  shows "\<exists>p. fsFile s1 = Some p \<and> prefix (contents s p) (contents s2 p) \<and> (\<forall>q. q \<noteq> p \<longrightarrow> fsDisk s2 q = fsDisk s q) \<and>
    (writes_honest os \<and> set errs \<subseteq> {None} \<longrightarrow>
      (\<exists>hd. prefix hd (jsonSession os (file_Info v) @ [10]) \<and>
         contents s2 p = contents s p @ hd @ concat (map (line os) evs) \<and>
         (one_line os \<longrightarrow> lines_in (contents s2 p) = lines_in (contents s p @ hd) + length evs))) \<and>
    fst (file_Emit os ev (snd (file_Close os s2))) \<noteq> None \<and>
    fsDisk (snd (file_Emit os ev (snd (file_Close os s2)))) = fsDisk s2"
proof -
  obtain p hd where c: "fsFile s1 = Some p" "prefix hd (jsonSession os (file_Info v) @ [10])" "contents s1 p = contents s p @ hd"
    "\<forall>q. q \<noteq> p \<longrightarrow> fsDisk s1 q = fsDisk s q"
    using file_Configure_obs [OF assms(1)] by blast
  note e = file_emits_append [OF c(1) assms(2)]
  have pre: "prefix (contents s p) (contents s2 p)"
    using e c(3) by (metis prefixI prefix_order.trans)
  have "fsFile (snd (file_Close os s2)) = None" "fsDisk (snd (file_Close os s2)) = fsDisk s2"
    by (simp_all add: file_Close_def split: option.split)
  then have "fst (file_Emit os ev (snd (file_Close os s2))) \<noteq> None"
    "fsDisk (snd (file_Emit os ev (snd (file_Close os s2)))) = fsDisk s2"
    by (simp_all add: file_Emit_def)
  moreover have "\<exists>hd. prefix hd (jsonSession os (file_Info v) @ [10]) \<and>
         contents s2 p = contents s p @ hd @ concat (map (line os) evs) \<and>
         (one_line os \<longrightarrow> lines_in (contents s2 p) = lines_in (contents s p @ hd) + length evs)"
    if "writes_honest os \<and> set errs \<subseteq> {None}"
    using e that c(2) unfolding c(3) append_assoc by blast
  ultimately show ?thesis using c(1,4) e pre by auto
qed

text \<open>An operating system on which everything succeeds.\<close>

definition example_os :: file_os where
  "example_os = \<lparr>osDir = id, osMkdirAll = (\<lambda>_. None), osOpen = (\<lambda>_. None), osWrite = (\<lambda>c d. (length d, None)),
     osClose = None, jsonRow = (\<lambda>_. Inr [7]), jsonSession = (\<lambda>_. [9])\<rparr>"

theorem file_session_log_witness:
  "\<exists>s1 s2 hd. file_Configure no_build example_os None \<lparr>fsPath = [], fsFile = None, fsDisk = Map.empty\<rparr> = (None, s1) \<and>
     file_emits example_os [example_event []] s1 = ([None], s2) \<and>
     contents s2 ''/var/log/clawguard/plaintext.jsonl'' = hd @ [7, 10]"
proof -
  let ?s = "\<lparr>fsPath = [], fsFile = None, fsDisk = Map.empty\<rparr>"
  obtain s1 where c: "file_Configure no_build example_os None ?s = (None, s1)"
    by (simp add: file_Configure_def example_os_def string_setting_def Let_def write_file_def)
  then have f: "fsFile s1 = Some ''/var/log/clawguard/plaintext.jsonl''"
    by (auto simp: file_Configure_def example_os_def string_setting_def Let_def write_file_def)
  obtain s2 where e: "file_emits example_os [example_event []] s1 = ([None], s2)"
    by (simp add: file_Emit_def f example_os_def write_file_def)
  have h: "writes_honest example_os" by (simp add: writes_honest_def example_os_def)
  have l: "line example_os (example_event []) = [7, 10]" by (simp add: line_def example_os_def)
  from file_session_log [OF c e] f h obtain hd where
    "contents s2 ''/var/log/clawguard/plaintext.jsonl'' = hd @ [7, 10]"
    by (auto simp: l contents_def)
  then show ?thesis using c e by blast
qed

end
