(* ===== verification/Sink_Otel.thy ===== *)
theory Sink_Otel
  imports Plugin_Props
begin

text \<open>
  \<^verbatim>\<open>cmd/clawguard-sink-otel/main.go\<close>: the sink that turns events into OpenTelemetry log records. The
  regular expression of \<^verbatim>\<open>traceparentRe\<close> is written out as a matcher on bytes. The exporter and its
  provider are the library's: a configured logger is what it was made with, and \<open>otSent\<close> collects
  the records given to it with the span context of the call.
\<close>

section \<open>The traceparent header\<close>

definition lower_byte :: "u8 \<Rightarrow> u8" where
  "lower_byte b = (if 65 \<le> b \<and> b \<le> 90 then b + 32 else b)"

definition is_ws :: "u8 \<Rightarrow> bool" where
  "is_ws b \<longleftrightarrow> b = 9 \<or> b = 10 \<or> b = 12 \<or> b = 13 \<or> b = 32"

definition is_hex :: "u8 \<Rightarrow> bool" where
  "is_hex b \<longleftrightarrow> (48 \<le> b \<and> b \<le> 57) \<or> (97 \<le> lower_byte b \<and> lower_byte b \<le> 102)"

text \<open>\<^verbatim>\<open>traceparent:\<close>\<close>

definition header_name :: bytes where
  "header_name = [116, 114, 97, 99, 101, 112, 97, 114, 101, 110, 116, 58]"

text \<open>\<^verbatim>\<open>[0-9a-f]{n}\<close>, then the rest of the input.\<close>

definition take_hex :: "nat \<Rightarrow> bytes \<Rightarrow> (bytes \<times> bytes) option" where
  "take_hex n b = (if n \<le> length b \<and> (\<forall>x \<in> set (take n b). is_hex x) then Some (take n b, drop n b) else None)"

definition take_dash :: "bytes \<Rightarrow> bytes option" where
  "take_dash b = (case b of [] \<Rightarrow> None | x # rest \<Rightarrow> if x = 45 then Some rest else None)"

text \<open>From the name of the header on; the trace and span digits, which are groups 2 and 3.\<close>

definition match_header :: "bytes \<Rightarrow> (bytes \<times> bytes) option" where
  "match_header b =
     (if map lower_byte (take 12 b) \<noteq> header_name then None
      else Option.bind (take_hex 2 (dropWhile is_ws (drop 12 b))) (\<lambda>(_, b).
           Option.bind (take_dash b) (\<lambda>b.
           Option.bind (take_hex 32 b) (\<lambda>(tid, b).
           Option.bind (take_dash b) (\<lambda>b.
           Option.bind (take_hex 16 b) (\<lambda>(sid, b).
           Option.bind (take_dash b) (\<lambda>b.
           Option.bind (take_hex 2 b) (\<lambda>_. Some (tid, sid)))))))))"

text \<open>\<^verbatim>\<open>(?:^|\r?\n)\<close> at one position; \<open>first\<close> when it is the beginning of the text.\<close>

definition match_here :: "bool \<Rightarrow> bytes \<Rightarrow> (bytes \<times> bytes) option" where
  "match_here first b =
     (case (if first then match_header b else None) of
        Some m \<Rightarrow> Some m
      | None \<Rightarrow>
          (case b of
             [] \<Rightarrow> None
           | x # rest \<Rightarrow>
               if x = 10 then match_header rest
               else if x = 13 then (case rest of [] \<Rightarrow> None | y # rest \<Rightarrow> if y = 10 then match_header rest else None)
               else None))"

fun FindStringSubmatch :: "bool \<Rightarrow> bytes \<Rightarrow> (bytes \<times> bytes) option" where
  "FindStringSubmatch first [] = match_here first []"
| "FindStringSubmatch first (x # b) =
     (case match_here first (x # b) of Some m \<Rightarrow> Some m | None \<Rightarrow> FindStringSubmatch False b)"

text \<open>\<^verbatim>\<open>hex.DecodeString\<close>.\<close>

definition hex_value :: "u8 \<Rightarrow> u8" where
  "hex_value b = (if b \<le> 57 then b - 48 else lower_byte b - 87)"

fun DecodeString :: "bytes \<Rightarrow> bytes option" where
  "DecodeString [] = Some []"
| "DecodeString [x] = None"
| "DecodeString (x # y # b) =
     (if is_hex x \<and> is_hex y then map_option (\<lambda>ds. (hex_value x * 16 + hex_value y) # ds) (DecodeString b) else None)"

definition parseTraceparent :: "bytes \<Rightarrow> (bytes \<times> bytes) option" where
  "parseTraceparent payload =
     (case FindStringSubmatch True payload of
        None \<Rightarrow> None
      | Some (m2, m3) \<Rightarrow>
          (case DecodeString m2 of
             None \<Rightarrow> None
           | Some traceBytes \<Rightarrow>
               if length traceBytes \<noteq> 16 then None
               else (case DecodeString m3 of
                       None \<Rightarrow> None
                     | Some spanBytes \<Rightarrow>
                         if length spanBytes \<noteq> 8 then None else Some (traceBytes, spanBytes))))"

section \<open>Records\<close>

datatype attr_value = AInt64 int | ABoolean bool | AText string | AHex bytes

record log_record =
  orTimestamp :: time
  orBody :: bytes
  orAttributes :: "(string \<times> attr_value) list"

record logger =
  lgInsecure :: bool
  lgService :: string

text \<open>\<open>otEnv\<close> is the process environment, which \<^verbatim>\<open>Configure\<close> may change.\<close>

record otelSink =
  otLogger :: "logger option"
  otPreview :: int
  otEnv :: "string \<Rightarrow> string"
  otSent :: "(log_record \<times> (bytes \<times> bytes) option) list"

text \<open>\<open>mk\<close>: whether the exporter and the resource can be made, or the text of the error.\<close>

definition otel_Configure :: "(logger \<Rightarrow> string option) \<Rightarrow> PluginConfig \<Rightarrow> otelSink \<Rightarrow> string option \<times> otelSink" where
  "otel_Configure mk cfg s =
     (let endpoint = string_setting cfg ''endpoint'';
          endpoint = (if endpoint = [] then TrimSpace (otEnv s ''OTEL_EXPORTER_OTLP_ENDPOINT'') else endpoint)
      in if endpoint = [] then (None, s)
         else
           let s = (if otEnv s ''OTEL_EXPORTER_OTLP_ENDPOINT'' = []
                    then s\<lparr>otEnv := (otEnv s)(''OTEL_EXPORTER_OTLP_ENDPOINT'' := endpoint)\<rparr> else s);
               serviceName = string_setting cfg ''service_name'';
               serviceName = (if serviceName = [] then otEnv s ''OTEL_SERVICE_NAME'' else serviceName);
               serviceName = (if serviceName = [] then ''clawguard'' else serviceName);
               s = s\<lparr>otPreview := 16384\<rparr>;
               insecure = (bool_setting cfg ''insecure'' \<or> take 7 endpoint = ''http://'' \<or>
                           otEnv s ''OTEL_EXPORTER_OTLP_INSECURE'' = ''1'');
               lg = \<lparr>lgInsecure = insecure, lgService = serviceName\<rparr>
           in (case mk lg of
                 Some err \<Rightarrow> (Some err, s)
               | None \<Rightarrow> (None, s\<lparr>otLogger := Some lg\<rparr>)))"

text \<open>The body: at most the preview, then an ellipsis (three bytes in UTF-8).\<close>

definition otel_body :: "int \<Rightarrow> bytes \<Rightarrow> bytes" where
  "otel_body preview payload =
     (if preview < int (length payload) then take (nat preview) payload @ [226, 128, 166] else payload)"

definition otel_attrs :: "CaptureEvent \<Rightarrow> (string \<times> attr_value) list" where
  "otel_attrs ev =
     (let attrs = [(''pid'', AInt64 (uint (cePID ev))), (''tid'', AInt64 (uint (ceTID ev))),
            (''call_id'', AInt64 (uint (ceCallID ev))), (''orig_len'', AInt64 (uint (ceOrigLen ev))),
            (''captured_len'', AInt64 (uint (ceCapturedLen ev))), (''truncated'', ABoolean (ceTruncated ev)),
            (''clawguard.version'', AText (ceClawguardVersion ev)), (''clawguard.commit'', AText (ceClawguardCommit ev)),
            (''container.id'', AText (ceContainerID ev))];
          attrs = (if cePodName ev \<noteq> [] then attrs @ [(''k8s.pod.name'', AText (cePodName ev))] else attrs)
      in if cePodNamespace ev \<noteq> [] then attrs @ [(''k8s.namespace.name'', AText (cePodNamespace ev))] else attrs)"

definition otel_Emit :: "CaptureEvent \<Rightarrow> otelSink \<Rightarrow> string option \<times> otelSink" where
  "otel_Emit ev s =
     (case otLogger s of
        None \<Rightarrow> (None, s)
      | Some lg \<Rightarrow>
          let record = \<lparr>orTimestamp = ceTimestamp ev, orBody = otel_body (otPreview s) (cePayload ev),
                orAttributes = otel_attrs ev\<rparr>;
              tp = parseTraceparent (cePayload ev);
              record = (case tp of
                          None \<Rightarrow> record
                        | Some (tid, sid) \<Rightarrow>
                            record\<lparr>orAttributes := orAttributes record @ [(''trace_id'', AHex tid), (''span_id'', AHex sid)]\<rparr>)
          in (None, s\<lparr>otSent := otSent s @ [(record, tp)]\<rparr>))"

text \<open>\<open>shutdown\<close> is the error of the provider's \<^verbatim>\<open>Shutdown\<close>.\<close>

definition otel_Close :: "string option \<Rightarrow> otelSink \<Rightarrow> string option \<times> otelSink" where
  "otel_Close shutdown s = ((if otLogger s \<noteq> None then shutdown else None), s)"

definition otel_handler :: "BuildInfo \<Rightarrow> (logger \<Rightarrow> string option) \<Rightarrow> string option \<Rightarrow> otelSink Handler" where
  "otel_handler v mk shutdown =
     \<lparr>hInfo = (\<lambda>_. FillInfo v ''otel'' ''sink''), hConfigure = otel_Configure mk, hProcess = SinkOnly_Process,
      hEmit = otel_Emit, hClose = otel_Close shutdown\<rparr>"

interpretation otel: sink_plugin "otel_handler v mk shutdown" "''otel''" v for v mk shutdown
  by unfold_locales (simp_all add: otel_handler_def SinkOnly_Process_def)

section \<open>What the matcher finds\<close>

definition hex_run :: "nat \<Rightarrow> bytes \<Rightarrow> bool" where
  "hex_run n b \<longleftrightarrow> length b = n \<and> (\<forall>x \<in> set b. is_hex x)"

lemma take_hex_Some: "take_hex n b = Some (x, rest) \<longleftrightarrow> b = x @ rest \<and> hex_run n x"
  by (auto simp: take_hex_def hex_run_def)

lemma take_dash_Some: "take_dash b = Some rest \<longleftrightarrow> b = 45 # rest"
  by (auto simp: take_dash_def split: list.splits)

lemma ws_not_hex: "is_ws b \<Longrightarrow> \<not> is_hex b"
  by (auto simp: is_ws_def is_hex_def lower_byte_def)

text \<open>A header from its name on, as text: version, trace and span digits, and flags.\<close>

definition header_text :: "bytes \<Rightarrow> bytes \<Rightarrow> bytes \<Rightarrow> bool" where
  "header_text b tid sid \<longleftrightarrow>
     (\<exists>name ws v f rest. b = name @ ws @ v @ 45 # tid @ 45 # sid @ 45 # f @ rest \<and> map lower_byte name = header_name \<and>
        (\<forall>x \<in> set ws. is_ws x) \<and> hex_run 2 v \<and> hex_run 32 tid \<and> hex_run 16 sid \<and> hex_run 2 f)"

lemma match_header_Some: "match_header b = Some (tid, sid) \<longleftrightarrow> header_text b tid sid"
proof
  assume m: "match_header b = Some (tid, sid)"
  let ?b = "drop 12 b"
  have n: "map lower_byte (take 12 b) = header_name" using m by (auto simp: match_header_def split: if_splits)
  obtain v b1 b2 b3 b4 f b5 where
    "take_hex 2 (dropWhile is_ws ?b) = Some (v, b1)" "take_dash b1 = Some b2" "take_hex 32 b2 = Some (tid, b3)"
    "take_dash b3 = Some b4" and r: "Option.bind (take_hex 16 b4) (\<lambda>(s, b). Option.bind (take_dash b)
      (\<lambda>b. Option.bind (take_hex 2 b) (\<lambda>_. Some (tid, s)))) = Some (tid, sid)"
    using m n by (auto simp: match_header_def split: Option.bind_splits prod.splits)
  moreover obtain b5 b6 f b7 where "take_hex 16 b4 = Some (sid, b5)" "take_dash b5 = Some b6" "take_hex 2 b6 = Some (f, b7)"
    using r by (auto split: Option.bind_splits prod.splits)
  ultimately have d: "dropWhile is_ws ?b = v @ 45 # tid @ 45 # sid @ 45 # f @ b7" "hex_run 2 v" "hex_run 32 tid" "hex_run 16 sid" "hex_run 2 f"
    by (auto simp: take_hex_Some take_dash_Some)
  have "b = take 12 b @ takeWhile is_ws ?b @ dropWhile is_ws ?b" by simp
  then show "header_text b tid sid"
    unfolding header_text_def using n d set_takeWhileD by (metis (no_types, lifting))
next
  assume "header_text b tid sid"
  then obtain name ws v f rest where b: "b = name @ ws @ v @ 45 # tid @ 45 # sid @ 45 # f @ rest"
    and n: "map lower_byte name = header_name" and ws: "\<forall>x \<in> set ws. is_ws x"
    and h: "hex_run 2 v" "hex_run 32 tid" "hex_run 16 sid" "hex_run 2 f"
    unfolding header_text_def by blast
  have l: "length name = 12" using arg_cong [OF n, of length] by (simp add: header_name_def)
  have hd: "v \<noteq> []" using h(1) by (auto simp: hex_run_def)
  then have "\<not> is_ws (hd v)" using h(1) ws_not_hex by (metis hd_in_set hex_run_def)
  note hd = hd this
  have d: "dropWhile is_ws (drop 12 b) = v @ 45 # tid @ 45 # sid @ 45 # f @ rest"
    using ws hd l by (cases v) (simp_all add: b dropWhile_append2)
  have "take_hex 2 (v @ 45 # tid @ 45 # sid @ 45 # f @ rest) = Some (v, 45 # tid @ 45 # sid @ 45 # f @ rest)"
    "take_hex 32 (tid @ 45 # sid @ 45 # f @ rest) = Some (tid, 45 # sid @ 45 # f @ rest)"
    "take_hex 16 (sid @ 45 # f @ rest) = Some (sid, 45 # f @ rest)" "take_hex 2 (f @ rest) = Some (f, rest)"
    using h by (simp_all add: take_hex_Some)
  then show "match_header b = Some (tid, sid)"
    using d n l by (simp add: match_header_def b take_dash_def)
qed

text \<open>A header at one position: at the beginning of the text, or after a line break.\<close>

definition header_at :: "bool \<Rightarrow> bytes \<Rightarrow> bytes \<Rightarrow> bytes \<Rightarrow> bool" where
  "header_at first b tid sid \<longleftrightarrow>
     first \<and> header_text b tid sid \<or> (\<exists>rest. (b = 10 # rest \<or> b = 13 # 10 # rest) \<and> header_text rest tid sid)"

lemma header_text_head: "header_text b tid sid \<Longrightarrow> \<exists>x rest. b = x # rest \<and> lower_byte x = 116"
  unfolding header_text_def header_name_def by (auto simp: map_eq_Cons_conv)

lemma match_here_Some: "match_here first b = Some (tid, sid) \<longleftrightarrow> header_at first b tid sid"
proof -
  have no: "match_header (10 # r) = None" "match_header (13 # r) = None" for r
    using header_text_head [of "10 # r"] header_text_head [of "13 # r"] match_header_Some
    by (auto simp: lower_byte_def) (metis lower_byte_def not_None_eq surj_pair)+
  show ?thesis
  proof (cases "first \<and> match_header b \<noteq> None")
    case True
    then obtain t s where m: "match_header b = Some (t, s)" by auto
    moreover have "b \<noteq> 10 # r" "b \<noteq> 13 # r" for r using m no by auto
    ultimately have "header_at first b tid sid \<longleftrightarrow> header_text b tid sid" "match_here first b = Some (t, s)"
      using True by (auto simp: header_at_def match_here_def)
    then show ?thesis using m match_header_Some [of b tid sid] by auto
  next
    case False
    then have "\<not> (first \<and> header_text b tid sid)" using match_header_Some [of b tid sid] by auto
    moreover have "(if first then match_header b else None) = None" using False by (simp del: not_None_eq)
    ultimately show ?thesis
      unfolding match_here_def header_at_def by (auto simp: match_header_Some split: list.splits)
  qed
qed

text \<open>The leftmost match.\<close>

lemma FindStringSubmatch_Some:
  "FindStringSubmatch first b = Some (tid, sid) \<longleftrightarrow>
     (\<exists>k \<le> length b. header_at (first \<and> k = 0) (drop k b) tid sid \<and>
        (\<forall>j < k. match_here (first \<and> j = 0) (drop j b) = None))"
proof (induction first b rule: FindStringSubmatch.induct)
  case (1 first)
  then show ?case by (simp add: match_here_Some)
next
  case (2 first x b)
  let ?P = "\<lambda>k. header_at (first \<and> k = 0) (drop k (x # b)) tid sid \<and>
        (\<forall>j < k. match_here (first \<and> j = 0) (drop j (x # b)) = None)"
  show ?case
  proof (cases "match_here first (x # b)")
    case (Some m)
    have "(\<exists>k \<le> length (x # b). ?P k) \<longleftrightarrow> ?P 0"
    proof
      assume "\<exists>k \<le> length (x # b). ?P k"
      then obtain k where "?P k" by blast
      then show "?P 0" using Some by (cases k) auto
    qed auto
    then show ?thesis using Some by (auto simp: match_here_Some [symmetric])
  next
    case None
    have "(\<exists>k \<le> length (x # b). ?P k) \<longleftrightarrow> (\<exists>k \<le> length b. ?P (Suc k))"
    proof
      assume "\<exists>k \<le> length (x # b). ?P k"
      then obtain k where k: "k \<le> length (x # b)" "?P k" by blast
      then have "k \<noteq> 0" using None match_here_Some [of first "x # b" tid sid] by (cases k) auto
      then show "\<exists>k \<le> length b. ?P (Suc k)" using k by (cases k) auto
    qed (metis Suc_le_mono length_Cons)
    moreover have "?P (Suc k) \<longleftrightarrow> header_at (False \<and> k = 0) (drop k b) tid sid \<and>
        (\<forall>j < k. match_here (False \<and> j = 0) (drop j b) = None)" for k
      using None by (auto simp: less_Suc_eq_0_disj)
    ultimately show ?thesis using 2 [OF None] None by simp
  qed
qed

lemma DecodeString_hex:
  "(\<forall>x \<in> set b. is_hex x) \<Longrightarrow> even (length b) \<Longrightarrow> \<exists>d. DecodeString b = Some d \<and> length d = length b div 2"
  by (induction b rule: DecodeString.induct) auto

lemma header_at_hex: "header_at first b t s \<Longrightarrow> hex_run 32 t \<and> hex_run 16 s"
  by (auto simp: header_at_def header_text_def)

lemma match_here_None: "match_here first b = None \<longleftrightarrow> (\<forall>t s. \<not> header_at first b t s)"
  using match_here_Some [of first b] by (cases "match_here first b") auto

text \<open>The leftmost header of a text.\<close>

definition first_header :: "bytes \<Rightarrow> bytes \<Rightarrow> bytes \<Rightarrow> bool" where
  "first_header p t s \<longleftrightarrow>
     (\<exists>k \<le> length p. header_at (k = 0) (drop k p) t s \<and> (\<forall>j < k. \<forall>t s. \<not> header_at (j = 0) (drop j p) t s))"

lemma FindStringSubmatch_first: "FindStringSubmatch True p = Some (t, s) \<longleftrightarrow> first_header p t s"
  by (simp add: FindStringSubmatch_Some first_header_def match_here_None)

lemma first_header_hex:
  assumes "first_header p t s"
  shows "\<exists>tid sid. DecodeString t = Some tid \<and> DecodeString s = Some sid \<and> length tid = 16 \<and> length sid = 8"
proof -
  have "hex_run 32 t" "hex_run 16 s" using assms header_at_hex by (auto simp: first_header_def)
  then show ?thesis using DecodeString_hex [of t] DecodeString_hex [of s] by (auto simp: hex_run_def)
qed

lemma parseTraceparent_cases:
  "parseTraceparent p =
     (case FindStringSubmatch True p of None \<Rightarrow> None | Some (t, s) \<Rightarrow> Some (the (DecodeString t), the (DecodeString s)))"
proof (cases "FindStringSubmatch True p")
  case (Some m)
  obtain t s where m: "m = (t, s)" by fastforce
  then obtain tid sid where "DecodeString t = Some tid" "DecodeString s = Some sid" "length tid = 16" "length sid = 8"
    using first_header_hex [of p t s] Some FindStringSubmatch_first [of p t s] by auto
  then show ?thesis using Some m by (simp add: parseTraceparent_def)
qed (simp add: parseTraceparent_def)

section \<open>Hexadecimal digits\<close>

definition hex_char :: "nat \<Rightarrow> u8" where
  "hex_char n = word_of_nat (if n < 10 then 48 + n else 87 + n)"

definition EncodeToString :: "bytes \<Rightarrow> bytes" where
  "EncodeToString b = concat (map (\<lambda>x. [hex_char (unat x div 16), hex_char (unat x mod 16)]) b)"

lemma hex_char_ok: "n < 16 \<Longrightarrow> is_hex (hex_char n) \<and> hex_value (hex_char n) = word_of_nat n"
proof -
  assume "n < 16"
  then have "n \<in> set [0..<16]" by simp
  moreover have "\<forall>n \<in> set [0..<16]. is_hex (hex_char n) \<and> hex_value (hex_char n) = word_of_nat n"
    by (simp add: upt_rec is_hex_def hex_char_def hex_value_def lower_byte_def)
  ultimately show ?thesis by blast
qed

lemma hex_pair: "hex_value (hex_char (unat (x :: u8) div 16)) * 16 + hex_value (hex_char (unat x mod 16)) = x"
proof -
  have "unat x < 256" by (rule order.strict_trans2 [OF unsigned_less]) simp
  then have v: "hex_value (hex_char (unat x div 16)) = word_of_nat (unat x div 16)"
    "hex_value (hex_char (unat x mod 16)) = word_of_nat (unat x mod 16)"
    by (simp_all add: hex_char_ok)
  have "(word_of_nat (unat x div 16 * 16 + unat x mod 16) :: u8) = x" unfolding div_mult_mod_eq by simp
  then show ?thesis by (simp only: v of_nat_add of_nat_mult of_nat_numeral)
qed

lemma hex_digits_ok: "is_hex (hex_char (unat (x :: u8) div 16))" "is_hex (hex_char (unat x mod 16))"
proof -
  have "unat x < 256" by (rule order.strict_trans2 [OF unsigned_less]) simp
  then show "is_hex (hex_char (unat x div 16))" "is_hex (hex_char (unat x mod 16))" using hex_char_ok by simp_all
qed

lemma Encode_ok: "DecodeString (EncodeToString b) = Some b \<and> hex_run (2 * length b) (EncodeToString b)"
  by (induction b) (simp_all add: EncodeToString_def hex_pair hex_digits_ok hex_run_def)

section \<open>Properties\<close>

text \<open>C28: The trace context of a payload is read from its leftmost \<^verbatim>\<open>traceparent\<close> header and from nothing
  else: the header begins the text or follows a line break, in any case and with any white space after
  the colon; the identifiers are the bytes its digits spell, 16 and 8 of them; and there is no trace
  context exactly when there is no such header.\<close>

theorem traceparent_spec:
  "(parseTraceparent p = Some (tid, sid) \<longleftrightarrow>
      (\<exists>t s. first_header p t s \<and> DecodeString t = Some tid \<and> DecodeString s = Some sid \<and> length tid = 16 \<and> length sid = 8)) \<and>
   (parseTraceparent p = None \<longleftrightarrow> (\<forall>k \<le> length p. \<forall>t s. \<not> header_at (k = 0) (drop k p) t s))"
proof
  show "parseTraceparent p = Some (tid, sid) \<longleftrightarrow>
      (\<exists>t s. first_header p t s \<and> DecodeString t = Some tid \<and> DecodeString s = Some sid \<and> length tid = 16 \<and> length sid = 8)"
  proof (cases "FindStringSubmatch True p")
    case None
    then show ?thesis using FindStringSubmatch_first [of p] by (simp add: parseTraceparent_cases)
  next
    case (Some m)
    obtain t s where m: "m = (t, s)" by fastforce
    have only: "first_header p t' s' \<longleftrightarrow> t' = t \<and> s' = s" for t' s'
      using FindStringSubmatch_first [of p t' s'] Some m by auto
    obtain a b where "DecodeString t = Some a" "DecodeString s = Some b" "length a = 16" "length b = 8"
      using first_header_hex [of p t s] only by blast
    then show ?thesis using Some m by (auto simp: parseTraceparent_cases only)
  qed
  have "FindStringSubmatch True p = None \<longleftrightarrow> (\<forall>t s. \<not> first_header p t s)"
    using FindStringSubmatch_first [of p] by (cases "FindStringSubmatch True p") auto
  also have "\<dots> \<longleftrightarrow> (\<forall>k \<le> length p. \<forall>t s. \<not> header_at (k = 0) (drop k p) t s)"
  proof
    assume none: "\<forall>t s. \<not> first_header p t s"
    show "\<forall>k \<le> length p. \<forall>t s. \<not> header_at (k = 0) (drop k p) t s"
    proof (intro allI impI)
      fix k t s assume "k \<le> length p"
      then show "\<not> header_at (k = 0) (drop k p) t s"
      proof (induction k arbitrary: t s rule: less_induct)
        case (less k)
        then show ?case using none unfolding first_header_def by (metis less_imp_le order_trans)
      qed
    qed
  qed (auto simp: first_header_def)
  finally show "parseTraceparent p = None \<longleftrightarrow> (\<forall>k \<le> length p. \<forall>t s. \<not> header_at (k = 0) (drop k p) t s)"
    by (auto simp: parseTraceparent_cases split: option.splits)
qed

text \<open>Round trip: a request that begins with a \<^verbatim>\<open>traceparent\<close> header, or whose first line is followed by
  one, written in any case and with any version and flags, gives back the trace and span identifiers
  that were written into it, whatever follows.\<close>

lemma traceparent_round_trip:
  assumes "length tid = 16" and "length sid = 8" and "map lower_byte name = header_name" and "\<forall>x \<in> set ws. is_ws x"
    and "hex_run 2 v" and "hex_run 2 f" and "sep \<in> {[], [10], [13, 10]}"
  shows "parseTraceparent (sep @ name @ ws @ v @ [45] @ EncodeToString tid @ [45] @ EncodeToString sid @ [45] @ f @ rest) =
    Some (tid, sid)"
proof -
  let ?t = "EncodeToString tid" and ?s = "EncodeToString sid"
  let ?h = "name @ ws @ v @ 45 # ?t @ 45 # ?s @ 45 # f @ rest"
  note t = Encode_ok [of tid] and s = Encode_ok [of sid]
  have "header_text ?h ?t ?s"
    unfolding header_text_def using assms(3-6) t s by (metis (no_types) assms(1,2) mult_2 numeral_Bit0)
  then have "header_at True (sep @ ?h) ?t ?s" using assms(7) by (auto simp: header_at_def)
  then have "first_header (sep @ ?h) ?t ?s" unfolding first_header_def by (intro exI [of _ 0]) simp
  then show ?thesis
    using t s FindStringSubmatch_first [of "sep @ ?h" ?t ?s] by (simp add: parseTraceparent_cases)
qed

text \<open>
  An emit never fails and adds one record: its body is the payload or a bounded preview of it, and it
  carries the identifiers exactly when the payload has a trace context.
\<close>

lemma otel_emits_record:
  assumes "otLogger s = Some lg"
  shows "\<exists>r. otel_Emit ev s = (None, s\<lparr>otSent := otSent s @ [(r, parseTraceparent (cePayload ev))]\<rparr>) \<and>
    orTimestamp r = ceTimestamp ev \<and> length (orBody r) \<le> max (length (cePayload ev)) (nat (otPreview s) + 3) \<and>
    (int (length (cePayload ev)) \<le> otPreview s \<longrightarrow> orBody r = cePayload ev) \<and>
    map_of (orAttributes r) ''trace_id'' = map_option (\<lambda>x. AHex (fst x)) (parseTraceparent (cePayload ev)) \<and>
    map_of (orAttributes r) ''span_id'' = map_option (\<lambda>x. AHex (snd x)) (parseTraceparent (cePayload ev))"
  using assms by (auto simp: otel_Emit_def Let_def otel_body_def otel_attrs_def split: option.splits prod.splits)

text \<open>
  The endpoint of the settings is only handed to the exporter through the environment, which keeps
  an endpoint that it already has.
\<close>

lemma otel_endpoint_kept:
  assumes "otEnv s ''OTEL_EXPORTER_OTLP_ENDPOINT'' \<noteq> []" and "otel_Configure mk cfg s = (err, s')"
  shows "otEnv s' = otEnv s"
  using assms by (auto simp: otel_Configure_def Let_def split: if_splits option.splits)

theorem traceparent_spec_witness:
  "\<exists>p t s. first_header p t s \<and> DecodeString t = Some (replicate 16 1) \<and> DecodeString s = Some (replicate 8 2) \<and>
     parseTraceparent [] = None"
proof -
  let ?tid = "replicate 16 1 :: bytes" and ?sid = "replicate 8 2 :: bytes"
  let ?p = "[10] @ header_name @ [32] @ [48, 48] @ [45] @ EncodeToString ?tid @ [45] @ EncodeToString ?sid @ [45] @ [48, 49] @ []"
  have "parseTraceparent ?p = Some (?tid, ?sid)"
    by (rule traceparent_round_trip) (simp_all add: header_name_def lower_byte_def is_ws_def hex_run_def is_hex_def)
  then obtain t s where "first_header ?p t s" "DecodeString t = Some ?tid" "DecodeString s = Some ?sid"
    using traceparent_spec [of ?p ?tid ?sid] by blast
  moreover have "\<not> header_text [] t s" for t s using header_text_head [of "[]" t s] by auto
  then have "parseTraceparent [] = None"
    using traceparent_spec [of "[]"] by (simp add: header_at_def)
  ultimately show ?thesis by blast
qed

end
