(* ===== verification/Sink_Debugws.thy ===== *)
theory Sink_Debugws
  imports Plugin_Props Go_Chan
begin

text \<open>
  \<^verbatim>\<open>cmd/clawguard-sink-debugws/main.go\<close>: the sink that shows events to web socket clients. The
  \<^verbatim>\<open>hub\<close> is a goroutine that takes messages from a channel and hands each to the channel of every
  client; a client whose channel is full is dropped. Every goroutine's turn is an operation on the
  hub's state: \<^verbatim>\<open>run\<close> registering a client, removing one or fanning out a message, a client's writer
  taking a message, \<^verbatim>\<open>Emit\<close> offering one. A panic (a send on a closed channel, a second \<^verbatim>\<open>close\<close>) is
  \<open>None\<close>. A \<^verbatim>\<open>*wsClient\<close> is a number; the sockets themselves are left out, the routes of the HTTP server are in \<open>Http_Routes\<close>.
\<close>

section \<open>The hub\<close>

text \<open>
  \<open>wcTaken\<close> records what the client's writer has received, \<open>wcFrom\<close> how many messages the hub had
  taken when the client was registered, \<open>hbTaken\<close> the messages the hub has taken.
\<close>

record wsClient =
  wcSend :: "bytes chan"
  wcTaken :: "bytes list"
  wcFrom :: nat

record hub =
  hbClients :: "nat set"
  hbBroadcast :: "bytes chan"
  hbSockets :: "nat \<rightharpoonup> wsClient"
  hbNext :: nat
  hbCancelled :: bool
  hbRunning :: bool
  hbTaken :: "bytes list"

definition newHub :: hub where
  "newHub = \<lparr>hbClients = {}, hbBroadcast = make_chan 64, hbSockets = Map.empty, hbNext = 0,
     hbCancelled = False, hbRunning = True, hbTaken = []\<rparr>"

text \<open>
  The handler of \<^verbatim>\<open>/ws\<close>: the new client is known to no one else until \<^verbatim>\<open>run\<close> receives it, so that
  making it and registering it are one step; it waits for ever when \<^verbatim>\<open>run\<close> has returned.
\<close>

definition hub_connect :: "hub \<Rightarrow> hub" where
  "hub_connect h =
     (if hbRunning h
      then let c = hbNext h
           in h\<lparr>hbSockets := (hbSockets h)(c \<mapsto> \<lparr>wcSend = make_chan 256, wcTaken = [], wcFrom = length (hbTaken h)\<rparr>),
                hbNext := c + 1, hbClients := insert c (hbClients h)\<rparr>
      else h)"

definition hub_unregister :: "nat \<Rightarrow> hub \<Rightarrow> hub option" where
  "hub_unregister c h =
     (if hbRunning h \<and> c \<in> hbClients h
      then (case hbSockets h c of
              None \<Rightarrow> None
            | Some w \<Rightarrow>
                (case chan_close (wcSend w) of
                   None \<Rightarrow> None
                 | Some ch \<Rightarrow> Some (h\<lparr>hbClients := hbClients h - {c}, hbSockets := (hbSockets h)(c \<mapsto> w\<lparr>wcSend := ch\<rparr>)\<rparr>)))
      else Some h)"

text \<open>The fan-out of one message, over the clients in the order of the range.\<close>

fun send_each :: "bytes \<Rightarrow> nat list \<Rightarrow> hub \<Rightarrow> hub option" where
  "send_each msg [] h = Some h"
| "send_each msg (c # cs) h =
     (case hbSockets h c of
        None \<Rightarrow> None
      | Some w \<Rightarrow>
          (case chan_send msg (wcSend w) of
             None \<Rightarrow> None
           | Some (ch, True) \<Rightarrow> send_each msg cs (h\<lparr>hbSockets := (hbSockets h)(c \<mapsto> w\<lparr>wcSend := ch\<rparr>)\<rparr>)
           | Some (ch, False) \<Rightarrow>
               (case chan_close (wcSend w) of
                  None \<Rightarrow> None
                | Some ch \<Rightarrow>
                    send_each msg cs (h\<lparr>hbSockets := (hbSockets h)(c \<mapsto> w\<lparr>wcSend := ch\<rparr>),
                                        hbClients := hbClients h - {c}\<rparr>))))"

definition hub_broadcast :: "(nat set \<Rightarrow> nat list) \<Rightarrow> hub \<Rightarrow> hub option" where
  "hub_broadcast order h =
     (if \<not> hbRunning h then Some h
      else case chan_recv (hbBroadcast h) of
             None \<Rightarrow> Some h
           | Some (msg, ch) \<Rightarrow>
               send_each msg (order (hbClients h)) (h\<lparr>hbBroadcast := ch, hbTaken := hbTaken h @ [msg]\<rparr>))"

definition hub_done :: "hub \<Rightarrow> hub" where
  "hub_done h = (if hbCancelled h then h\<lparr>hbRunning := False\<rparr> else h)"

text \<open>One turn of a client's writer.\<close>

definition ws_write :: "nat \<Rightarrow> hub \<Rightarrow> hub" where
  "ws_write c h =
     (case hbSockets h c of
        None \<Rightarrow> h
      | Some w \<Rightarrow>
          (case chan_recv (wcSend w) of
             None \<Rightarrow> h
           | Some (msg, ch) \<Rightarrow> h\<lparr>hbSockets := (hbSockets h)(c \<mapsto> w\<lparr>wcSend := ch, wcTaken := wcTaken w @ [msg]\<rparr>)\<rparr>))"

section \<open>The sink\<close>

text \<open>The packet of an event: its edition and its findings are not part of it.\<close>

record pkt =
  pkTimestamp :: time
  pkPID :: u32
  pkTID :: u32
  pkCallID :: u32
  pkOrigLen :: u32
  pkCapturedLen :: u32
  pkTruncated :: bool
  pkHookType :: u32
  pkPayload :: bytes
  pkContainerID :: string
  pkPodName :: string
  pkPodNamespace :: string
  pkClawguardVersion :: string
  pkClawguardCommit :: string
  pkPlugins :: "PluginRef list"

definition pkt_of :: "CaptureEvent \<Rightarrow> pkt" where
  "pkt_of ev =
     \<lparr>pkTimestamp = ceTimestamp ev, pkPID = cePID ev, pkTID = ceTID ev, pkCallID = ceCallID ev,
      pkOrigLen = ceOrigLen ev, pkCapturedLen = ceCapturedLen ev, pkTruncated = ceTruncated ev,
      pkHookType = ceHookType ev, pkPayload = cePayload ev, pkContainerID = ceContainerID ev,
      pkPodName = cePodName ev, pkPodNamespace = cePodNamespace ev, pkClawguardVersion = ceClawguardVersion ev,
      pkClawguardCommit = ceClawguardCommit ev, pkPlugins = cePlugins ev\<rparr>"

record debugWS =
  dwHub :: "hub option"
  dwListen :: string
  dwUiDir :: string

definition dw_Configure :: "PluginConfig \<Rightarrow> debugWS \<Rightarrow> string option \<times> debugWS" where
  "dw_Configure cfg s =
     (let listen = string_setting cfg ''listen'';
          listen = (if listen = [] then '':8081'' else listen);
          uiDir = string_setting cfg ''ui_dir'';
          uiDir = (if uiDir = [] then ''/ui/dist'' else uiDir)
      in (None, s\<lparr>dwHub := Some newHub, dwListen := listen, dwUiDir := uiDir\<rparr>))"

text \<open>
  \<open>enc\<close> is \<^verbatim>\<open>json.Marshal\<close> of a packet, or the text of its error. The channel of the hub is never
  closed; the outer \<open>None\<close> would be the panic of a send on it.
\<close>

definition dw_offer :: "bytes \<Rightarrow> hub \<Rightarrow> hub option" where
  "dw_offer data h = map_option (\<lambda>(ch, ok). h\<lparr>hbBroadcast := ch\<rparr>) (chan_send data (hbBroadcast h))"

definition dw_Emit :: "(pkt \<Rightarrow> string + bytes) \<Rightarrow> CaptureEvent \<Rightarrow> debugWS \<Rightarrow> (string option \<times> debugWS) option" where
  "dw_Emit enc ev s =
     (case dwHub s of
        None \<Rightarrow> Some (None, s)
      | Some h \<Rightarrow>
          (case enc (pkt_of ev) of
             Inl err \<Rightarrow> Some (Some err, s)
           | Inr data \<Rightarrow> map_option (\<lambda>h. (None, s\<lparr>dwHub := Some h\<rparr>)) (dw_offer data h)))"

definition dw_Close :: "debugWS \<Rightarrow> string option \<times> debugWS" where
  "dw_Close s = (None, s\<lparr>dwHub := map_option (\<lambda>h. h\<lparr>hbCancelled := True\<rparr>) (dwHub s)\<rparr>)"

section \<open>Runs\<close>

datatype hub_step = Connect | Unregister nat | Broadcast | RunDone | WriteOut nat | Offer bytes | Cancel

definition hub_do :: "(nat set \<Rightarrow> nat list) \<Rightarrow> hub_step \<Rightarrow> hub \<Rightarrow> hub option" where
  "hub_do order a h =
     (case a of
        Connect \<Rightarrow> Some (hub_connect h)
      | Unregister c \<Rightarrow> hub_unregister c h
      | Broadcast \<Rightarrow> hub_broadcast order h
      | RunDone \<Rightarrow> Some (hub_done h)
      | WriteOut c \<Rightarrow> Some (ws_write c h)
      | Offer data \<Rightarrow> dw_offer data h
      | Cancel \<Rightarrow> Some (h\<lparr>hbCancelled := True\<rparr>))"

fun hub_run :: "(nat set \<Rightarrow> nat list) \<Rightarrow> hub_step list \<Rightarrow> hub \<Rightarrow> hub option" where
  "hub_run order [] h = Some h"
| "hub_run order (a # as) h = Option.bind (hub_do order a h) (hub_run order as)"

definition enumerating :: "(nat set \<Rightarrow> nat list) \<Rightarrow> bool" where
  "enumerating order \<longleftrightarrow> (\<forall>A. finite A \<longrightarrow> distinct (order A) \<and> set (order A) = A)"

section \<open>Invariant\<close>

text \<open>What a client has taken or will find, against what the hub has taken since the client came.\<close>

definition client_ok :: "hub \<Rightarrow> nat \<Rightarrow> wsClient \<Rightarrow> bool" where
  "client_ok h c w \<longleftrightarrow>
     (chClosed (wcSend w) \<longleftrightarrow> c \<notin> hbClients h) \<and> chCap (wcSend w) = 256 \<and> length (chBuf (wcSend w)) \<le> 256 \<and>
     wcFrom w \<le> length (hbTaken h) \<and>
     prefix (wcTaken w @ chBuf (wcSend w)) (drop (wcFrom w) (hbTaken h)) \<and>
     (c \<in> hbClients h \<longrightarrow> wcTaken w @ chBuf (wcSend w) = drop (wcFrom w) (hbTaken h))"

definition hub_ok :: "hub \<Rightarrow> bool" where
  "hub_ok h \<longleftrightarrow> hbClients h \<subseteq> dom (hbSockets h) \<and> dom (hbSockets h) \<subseteq> {..<hbNext h} \<and>
     \<not> chClosed (hbBroadcast h) \<and> chCap (hbBroadcast h) = 64 \<and> length (chBuf (hbBroadcast h)) \<le> 64 \<and>
     (\<forall>c w. hbSockets h c = Some w \<longrightarrow> client_ok h c w)"

lemma hub_okD:
  assumes "hub_ok h"
  shows "finite (hbClients h)" and "hbClients h \<subseteq> dom (hbSockets h)" and "dom (hbSockets h) \<subseteq> {..<hbNext h}"
    and "\<not> chClosed (hbBroadcast h)" and "chCap (hbBroadcast h) = 64" and "length (chBuf (hbBroadcast h)) \<le> 64"
    and "hbSockets h c = Some w \<Longrightarrow> client_ok h c w"
proof -
  show "finite (hbClients h)"
    using assms finite_subset [of "hbClients h" "{..<hbNext h}"] by (auto simp: hub_ok_def)
qed (use assms in \<open>simp_all add: hub_ok_def\<close>)

lemma newHub_ok: "hub_ok newHub"
  by (simp add: hub_ok_def newHub_def)

text \<open>One send of the fan-out, and all of them.\<close>

definition full :: "wsClient \<Rightarrow> bool" where
  "full w \<longleftrightarrow> chCap (wcSend w) \<le> length (chBuf (wcSend w))"

definition served :: "bytes \<Rightarrow> wsClient \<Rightarrow> wsClient" where
  "served msg w =
     w\<lparr>wcSend := (if full w then (wcSend w)\<lparr>chClosed := True\<rparr> else (wcSend w)\<lparr>chBuf := chBuf (wcSend w) @ [msg]\<rparr>)\<rparr>"

definition full_clients :: "hub \<Rightarrow> nat set" where
  "full_clients h = {c. \<exists>w. hbSockets h c = Some w \<and> full w}"

lemma send_each_eq:
  assumes "distinct cs" and "\<forall>c \<in> set cs. \<exists>w. hbSockets h c = Some w \<and> \<not> chClosed (wcSend w)"
  shows "send_each msg cs h =
    Some (h\<lparr>hbSockets := (\<lambda>c. if c \<in> set cs then map_option (served msg) (hbSockets h c) else hbSockets h c),
            hbClients := hbClients h - (set cs \<inter> full_clients h)\<rparr>)"
  using assms
proof (induction cs arbitrary: h)
  case (Cons c cs)
  obtain w where w: "hbSockets h c = Some w" "\<not> chClosed (wcSend w)" using Cons.prems(2) by auto
  define h1 where "h1 = h\<lparr>hbSockets := (hbSockets h)(c \<mapsto> served msg w),
    hbClients := (if full w then hbClients h - {c} else hbClients h)\<rparr>"
  have one: "send_each msg (c # cs) h = send_each msg cs h1"
    using w by (cases "full w") (simp_all add: chan_send_def chan_close_def h1_def served_def full_def)
  have "\<forall>d \<in> set cs. \<exists>w. hbSockets h1 d = Some w \<and> \<not> chClosed (wcSend w)"
    using Cons.prems by (auto simp: h1_def)
  note ih = Cons.IH [of h1, OF _ this]
  have f: "set cs \<inter> full_clients h1 = set cs \<inter> full_clients h"
    using Cons.prems(1) by (auto simp: full_clients_def h1_def split: if_splits)
  have s: "(\<lambda>d. if d \<in> set cs then map_option (served msg) (hbSockets h1 d) else hbSockets h1 d) =
      (\<lambda>d. if d \<in> set (c # cs) then map_option (served msg) (hbSockets h d) else hbSockets h d)"
    using Cons.prems(1) w(1) by (auto simp: h1_def)
  have k: "hbClients h1 - (set cs \<inter> full_clients h) = hbClients h - (set (c # cs) \<inter> full_clients h)"
    using w(1) by (auto simp: h1_def full_clients_def)
  show ?case
    unfolding one using ih Cons.prems(1) unfolding f s k by (simp add: h1_def)
qed simp

section \<open>Every step keeps the invariant\<close>

lemma client_ok_served:
  assumes "client_ok h c w" and "c \<in> hbClients h"
  shows "client_ok (h\<lparr>hbTaken := hbTaken h @ [msg], hbClients := K\<rparr>) c (served msg w) \<longleftrightarrow> (c \<in> K \<longleftrightarrow> \<not> full w)"
proof -
  let ?d = "drop (wcFrom w) (hbTaken h)"
  have "drop (wcFrom w) (hbTaken h @ [msg]) = ?d @ [msg]" using assms(1) by (simp add: client_ok_def)
  then show ?thesis
    using assms by (auto simp: client_ok_def served_def full_def)
qed

lemma client_ok_later:
  assumes "client_ok h c w" and "c \<notin> hbClients h" and "c \<notin> K"
  shows "client_ok (h\<lparr>hbTaken := hbTaken h @ [msg], hbClients := K\<rparr>) c w"
  using assms by (auto simp: client_ok_def)

lemma client_ok_cong:
  "hbClients h' = hbClients h \<Longrightarrow> hbTaken h' = hbTaken h \<Longrightarrow> client_ok h' c w \<longleftrightarrow> client_ok h c w"
  by (simp add: client_ok_def)

lemma broadcast_eq:
  assumes "hub_ok h" and "enumerating order" and "hbRunning h" and "chan_recv (hbBroadcast h) = Some (msg, ch)"
  shows "hub_broadcast order h =
    Some (h\<lparr>hbBroadcast := ch, hbTaken := hbTaken h @ [msg],
            hbSockets := (\<lambda>c. if c \<in> hbClients h then map_option (served msg) (hbSockets h c) else hbSockets h c),
            hbClients := hbClients h - full_clients h\<rparr>)"
proof -
  let ?h = "h\<lparr>hbBroadcast := ch, hbTaken := hbTaken h @ [msg]\<rparr>"
  note ok = hub_okD [OF assms(1)]
  have o: "distinct (order (hbClients h))" "set (order (hbClients h)) = hbClients h"
    using assms(2) ok(1) by (simp_all add: enumerating_def)
  have "\<forall>c \<in> set (order (hbClients h)). \<exists>w. hbSockets ?h c = Some w \<and> \<not> chClosed (wcSend w)"
    using ok(2,7) by (auto simp: o client_ok_def)
  from send_each_eq [OF o(1) this, of msg] have
    "send_each msg (order (hbClients h)) ?h =
      Some (?h\<lparr>hbSockets := (\<lambda>c. if c \<in> hbClients h then map_option (served msg) (hbSockets h c) else hbSockets h c),
            hbClients := hbClients h - (hbClients h \<inter> full_clients ?h)\<rparr>)"
    by (simp add: o cong: if_cong)
  moreover have "hbClients h - (hbClients h \<inter> full_clients ?h) = hbClients h - full_clients h"
    by (auto simp: full_clients_def)
  ultimately show ?thesis using assms(3,4) by (simp add: hub_broadcast_def)
qed

lemma broadcast_ok:
  assumes "hub_ok h" and "enumerating order"
  shows "\<exists>h'. hub_broadcast order h = Some h' \<and> hub_ok h'"
proof (cases "hbRunning h \<and> chBuf (hbBroadcast h) \<noteq> []")
  case False
  then show ?thesis using assms(1) by (auto simp: hub_broadcast_def chan_recv_def)
next
  case True
  then obtain msg rest where b: "chBuf (hbBroadcast h) = msg # rest" by (cases "chBuf (hbBroadcast h)") simp_all
  let ?ch = "(hbBroadcast h)\<lparr>chBuf := rest\<rparr>" and ?K = "hbClients h - full_clients h"
  define h' where "h' = h\<lparr>hbBroadcast := ?ch, hbTaken := hbTaken h @ [msg],
    hbSockets := (\<lambda>c. if c \<in> hbClients h then map_option (served msg) (hbSockets h c) else hbSockets h c), hbClients := ?K\<rparr>"
  note ok = hub_okD [OF assms(1)]
  have e: "hub_broadcast order h = Some h'"
    using broadcast_eq [OF assms, of msg ?ch] True b by (simp add: chan_recv_def h'_def)
  have "client_ok h' c w" if w: "hbSockets h' c = Some w" for c w
  proof (cases "c \<in> hbClients h")
    case True
    then obtain w0 where w0: "hbSockets h c = Some w0" "w = served msg w0" using w by (auto simp: h'_def)
    have "c \<in> ?K \<longleftrightarrow> \<not> full w0" using True w0(1) by (simp add: full_clients_def)
    then have "client_ok (h\<lparr>hbTaken := hbTaken h @ [msg], hbClients := ?K\<rparr>) c w"
      using client_ok_served [OF ok(7) [OF w0(1)] True, where msg = msg and K = ?K] by (simp add: w0(2))
    then show ?thesis by (simp add: client_ok_def h'_def)
  next
    case False
    then have "hbSockets h c = Some w" using w by (simp add: h'_def)
    from client_ok_later [OF ok(7) [OF this] False, where msg = msg and K = ?K] False
    have "client_ok (h\<lparr>hbTaken := hbTaken h @ [msg], hbClients := ?K\<rparr>) c w" by simp
    then show ?thesis by (simp add: client_ok_def h'_def)
  qed
  moreover have "dom (hbSockets h') = dom (hbSockets h)" by (auto simp: h'_def split: if_splits)
  ultimately have "hub_ok h'"
    using ok(2-6) b by (auto simp: hub_ok_def h'_def)
  with e show ?thesis by blast
qed

lemma connect_ok: "hub_ok h \<Longrightarrow> hub_ok (hub_connect h)"
proof (cases "hbRunning h")
  case True
  assume a: "hub_ok h"
  note ok = hub_okD [OF a]
  have "hbSockets h (hbNext h) = None" using ok(3) by auto
  moreover have "client_ok (hub_connect h) c w" if "hbSockets h c = Some w" for c w
  proof -
    have "c \<noteq> hbNext h" using that ok(3) by auto
    then show ?thesis using ok(7) [OF that] True by (simp add: client_ok_def hub_connect_def Let_def)
  qed
  ultimately show "hub_ok (hub_connect h)"
    using ok(2-6) True by (auto simp: hub_ok_def hub_connect_def Let_def client_ok_def less_Suc_eq)
qed (simp add: hub_connect_def)

lemma unregister_ok:
  assumes "hub_ok h"
  shows "\<exists>h'. hub_unregister c h = Some h' \<and> hub_ok h'"
proof (cases "hbRunning h \<and> c \<in> hbClients h")
  case True
  note ok = hub_okD [OF assms]
  obtain w where w: "hbSockets h c = Some w" using True ok(2) by auto
  let ?w = "w\<lparr>wcSend := (wcSend w)\<lparr>chClosed := True\<rparr>\<rparr>"
  let ?h = "h\<lparr>hbClients := hbClients h - {c}, hbSockets := (hbSockets h)(c \<mapsto> ?w)\<rparr>"
  have cw: "client_ok h c w" by (rule ok(7) [OF w])
  then have "hub_unregister c h = Some ?h"
    using True w by (simp add: hub_unregister_def chan_close_def client_ok_def)
  moreover have "client_ok ?h d u" if "hbSockets ?h d = Some u" for d u
    using that cw ok(7) [of d u] by (cases "d = c") (auto simp: client_ok_def)
  then have "hub_ok ?h" using ok(2-6) w by (auto simp: hub_ok_def)
  ultimately show ?thesis by blast
qed (use assms in \<open>auto simp: hub_unregister_def\<close>)

lemma write_ok:
  assumes "hub_ok h"
  shows "hub_ok (ws_write c h)"
proof (cases "\<exists>w msg rest. hbSockets h c = Some w \<and> chBuf (wcSend w) = msg # rest")
  case True
  note ok = hub_okD [OF assms]
  obtain w msg rest where w: "hbSockets h c = Some w" "chBuf (wcSend w) = msg # rest" using True by blast
  let ?w = "w\<lparr>wcSend := (wcSend w)\<lparr>chBuf := rest\<rparr>, wcTaken := wcTaken w @ [msg]\<rparr>"
  have e: "ws_write c h = h\<lparr>hbSockets := (hbSockets h)(c \<mapsto> ?w)\<rparr>" using w by (simp add: ws_write_def chan_recv_def)
  have "client_ok (ws_write c h) d u" if "hbSockets (ws_write c h) d = Some u" for d u
    using that ok(7) [OF w(1)] ok(7) [of d u] w(2) by (cases "d = c") (auto simp: e client_ok_def)
  then show ?thesis using ok(2-6) w(1) by (auto simp: hub_ok_def e)
next
  case False
  then have "ws_write c h = h"
    by (auto simp: ws_write_def chan_recv_def split: option.splits list.splits)
  then show ?thesis using assms by simp
qed

lemma offer_ok:
  assumes "hub_ok h"
  shows "\<exists>h'. dw_offer data h = Some h' \<and> hub_ok h' \<and> (\<exists>ch. h' = h\<lparr>hbBroadcast := ch\<rparr>)"
proof -
  note ok = hub_okD [OF assms]
  let ?full = "length (chBuf (hbBroadcast h)) < 64"
  define ch where "ch = (if ?full then (hbBroadcast h)\<lparr>chBuf := chBuf (hbBroadcast h) @ [data]\<rparr> else hbBroadcast h)"
  have "dw_offer data h = Some (h\<lparr>hbBroadcast := ch\<rparr>)"
    using ok(4-6) by (auto simp: dw_offer_def chan_send_def ch_def)
  moreover have "hub_ok (h\<lparr>hbBroadcast := ch\<rparr>)"
    using assms by (auto simp: hub_ok_def ch_def client_ok_def)
  ultimately show ?thesis by blast
qed

lemma hub_do_ok:
  assumes "hub_ok h" and "enumerating order"
  shows "\<exists>h'. hub_do order a h = Some h' \<and> hub_ok h'"
proof (cases a)
  case (Unregister c)
  then show ?thesis using unregister_ok [OF assms(1)] by (simp add: hub_do_def)
next
  case Broadcast
  then show ?thesis using broadcast_ok [OF assms] by (simp add: hub_do_def)
next
  case (Offer data)
  then show ?thesis using offer_ok [OF assms(1)] by (auto simp: hub_do_def)
next
  case RunDone
  have "hub_ok (hub_done h)"
    using assms(1) by (auto simp: hub_ok_def hub_done_def client_ok_def)
  then show ?thesis by (simp add: hub_do_def RunDone)
next
  case Cancel
  have "hub_ok (h\<lparr>hbCancelled := True\<rparr>)"
    using assms(1) by (auto simp: hub_ok_def client_ok_def)
  then show ?thesis by (simp add: hub_do_def Cancel)
qed (simp_all add: hub_do_def connect_ok write_ok assms(1))

lemma hub_run_ok:
  assumes "enumerating order"
  shows "hub_ok h \<Longrightarrow> \<exists>h'. hub_run order as h = Some h' \<and> hub_ok h'"
proof (induction as arbitrary: h)
  case (Cons a as)
  obtain h1 where "hub_do order a h = Some h1" "hub_ok h1" using hub_do_ok [OF Cons.prems assms] by blast
  then show ?case using Cons.IH by simp
qed simp

section \<open>The hub's queue\<close>

text \<open>The steps as the sends and receives of the hub's channel, and what the locale says of them.\<close>

definition queue_op :: "hub \<Rightarrow> hub_step \<Rightarrow> bytes fifo_op list" where
  "queue_op h a = (case a of Offer data \<Rightarrow> [Put data] | Broadcast \<Rightarrow> if hbRunning h then [Get] else [] | _ \<Rightarrow> [])"

fun queue_ops :: "(nat set \<Rightarrow> nat list) \<Rightarrow> hub_step list \<Rightarrow> hub \<Rightarrow> bytes fifo_op list" where
  "queue_ops order [] h = []"
| "queue_ops order (a # as) h =
     queue_op h a @ (case hub_do order a h of None \<Rightarrow> [] | Some h' \<Rightarrow> queue_ops order as h')"

fun offers :: "hub_step list \<Rightarrow> bytes list" where
  "offers [] = []"
| "offers (a # as) = (case a of Offer data \<Rightarrow> data # offers as | _ \<Rightarrow> offers as)"

lemma send_each_queue:
  "send_each msg cs h = Some h' \<Longrightarrow> hbBroadcast h' = hbBroadcast h \<and> hbTaken h' = hbTaken h"
proof (induction msg cs h rule: send_each.induct)
  case (2 msg c cs h)
  then show ?case by (fastforce split: option.splits prod.splits bool.splits)
qed simp

lemma hub_do_queue:
  assumes "hub_do order a h = Some h'"
  shows "fifo_run chan_send chan_recv (queue_op h a) (hbBroadcast h, hbTaken h) = Some (hbBroadcast h', hbTaken h')"
proof (cases a)
  case Broadcast
  then show ?thesis
    using assms send_each_queue
    by (fastforce simp: hub_do_def hub_broadcast_def queue_op_def split: if_splits option.splits prod.splits)
next
  case (Unregister c)
  then show ?thesis
    using assms by (auto simp: hub_do_def hub_unregister_def queue_op_def split: if_splits option.splits)
next
  case (WriteOut c)
  then show ?thesis
    using assms by (auto simp: hub_do_def ws_write_def queue_op_def split: option.splits)
next
  case (Offer data)
  then show ?thesis
    using assms by (auto simp: hub_do_def dw_offer_def queue_op_def)
qed (use assms in \<open>auto simp: hub_do_def hub_connect_def hub_done_def queue_op_def Let_def\<close>)

lemma fifo_run_append:
  "fifo_run put get (as @ bs) s = Option.bind (fifo_run put get as s) (fifo_run put get bs)"
proof (induction as arbitrary: s)
  case (Cons a as)
  then show ?case by (cases "fifo_step put get a s") simp_all
qed simp

lemma hub_run_queue:
  "hub_run order as h = Some h' \<Longrightarrow>
     fifo_run chan_send chan_recv (queue_ops order as h) (hbBroadcast h, hbTaken h) = Some (hbBroadcast h', hbTaken h')"
proof (induction as arbitrary: h)
  case (Cons a as)
  obtain h1 where h1: "hub_do order a h = Some h1" "hub_run order as h1 = Some h'"
    using Cons.prems by (auto split: Option.bind_splits)
  then show ?case using Cons.IH [OF h1(2)] hub_do_queue [OF h1(1)] by (simp add: fifo_run_append)
qed simp

lemma puts_append: "puts (as @ bs) = puts as @ puts bs"
  by (induction as rule: puts.induct) simp_all

lemma queue_ops_puts: "hub_run order as h = Some h' \<Longrightarrow> puts (queue_ops order as h) = offers as"
  by (induction as arbitrary: h) (auto simp: puts_append queue_op_def split: Option.bind_splits hub_step.splits)

text \<open>
  The messages of a run that found room: those offered in a state in which the hub's queue holds fewer than
  its 64.
\<close>

fun found_room :: "(nat set \<Rightarrow> nat list) \<Rightarrow> hub_step list \<Rightarrow> hub \<Rightarrow> bytes list" where
  "found_room order [] h = []"
| "found_room order (a # as) h =
     (case a of Offer data \<Rightarrow> if length (chBuf (hbBroadcast h)) < 64 then [data] else [] | _ \<Rightarrow> []) @
     (case hub_do order a h of None \<Rightarrow> [] | Some h' \<Rightarrow> found_room order as h')"

lemma hub_do_room:
  assumes "hub_ok h" and "hub_do order a h = Some h'"
  shows "hbTaken h' @ chBuf (hbBroadcast h') = hbTaken h @ chBuf (hbBroadcast h) @ found_room order [a] h"
proof (cases a)
  case (Offer data)
  then show ?thesis
    using assms hub_okD(4,5) [OF assms(1)] by (auto simp: hub_do_def dw_offer_def chan_send_def split: if_splits)
next
  case Broadcast
  then show ?thesis
    using assms(2) send_each_queue [of _ _ _ h']
    by (fastforce simp: hub_do_def hub_broadcast_def chan_recv_def split: if_splits option.splits list.splits)
next
  case (Unregister c)
  then show ?thesis
    using assms(2) by (auto simp: hub_do_def hub_unregister_def split: if_splits option.splits)
next
  case (WriteOut c)
  then show ?thesis
    using assms(2) by (auto simp: hub_do_def ws_write_def split: option.splits)
qed (use assms(2) in \<open>auto simp: hub_do_def hub_connect_def hub_done_def Let_def\<close>)

lemma hub_run_room:
  assumes "enumerating order"
  shows "hub_ok h \<Longrightarrow> hub_run order as h = Some h' \<Longrightarrow>
    hbTaken h' @ chBuf (hbBroadcast h') = hbTaken h @ chBuf (hbBroadcast h) @ found_room order as h"
proof (induction as arbitrary: h)
  case (Cons a as)
  obtain h1 where h1: "hub_do order a h = Some h1" "hub_ok h1" using hub_do_ok [OF Cons.prems(1) assms] by blast
  then show ?case
    using Cons.IH [of h1] Cons.prems(2) hub_do_room [OF Cons.prems(1) h1(1)] by simp
qed simp

section \<open>Properties\<close>

text \<open>C26: The hub never panics: whatever the order in which clients connect and leave, messages are offered,
  fanned out and written and the sink is closed, no closed channel is sent to and no channel is closed
  twice; a client's channel is closed exactly when the client is no longer registered.\<close>

theorem hub_never_panics:
  assumes "enumerating order"
  shows "\<exists>h. hub_run order as newHub = Some h \<and> hbClients h \<subseteq> dom (hbSockets h) \<and>
    (\<forall>c w. hbSockets h c = Some w \<longrightarrow> (chClosed (wcSend w) \<longleftrightarrow> c \<notin> hbClients h))"
proof -
  obtain h where h: "hub_run order as newHub = Some h" "hub_ok h"
    using hub_run_ok [OF assms newHub_ok] by blast
  then show ?thesis using hub_okD(2,7) [OF h(2)] by (auto simp: client_ok_def)
qed

theorem hub_never_panics_witness:
  "\<exists>h. hub_run sorted_list_of_set [Connect, Offer [1], Broadcast, Unregister 0, Unregister 0] newHub = Some h"
proof -
  have "enumerating sorted_list_of_set" by (simp add: enumerating_def)
  from hub_never_panics [OF this] show ?thesis by blast
qed

text \<open>C27: No gaps: the messages that a connected client has been sent or will find are exactly those the hub
  has fanned out since it connected, in order; one that was dropped for being slow has a prefix of
  them; and what the hub has fanned out, followed by what waits in its queue, is exactly what was offered to it
  in the states in which its queue of 64 had room, in order: nothing else is lost on the way to the fan-out.\<close>

theorem hub_no_gaps:
  assumes "enumerating order" and "hub_run order as newHub = Some h"
  shows "(\<forall>c w. hbSockets h c = Some w \<longrightarrow> prefix (wcTaken w @ chBuf (wcSend w)) (drop (wcFrom w) (hbTaken h)) \<and>
      (c \<in> hbClients h \<longrightarrow> wcTaken w @ chBuf (wcSend w) = drop (wcFrom w) (hbTaken h))) \<and>
    hbTaken h @ chBuf (hbBroadcast h) = found_room order as newHub \<and> subseq (found_room order as newHub) (offers as)"
proof -
  have ok: "hub_ok h" using hub_run_ok [OF assms(1) newHub_ok, of as] assms(2) by auto
  have q: "fifo_run chan_send chan_recv (queue_ops order as newHub) (make_chan 64, []) = Some (hbBroadcast h, hbTaken h)"
    using hub_run_queue [OF assms(2)] by (simp add: newHub_def)
  obtain more where "hbTaken h @ chBuf (hbBroadcast h) = more" "subseq more (offers as)"
    using chan.run_open [of "make_chan 64" "queue_ops order as newHub" "[]"] q queue_ops_puts [OF assms(2)] by auto
  moreover have "hbTaken h @ chBuf (hbBroadcast h) = found_room order as newHub"
    using hub_run_room [OF assms(1) newHub_ok assms(2)] by (simp add: newHub_def)
  ultimately show ?thesis using hub_okD(7) [OF ok] by (auto simp: client_ok_def)
qed

theorem hub_no_gaps_witness:
  "\<exists>h w. hub_run sorted_list_of_set [Connect, Offer [1], Offer [2], Broadcast, Broadcast] newHub = Some h \<and>
     hbSockets h 0 = Some w \<and> wcTaken w @ chBuf (wcSend w) = [[1], [2]]"
proof -
  have e: "enumerating sorted_list_of_set" by (simp add: enumerating_def)
  obtain h w where h: "hub_run sorted_list_of_set [Connect, Offer [1], Offer [2], Broadcast, Broadcast] newHub = Some h"
    "hbSockets h 0 = Some w" "hbClients h = {0}" "hbTaken h = [[1], [2]]" "wcFrom w = 0"
    by (simp add: hub_do_def newHub_def hub_connect_def dw_offer_def chan_send_def hub_broadcast_def chan_recv_def make_chan_def)
  then show ?thesis using hub_no_gaps [OF e h(1)] by (intro exI [of _ h] exI [of _ w]) simp
qed

section \<open>The sink as a plugin\<close>

text \<open>\<open>dw_Emit\<close> does not panic on a hub that a run has reached, so that the handler is total there.\<close>

definition debugws_handler :: "BuildInfo \<Rightarrow> (pkt \<Rightarrow> string + bytes) \<Rightarrow> debugWS Handler" where
  "debugws_handler v enc =
     \<lparr>hInfo = (\<lambda>_. FillInfo v ''debugws'' ''sink''), hConfigure = dw_Configure, hProcess = SinkOnly_Process,
      hEmit = (\<lambda>ev s. case dw_Emit enc ev s of None \<Rightarrow> (Some ''panic'', s) | Some r \<Rightarrow> r), hClose = dw_Close\<rparr>"

interpretation debugws: sink_plugin "debugws_handler v enc" "''debugws''" v for v enc
  by unfold_locales (simp_all add: debugws_handler_def SinkOnly_Process_def)

text \<open>The debug sink takes every event that can be marshalled, whether or not anyone watches: an emit
  never blocks, panics or fails for any other reason, and with room in the hub's queue the packet of
  the event is its last message.\<close>

theorem debug_emit_accepts:
  assumes "dwHub s = Some h" and "hub_ok h" and "enc (pkt_of ev) = Inr data"
  shows "\<exists>h'. dw_Emit enc ev s = Some (None, s\<lparr>dwHub := Some h'\<rparr>) \<and> hub_ok h' \<and>
    chBuf (hbBroadcast h') = chBuf (hbBroadcast h) @ (if length (chBuf (hbBroadcast h)) < 64 then [data] else [])"
proof -
  obtain h' where h': "dw_offer data h = Some h'" "hub_ok h'" using offer_ok [OF assms(2)] by blast
  have "chBuf (hbBroadcast h') = chBuf (hbBroadcast h) @ (if length (chBuf (hbBroadcast h)) < 64 then [data] else [])"
    using h'(1) hub_okD(4,5) [OF assms(2)] by (auto simp: dw_offer_def chan_send_def)
  then show ?thesis using assms(1,3) h' by (intro exI [of _ h']) (simp add: dw_Emit_def)
qed

theorem debug_emit_accepts_witness:
  "\<exists>s h. dw_Emit (\<lambda>_. Inr [7]) \<lparr>ceTimestamp = 0, cePID = 0, ceTID = 0, ceCallID = 0, ceOrigLen = 0, ceCapturedLen = 0,
       ceTruncated = False, ceHookType = 0, cePayload = [], ceContainerID = [], cePodName = [], cePodNamespace = [],
       ceClawguardVersion = [], ceClawguardCommit = [], ceClawguardEdition = [], cePlugins = [], ceFindings = []\<rparr>
       (snd (dw_Configure None s)) = Some (None, h) \<and> map_option (\<lambda>h. chBuf (hbBroadcast h)) (dwHub h) = Some [[7]]"
proof -
  define s :: debugWS where "s = \<lparr>dwHub = None, dwListen = [], dwUiDir = []\<rparr>"
  have "dwHub (snd (dw_Configure None s)) = Some newHub" by (simp add: dw_Configure_def Let_def)
  from debug_emit_accepts [OF this newHub_ok, of "\<lambda>_. Inr [7]"] show ?thesis
    by (fastforce simp: newHub_def)
qed

end
