(* ===== verification/Shipped_Plugins.thy ===== *)
theory Shipped_Plugins
  imports Reload Sink_File Sink_Otel Sink_Debugws
begin

text \<open>
  The plugins of the repository seen from the host: a client started from the binary of one of them
  carries the plugin's own name, whatever its entry in the configuration is called, and the queues of
  the pipeline are registered under that name.
\<close>

lemma shipped_sink_names:
  "starts_plugin env (file_handler v os) (FillInfo v ''file'' ''sink'') bin e \<Longrightarrow>
     \<exists>c hs'. Start env bin e k hs = (Inr c, hs') \<and> pname c = ''file''"
  "starts_plugin env1 (otel_handler v mk shutdown) (FillInfo v ''otel'' ''sink'') bin e \<Longrightarrow>
     \<exists>c hs'. Start env1 bin e k hs1 = (Inr c, hs') \<and> pname c = ''otel''"
  "starts_plugin env2 (debugws_handler v enc) (FillInfo v ''debugws'' ''sink'') bin e \<Longrightarrow>
     \<exists>c hs'. Start env2 bin e k hs2 = (Inr c, hs') \<and> pname c = ''debugws''"
  using file_sink.Start_started_as [of env v os bin e k hs] otel.Start_started_as [of env1 v mk shutdown bin e k hs1]
    debugws.Start_started_as [of env2 v enc bin e k hs2]
  by (fastforce simp: pname_def FillInfo_def)+

lemma shipped_processor_names:
  "starts_plugin env (detect_handler v) (FillInfo v ''detect'' ''processor'') bin e \<Longrightarrow>
     \<exists>c hs'. Start env bin e k hs = (Inr c, hs') \<and> pname c = ''detect''"
  "starts_plugin env (mask_handler v) (FillInfo v ''mask'' ''processor'') bin e \<Longrightarrow>
     \<exists>c hs'. Start env bin e k hs = (Inr c, hs') \<and> pname c = ''mask''"
  using detect.Start_started_as [of env v bin e k hs] mask.Start_started_as [of env v bin e k hs]
  by (fastforce simp: pname_def FillInfo_def)+

text \<open>
  A second entry for the file sink, say with another path, has a worker whose queue is no longer
  registered: the next reload does not return.
\<close>

lemma two_file_sinks_hang:
  assumes "starts_plugin env (file_handler v os) (FillInfo v ''file'' ''sink'') bin1 e1"
    and "starts_plugin env (file_handler v os) (FillInfo v ''file'' ''sink'') bin2 e2"
  shows "\<exists>c1 c2 hs1 hs2. Start env bin1 e1 ''sink'' hs = (Inr c1, hs1) \<and> Start env bin2 e2 ''sink'' hs1 = (Inr c2, hs2) \<and>
    (\<forall>ss as sched. set ss = ran (plSinkQueues (example_pipe [c1, c2])) \<and> set as = ran (plAsyncQueues (example_pipe [c1, c2])) \<longrightarrow>
       AfterReload env ss as sched (example_pipe [c1, c2]) hs2 = None)"
proof -
  obtain c1 hs1 where c1: "Start env bin1 e1 ''sink'' hs = (Inr c1, hs1)" "pname c1 = ''file''"
    using shipped_sink_names(1) [OF assms(1)] by blast
  obtain c2 hs2 where c2: "Start env bin2 e2 ''sink'' hs1 = (Inr c2, hs2)" "pname c2 = ''file''"
    using shipped_sink_names(1) [OF assms(2)] by blast
  let ?q = "newPipeline (example_manager [c1, c2]) 4"
  have q: "quiet ?q" "\<not> plCancelled ?q" using new_quiet by (simp, simp add: newPipeline_def Let_def)
  have "AfterReload env ss as sched (startWorkers ?q) hs2 = None"
    if r: "set ss = ran (plSinkQueues (startWorkers ?q))" "set as = ran (plAsyncQueues (startWorkers ?q))" for ss as sched
  proof -
    note h = started_hidden [OF q(1), where i = 0 and j = 1]
    have n: "plWorkers ?q = []" by (simp add: newPipeline_def Let_def)
    have "stopWorkers env ss as sched (startWorkers ?q) hs2 = None"
      using stop_blocks [of "startWorkers ?q" 0 ss as env sched hs2] startWorkers_ok h c1(2) c2(2) q r n
      by (auto simp: quiet_def startWorkers_obs(5) registered_def)
    then show ?thesis by (simp add: AfterReload_def)
  qed
  then show ?thesis using c1(1) c2(1) unfolding example_pipe_def by blast
qed

end
