(* ===== verification/Sink_Delivery.thy ===== *)
theory Sink_Delivery
  imports Pipeline_Props Sink_File
begin

text \<open>
  The pipeline, the host's client and the plugin's side of the protocol together: a sink process that
  is built with the library has, at every moment, applied exactly the events its worker has taken, in
  order; so when the workers are stopped it has applied every event that was queued for it.
\<close>

section \<open>A sink's state\<close>

definition plugin_emits :: "'s Handler \<Rightarrow> CaptureEvent list \<Rightarrow> 's \<Rightarrow> 's" where
  "plugin_emits h evs s = fold (\<lambda>ev s. snd (hEmit h ev s)) evs s"

text \<open>The messages of an emit survive the encoding and fit into a frame; \<open>E\<close> are the events at hand.\<close>

definition emits_carried :: "codec \<Rightarrow> 's Handler \<Rightarrow> CaptureEvent set \<Rightarrow> bool" where
  "emits_carried cd h E \<longleftrightarrow>
     (\<forall>ev \<in> E. carries (encEvent cd) (decEvent cd) ev \<and>
        (\<forall>i. carries (encRequest cd) (decRequest cd) \<lparr>rqID = i, rqMethod = MethodEmit, rqParams = the (encEvent cd ev)\<rparr>) \<and>
        (\<forall>s err i. fst (hEmit h ev s) = Some err \<longrightarrow> carries (encResponse cd) (decResponse cd) (errResp i err))) \<and>
     (\<forall>i. carries (encResponse cd) (decResponse cd) (statusResp cd i ''ok''))"

lemma emits_carried_mono: "emits_carried cd h E \<Longrightarrow> E' \<subseteq> E \<Longrightarrow> emits_carried cd h E'"
  by (auto simp: emits_carried_def)

text \<open>The process of worker \<open>i\<close> waits for a request, and has applied what the worker has taken.\<close>

definition follows :: "'s Handler \<Rightarrow> 's \<Rightarrow> nat \<Rightarrow> Pipeline \<Rightarrow> 's host \<Rightarrow> bool" where
  "follows h s0 i p hs \<longleftrightarrow>
     (\<exists>cn. hsConns hs (clProc (wkClient (plWorkers p ! i))) = Some cn \<and> idle cn \<and>
        cnPlugin cn = plugin_emits h (wkSeen (plWorkers p ! i)) s0)"

lemma call_other: "q \<noteq> clProc c \<Longrightarrow> hsConns (snd (call env meth params dec z c hs)) q = hsConns hs q"
  by (auto simp: call_def Let_def split: option.splits sum.splits prod.splits)

lemma deliver_other: "q \<noteq> clProc (wkClient w) \<Longrightarrow> hsConns (deliver env w ev hs) q = hsConns hs q"
  by (simp add: deliver_def client_Emit_def client_Process_def call_other split: worker_kind.split)

lemma emit_applied:
  assumes "envPeer env = serve_peer (envCodec env) h" and "emits_carried (envCodec env) h E" and "ev \<in> E"
    and "hsConns hs (clProc c) = Some cn" and "idle cn"
  shows "hsConns (snd (client_Emit env ev c hs)) (clProc c) = Some (cn\<lparr>cnPlugin := snd (hEmit h ev (cnPlugin cn))\<rparr>)"
proof -
  let ?cd = "envCodec env"
  obtain b where b: "encEvent ?cd ev = Some b" "decEvent ?cd b = Some ev"
    using assms(2,3) by (auto simp: emits_carried_def carries_def)
  have req: "carries (encRequest ?cd) (decRequest ?cd) \<lparr>rqID = hsNextID hs (clProc c) + 1, rqMethod = MethodEmit, rqParams = b\<rparr>"
    using assms(2,3) b(1) by (fastforce simp: emits_carried_def)
  obtain err s' where e: "hEmit h ev (cnPlugin cn) = (err, s')" by fastforce
  let ?i = "hsNextID hs (clProc c) + 1"
  have "\<exists>resp. handle ?cd h \<lparr>rqID = ?i, rqMethod = MethodEmit, rqParams = b\<rparr> (cnPlugin cn) = (resp, s') \<and>
      carries (encResponse ?cd) (decResponse ?cd) resp"
  proof (cases err)
    case None
    then show ?thesis
      using assms(2) b(2) e by (simp add: handle_def emits_carried_def)
  next
    case (Some m)
    then have "carries (encResponse ?cd) (decResponse ?cd) (errResp ?i m)"
      using assms(2,3) e by (metis emits_carried_def fst_conv)
    then show ?thesis using b(2) e Some by (simp add: handle_def)
  qed
  then obtain resp where "handle ?cd h \<lparr>rqID = ?i, rqMethod = MethodEmit, rqParams = b\<rparr> (cnPlugin cn) = (resp, s')"
    "carries (encResponse ?cd) (decResponse ?cd) resp" by blast
  note served = call_served [where c = c and hs = hs, OF assms(1,4,5) req this]
  show ?thesis by (simp add: client_Emit_def MarshalParams_def b(1) e served)
qed

section \<open>Runs\<close>

text \<open>What no step changes.\<close>

definition same_clients :: "Pipeline \<Rightarrow> Pipeline \<Rightarrow> bool" where
  "same_clients p p' \<longleftrightarrow> map (\<lambda>w. (wkKind w, wkClient w, wkChan w)) (plWorkers p') = map (\<lambda>w. (wkKind w, wkClient w, wkChan w)) (plWorkers p)"

lemma same_clients_nth:
  assumes "same_clients p p'"
  shows "length (plWorkers p') = length (plWorkers p)" and "j < length (plWorkers p) \<Longrightarrow>
    wkKind (plWorkers p' ! j) = wkKind (plWorkers p ! j) \<and> wkClient (plWorkers p' ! j) = wkClient (plWorkers p ! j) \<and>
    wkChan (plWorkers p' ! j) = wkChan (plWorkers p ! j)"
proof -
  note m = assms [unfolded same_clients_def]
  show len: "length (plWorkers p') = length (plWorkers p)" using map_eq_imp_length_eq [OF m] .
  assume "j < length (plWorkers p)"
  with len arg_cong [OF m, of "\<lambda>xs. xs ! j"] show "wkKind (plWorkers p' ! j) = wkKind (plWorkers p ! j) \<and>
    wkClient (plWorkers p' ! j) = wkClient (plWorkers p ! j) \<and> wkChan (plWorkers p' ! j) = wkChan (plWorkers p ! j)"
    by simp
qed

lemma same_clients_update:
  assumes "(wkKind w, wkClient w, wkChan w) = (wkKind (plWorkers p ! i), wkClient (plWorkers p ! i), wkChan (plWorkers p ! i))"
    and "plWorkers p' = (plWorkers p)[i := w]"
  shows "same_clients p p'"
proof (cases "i < length (plWorkers p)")
  case True
  then show ?thesis using assms by (simp add: same_clients_def map_update list_update_same_conv)
next
  case False
  then show ?thesis using assms(2) by (simp add: same_clients_def list_update_beyond)
qed

lemma worker_step_same: "worker_step env i d p hs = (p', hs') \<Longrightarrow> same_clients p p'"
proof (erule worker_step_cases)
  assume "p' = p" then show ?thesis by (simp add: same_clients_def)
qed (rule same_clients_update; simp add: turn_over_def turn_take_def Let_def)+

definition delivering :: "'s Handler \<Rightarrow> 's \<Rightarrow> nat \<Rightarrow> CaptureEvent set \<Rightarrow> Pipeline \<Rightarrow> 's host \<Rightarrow> bool" where
  "delivering h s0 i E p hs \<longleftrightarrow>
     chans_ok p \<and> distinct (map (clProc \<circ> wkClient) (plWorkers p)) \<and> i < length (plWorkers p) \<and>
     wkKind (plWorkers p ! i) = SinkWorker \<and> follows h s0 i p hs \<and> set (flow p i) \<subseteq> E"

lemma deliveringD:
  assumes "delivering h s0 i E p hs"
  shows "chans_ok p" "distinct (map (clProc \<circ> wkClient) (plWorkers p))" "i < length (plWorkers p)"
    "wkKind (plWorkers p ! i) = SinkWorker" "follows h s0 i p hs" "set (flow p i) \<subseteq> E"
  using assms by (simp_all add: delivering_def)

lemma same_clients_procs: "same_clients p p' \<Longrightarrow> map (clProc \<circ> wkClient) (plWorkers p') = map (clProc \<circ> wkClient) (plWorkers p)"
  unfolding same_clients_def by (drule arg_cong [of _ _ "map (\<lambda>(k, c, ch). clProc c)"]) (simp add: comp_def)

lemma worker_step_delivering:
  assumes d: "delivering h s0 i E p hs" and peer: "envPeer env = serve_peer (envCodec env) h"
    and ca: "emits_carried (envCodec env) h E" and st: "worker_step env j b p hs = (p', hs')"
  shows "delivering h s0 i E p' hs'"
proof -
  note D = deliveringD [OF d]
  note same = worker_step_same [OF st]
  have "follows h s0 i p' hs'"
    using st
  proof (cases rule: worker_step_cases)
    case idle
    then show ?thesis using D(5) by simp
  next
    case finish
    then show ?thesis using D(5) by (cases "i = j") (simp_all add: follows_def turn_over_def)
  next
    case (take ev rest)
    obtain cn where cn: "hsConns hs (clProc (wkClient (plWorkers p ! i))) = Some cn" "idle cn"
      "cnPlugin cn = plugin_emits h (wkSeen (plWorkers p ! i)) s0"
      using D(5) by (auto simp: follows_def)
    show ?thesis
    proof (cases "i = j")
      case True
      then have "ev \<in> E" using D(6) take(2) by (auto simp: flow_def)
      from emit_applied [OF peer ca this cn(1,2)] show ?thesis
        using True D(3,4) cn(2,3) take(4,5)
        by (simp add: follows_def deliver_def turn_take_def Let_def plugin_emits_def idle_def)
    next
      case False
      then have "clProc (wkClient (plWorkers p ! i)) \<noteq> clProc (wkClient (plWorkers p ! j))"
        using D(2,3) take(1) by (auto simp: distinct_conv_nth)
      then show ?thesis
        using False cn take(4,5) by (simp add: follows_def deliver_other turn_take_def Let_def)
    qed
  qed
  then show ?thesis
    using D worker_step_ok(1,10) [OF D(1) st] same_clients_nth [OF same] same_clients_procs [OF same]
    by (simp add: delivering_def)
qed

lemma do_op_delivering:
  assumes d: "delivering h s0 i E p hs" and peer: "envPeer env = serve_peer (envCodec env) h"
    and ca: "emits_carried (envCodec env) h E" and ops: "ops_in [a] p" "set (offered (wkChan (plWorkers p ! i)) [a]) \<subseteq> E"
    and st: "do_op env a (p, hs) = (p', hs')"
  shows "delivering h s0 i E p' hs' \<and> length (plChans p') = length (plChans p) \<and> same_clients p p'"
proof (cases a)
  case (Send pre ev q)
  then have q: "snd q < length (plChans p)" using ops(1) by (simp add: ops_in_def)
  note D = deliveringD [OF d]
  note s = send_or_drop_ok [OF D(1) q, where pre = pre and ev = ev]
  have p': "p' = send_or_drop pre ev q p" "hs' = hs" using st Send by (simp_all add: do_op_def)
  have "set (flow p' i) \<subseteq> E" using D(3,6) ops(2) Send s(10) [of i] p' by auto
  then show ?thesis using D s(1-3) p' by (simp add: delivering_def follows_def same_clients_def)
next
  case (Turn j b)
  then have w: "worker_step env j b p hs = (p', hs')" using st by (simp add: do_op_def)
  then show ?thesis
    using worker_step_delivering [OF d peer ca w] worker_step_ok(9) [OF deliveringD(1) [OF d] w] worker_step_same [OF w] by simp
qed

lemma run_ops_delivering:
  assumes "delivering h s0 i E p hs" and "envPeer env = serve_peer (envCodec env) h" and "emits_carried (envCodec env) h E"
    and "ops_in ops p" and "set (offered (wkChan (plWorkers p ! i)) ops) \<subseteq> E" and "run_ops env ops (p, hs) = (p', hs')"
  shows "delivering h s0 i E p' hs' \<and> same_clients p p'"
  using assms
proof (induction ops arbitrary: p hs)
  case Nil
  then show ?case by (simp add: run_ops_def same_clients_def)
next
  case (Cons a ops)
  obtain p1 hs1 where st: "do_op env a (p, hs) = (p1, hs1)" by fastforce
  have o: "set (offered c [a]) \<subseteq> set (offered c (a # ops))" "set (offered c ops) \<subseteq> set (offered c (a # ops))" for c
    by (cases a; auto)+
  have "ops_in [a] p" "set (offered (wkChan (plWorkers p ! i)) [a]) \<subseteq> E"
    using Cons.prems(4,5) o(1) by (auto simp: ops_in_def)
  note one = do_op_delivering [OF Cons.prems(1-3) this st]
  then have ch: "wkChan (plWorkers p1 ! i) = wkChan (plWorkers p ! i)"
    using same_clients_nth(2) deliveringD(3) [OF Cons.prems(1)] by blast
  have "ops_in ops p" using Cons.prems(4) by (simp add: ops_in_def)
  then have "ops_in ops p1" using one ops_in_cong by blast
  moreover have "set (offered (wkChan (plWorkers p1 ! i)) ops) \<subseteq> E"
    using Cons.prems(5) o(2) ch by auto
  moreover have "run_ops env ops (p1, hs1) = (p', hs')" using Cons.prems(6) st by (simp add: run_ops_def)
  ultimately show ?case
    using Cons.IH [of p1 hs1] Cons.prems(2,3) one by (auto simp: same_clients_def)
qed

lemma offered_turns: "offered c (map (\<lambda>(j, b). Turn j b) sched) = []" "ops_in (map (\<lambda>(j, b). Turn j b) sched) p"
  by (induction sched) (auto simp: ops_in_def)

text \<open>Stopping applies all that was queued.\<close>

lemma stop_applies:
  assumes d: "delivering h s0 i E p hs" and peer: "envPeer env = serve_peer (envCodec env) h" and ca: "emits_carried (envCodec env) h E"
    and stop: "\<not> plCancelled p" "\<not> wkDone (plWorkers p ! i)" "stopWorkers env ss as sched p hs = Some (p', hs')"
  shows "\<exists>cn. hsConns hs' (clProc (wkClient (plWorkers p ! i))) = Some cn \<and> idle cn \<and> cnPlugin cn = plugin_emits h (flow p i) s0"
proof -
  note D = deliveringD [OF d]
  let ?q = "closeQueues ss as p"
  have q: "delivering h s0 i E ?q hs"
    using D closeQueues_ok [OF D(1)] flow_close [OF D(1,3)] by (simp add: delivering_def follows_def closeQueues_obs)
  have "run_workers env sched ?q hs = (p', hs')"
    using stop(3) by (auto simp: stopWorkers_def Let_def split: prod.splits if_splits)
  then have "run_ops env (map (\<lambda>(j, b). Turn j b) sched) (?q, hs) = (p', hs')" by (simp add: run_workers_ops)
  from run_ops_delivering [OF q peer ca offered_turns(2) _ this]
  have r: "delivering h s0 i E p' hs'" "same_clients ?q p'" by (simp_all add: offered_turns)
  have "wkClient (plWorkers p' ! i) = wkClient (plWorkers p ! i)"
    using same_clients_nth(2) [OF r(2)] D(3) by (simp add: closeQueues_obs)
  then show ?thesis
    using deliveringD(5) [OF r(1)] stop_delivers(1) [OF D(1) stop(1,3) D(3) stop(2)] by (simp add: follows_def)
qed

text \<open>While its queue is open and nothing is cancelled, a worker goes on.\<close>

definition awake :: "nat \<Rightarrow> Pipeline \<Rightarrow> bool" where
  "awake i p \<longleftrightarrow> i < length (plWorkers p) \<and> \<not> wkDone (plWorkers p ! i) \<and> \<not> chClosed (plChans p ! wkChan (plWorkers p ! i)) \<and>
     \<not> plCancelled p"

lemma do_op_awake:
  assumes ok: "chans_ok p" and a: "awake i p" and ops: "ops_in [a] p" and st: "do_op env a (p, hs) = (p', hs')"
  shows "chans_ok p' \<and> awake i p' \<and> length (plChans p') = length (plChans p)"
proof (cases a)
  case (Send pre ev q)
  then have "snd q < length (plChans p)" using ops by (simp add: ops_in_def)
  note s = send_or_drop_ok [OF ok this, where pre = pre and ev = ev]
  have "p' = send_or_drop pre ev q p" using st Send by (simp add: do_op_def)
  then show ?thesis using a s(1-3,7,12) chans_okD(4) [OF ok, of i] by (simp add: awake_def)
next
  case (Turn j b)
  then have w: "worker_step env j b p hs = (p', hs')" using st by (simp add: do_op_def)
  have "\<not> wkDone (plWorkers p' ! i)"
    using w
  proof (cases rule: worker_step_cases)
    case finish
    then have "i \<noteq> j" using a by (auto simp: awake_def)
    then show ?thesis using a finish(2) by (simp add: awake_def turn_over_def)
  next
    case (take ev rest)
    then show ?thesis using a by (cases "i = j") (simp_all add: awake_def turn_take_def Let_def)
  qed (use a in \<open>simp add: awake_def\<close>)
  then show ?thesis
    using a worker_step_ok(1,2,7,9,11,12) [OF ok w] chans_okD(4) [OF ok, of i] by (simp add: awake_def)
qed

lemma run_ops_awake:
  "chans_ok p \<Longrightarrow> awake i p \<Longrightarrow> ops_in ops p \<Longrightarrow> run_ops env ops (p, hs) = (p', hs') \<Longrightarrow> awake i p'"
proof (induction ops arbitrary: p hs)
  case (Cons a ops)
  obtain p1 hs1 where st: "do_op env a (p, hs) = (p1, hs1)" by fastforce
  have "ops_in [a] p" "ops_in ops p" using Cons.prems(3) by (simp_all add: ops_in_def)
  from do_op_awake [OF Cons.prems(1,2) this(1) st] this(2) have "chans_ok p1" "awake i p1" "ops_in ops p1"
    using ops_in_cong by blast+
  then show ?case using Cons.IH [of p1 hs1] Cons.prems(4) st by (simp add: run_ops_def)
qed (simp add: run_ops_def)

section \<open>The file sink\<close>

lemma file_plugin_emits: "plugin_emits (file_handler v os) evs s = snd (file_emits os evs s)"
proof (induction evs arbitrary: s)
  case (Cons ev evs)
  then show ?case by (simp add: plugin_emits_def file_handler_def Let_def split: prod.split)
qed (simp add: plugin_emits_def)

text \<open>No marshalling and no write fails.\<close>

definition disk_ok :: "file_os \<Rightarrow> bool" where
  "disk_ok os \<longleftrightarrow> (\<forall>r. \<exists>b. jsonRow os r = Inr b) \<and> (\<forall>c d. snd (osWrite os c d) = None)"

lemma file_emits_no_error: "disk_ok os \<Longrightarrow> fsFile s = Some p \<Longrightarrow> set (fst (file_emits os evs s)) \<subseteq> {None}"
proof (induction evs arbitrary: s)
  case (Cons ev evs)
  obtain err s1 where st: "file_Emit os ev s = (err, s1)" by fastforce
  obtain b where "jsonRow os (file_row ev) = Inr b" using Cons.prems(1) unfolding disk_ok_def by blast
  then have "err = None"
    using st Cons.prems by (simp add: file_Emit_def write_file_def disk_ok_def Let_def split: prod.splits) (metis snd_conv)
  then show ?case
    using Cons.IH [OF Cons.prems(1) file_Emit_obs(1) [OF st Cons.prems(2)]] st
    by (cases "file_emits os evs s1") simp
qed simp

section \<open>Properties\<close>

text \<open>From the queue to the disk: after any interleaving of sends and worker turns, and a stop of the workers,
  a file sink behind the protocol has appended to its file exactly the lines of the events its worker
  had before and of those offered since, in order and none twice, and each offered event that is not
  in the file is one more drop counted for the sink.\<close>

theorem file_sink_logs_events:
  fixes v os
  defines "h \<equiv> file_handler v os"
  assumes "envPeer env = serve_peer (envCodec env) h" and "delivering h s0 i E p hs" and "awake i p"
    and "emits_carried (envCodec env) h E" and "set (offered (wkChan (plWorkers p ! i)) ops) \<subseteq> E"
    and "fsFile s0 = Some path" and "writes_honest os" and "disk_ok os"
    and "ops_in ops p" and "tagged ops tag (wkChan (plWorkers p ! i))" and "run_ops env ops (p, hs) = (p1, hs1)"
    and "stopWorkers env ss as sched p1 hs1 = Some (p2, hs2)"
  shows "\<exists>cn new. hsConns hs2 (clProc (wkClient (plWorkers p ! i))) = Some cn \<and>
    contents (cnPlugin cn) path = contents s0 path @ concat (map (line os) (flow p i @ new)) \<and>
    subseq new (offered (wkChan (plWorkers p ! i)) ops) \<and>
    drops tag p1 + length new = drops tag p + length (offered (wkChan (plWorkers p ! i)) ops)"
proof -
  note D = deliveringD [OF assms(3)]
  note r = run_ops_delivering [OF assms(3,2,5,10,6,12)]
  have c1: "wkClient (plWorkers p1 ! i) = wkClient (plWorkers p ! i)" using same_clients_nth(2) r D(3) by blast
  have aw: "\<not> plCancelled p1" "\<not> wkDone (plWorkers p1 ! i)"
    using run_ops_awake [OF D(1) assms(4,10,12)] by (simp_all add: awake_def)
  obtain cn where cn: "hsConns hs2 (clProc (wkClient (plWorkers p ! i))) = Some cn" "cnPlugin cn = plugin_emits h (flow p1 i) s0"
    using stop_applies [OF _ assms(2,5) aw assms(13)] r c1 by metis
  obtain new where new: "flow p1 i = flow p i @ new" "subseq new (offered (wkChan (plWorkers p ! i)) ops)"
    "drops tag p1 + length new = drops tag p + length (offered (wkChan (plWorkers p ! i)) ops)"
    by (rule take_subseq_flow [OF D(1) assms(10) D(3) assms(12,11)])
  obtain errs s2 where e: "file_emits os (flow p1 i) s0 = (errs, s2)" by fastforce
  have "set errs \<subseteq> {None}" using file_emits_no_error [OF assms(9,7), of "flow p1 i"] e by simp
  then have "contents s2 path = contents s0 path @ concat (map (line os) (flow p1 i))"
    using file_emits_append [OF assms(7) e] assms(8) by blast
  moreover have "cnPlugin cn = s2" using cn(2) e by (simp add: h_def file_plugin_emits)
  ultimately show ?thesis using cn(1) new by metis
qed

text \<open>Messages with eight bytes for the number of the request.\<close>

definition id_bytes :: "u64 \<Rightarrow> bytes" where
  "id_bytes i = put_be32 (ucast (drop_bit 32 i)) @ put_be32 (ucast i)"

definition bytes_id :: "bytes \<Rightarrow> u64" where
  "bytes_id b = or (push_bit 32 (ucast (Uint32 (take 4 b)))) (ucast (Uint32 (drop 4 b)))"

lemma bytes_id_bytes [simp]: "bytes_id (id_bytes i) = i" "id_bytes i \<noteq> []" "length (id_bytes i) = 8"
proof -
  have len: "length (put_be32 v) = 4" for v by (simp add: put_be32_def put_le32_def)
  then show l: "length (id_bytes i) = 8" by (simp add: id_bytes_def)
  then show "id_bytes i \<noteq> []" by auto
  have "or (push_bit 32 (ucast (ucast (drop_bit 32 i) :: u32))) (ucast (ucast i :: u32)) = i"
    by (rule bit_word_eqI) (auto simp: bit_simps)
  then show "bytes_id (id_bytes i) = i"
    by (simp add: bytes_id_def id_bytes_def len get_put_be32)
qed

definition emit_codec :: "CaptureEvent \<Rightarrow> codec" where
  "emit_codec ev =
     \<lparr>encRequest = (\<lambda>r. Some (id_bytes (rqID r))),
      decRequest = (\<lambda>b. Some \<lparr>rqID = bytes_id b, rqMethod = MethodEmit, rqParams = [3]\<rparr>),
      encResponse = (\<lambda>r. Some ((if rsOK r then 1 else if rsError r = ''not a sink'' then 3 else 2) # id_bytes (rsID r))),
      decResponse = (\<lambda>b. Some (if hd b = 1 then okResp (bytes_id (tl b)) [5]
         else errResp (bytes_id (tl b)) (if hd b = 3 then ''not a sink'' else ''file sink not configured''))),
      encInfo = (\<lambda>_. None), decInfo = (\<lambda>_. None), encConfig = (\<lambda>_. None), decConfig = (\<lambda>_. None),
      encEvent = (\<lambda>_. Some [3]), decEvent = (\<lambda>_. Some ev), encStatus = (\<lambda>_. Some [5]), decStatus = (\<lambda>_. Some []),
      decErrorText = (\<lambda>_ _. []), encErrorText = (\<lambda>_. [])\<rparr>"

lemma emit_codec_carries: "emits_carried (emit_codec ev) (file_handler no_build example_os) {ev}"
proof -
  have e: "fst (file_Emit example_os ev s) = Some err \<Longrightarrow> err = ''file sink not configured''" for s err
    by (auto simp: file_Emit_def example_os_def write_file_def split: option.splits)
  show ?thesis
    by (auto simp: emits_carried_def carries_def emit_codec_def frame_fits_def file_handler_def statusResp_def dest: e)
qed

definition file_env :: "fileSink env" where
  "file_env = \<lparr>envCodec = emit_codec zeroEvent, envPeer = serve_peer (emit_codec zeroEvent) (file_handler no_build example_os),
     envSpawn = (\<lambda>_. None), envStat = (\<lambda>_. None), envLookPath = (\<lambda>_. None), envJoin = (\<lambda>a b. a @ b)\<rparr>"

definition file_state :: fileSink where
  "file_state = \<lparr>fsPath = ''f'', fsFile = Some ''f'', fsDisk = [''f'' \<mapsto> [9, 10]]\<rparr>"

definition file_host :: "fileSink host" where
  "file_host = \<lparr>hsConns = [3 \<mapsto> \<lparr>cnStdin = \<lparr>wrOut = [], wrLimit = None\<rparr>, cnStdout = [], cnPlugin = file_state\<rparr>],
     hsNextID = (\<lambda>_. 0), hsNext = 4\<rparr>"

lemma file_pipe_obs:
  fixes c defines "p \<equiv> example_pipe [c]"
  shows "plWorkers p = [worker_for SinkWorker c 0]" and "plChans p = [make_chan 4]" and "\<not> plCancelled p"
    and "plDropped p = []" and "plQueueSize p = 4"
proof -
  have n: "plWorkers (newPipeline m 4) = []" "plChans (newPipeline m 4) = []" "plQueueSize (newPipeline m 4) = 4"
    "plDropped (newPipeline m 4) = []" "\<not> plCancelled (newPipeline m 4)" for m
    by (simp_all add: newPipeline_def Let_def)
  show "plWorkers p = [worker_for SinkWorker c 0]" "plChans p = [make_chan 4]" "\<not> plCancelled p"
    unfolding p_def example_pipe_def startWorkers_obs by (simp_all add: n)
  show "plDropped p = []" "plQueueSize p = 4"
    by (simp_all add: p_def example_pipe_def startWorkers_def start_worker_def n Let_def)
qed

theorem file_sink_logs_events_witness:
  "\<exists>p1 hs1 sched p2 hs2 cn.
     run_ops file_env [Send [] zeroEvent (''a'', 0)] (example_pipe [example_client ''a'' 3], file_host) = (p1, hs1) \<and>
     stopWorkers file_env [0] [] sched p1 hs1 = Some (p2, hs2) \<and> hsConns hs2 3 = Some cn \<and>
     contents (cnPlugin cn) ''f'' = [9, 10, 7, 10]"
proof -
  let ?p = "example_pipe [example_client ''a'' 3]" and ?ops = "[Send [] zeroEvent (''a'', 0)]"
  let ?h = "file_handler no_build example_os"
  note o = file_pipe_obs [of "example_client ''a'' 3"]
  have w: "plWorkers ?p ! 0 = worker_for SinkWorker (example_client ''a'' 3) 0" by (simp add: o(1))
  have cp: "clProc (example_client ''a'' 3) = 3" by (simp add: example_client_def)
  have peer: "envPeer file_env = serve_peer (envCodec file_env) ?h" by (simp add: file_env_def)
  have d: "delivering ?h file_state 0 {zeroEvent} ?p file_host"
    by (simp add: delivering_def example_pipe_ok follows_def flow_def o(1,2) worker_for_def make_chan_def plugin_emits_def
        file_host_def idle_def cp)
  have a: "awake 0 ?p" using o(3) by (simp add: awake_def o(1,2) worker_for_def make_chan_def)
  have ca: "emits_carried (envCodec file_env) ?h {zeroEvent}" by (simp add: file_env_def emit_codec_carries)
  have ops: "ops_in ?ops ?p" "tagged ?ops ''a'' (wkChan (plWorkers ?p ! 0))" "set (offered (wkChan (plWorkers ?p ! 0)) ?ops) \<subseteq> {zeroEvent}"
    by (simp_all add: ops_in_def o(1,2) tagged_def worker_for_def)
  have ok: "writes_honest example_os" "disk_ok example_os" by (simp_all add: writes_honest_def disk_ok_def example_os_def)
  have s: "fsFile file_state = Some ''f''" by (simp add: file_state_def)
  obtain p1 hs1 where r: "run_ops file_env ?ops (?p, file_host) = (p1, hs1)" by fastforce
  have p1: "p1 = send_or_drop [] zeroEvent (''a'', 0) ?p" using r by (simp add: run_ops_def do_op_def)
  have so: "send_ok 0 ?p" by (simp add: send_ok_def o(2) make_chan_def)
  note sd = send_or_drop_ok [OF example_pipe_ok [of "[example_client ''a'' 3]"], where q = "(''a'', 0)" and pre = "[]" and ev = zeroEvent, folded p1]
  have len: "0 < length (plChans ?p)" by (simp add: o(2))
  have "\<exists>sched p2 hs2. stopWorkers file_env [0] [] sched p1 hs1 = Some (p2, hs2)"
    using sd len by (intro stop_returns) (simp_all add: o(1) worker_for_def)
  then obtain sched p2 hs2 where st: "stopWorkers file_env [0] [] sched p1 hs1 = Some (p2, hs2)" by blast
  have "drops ''a'' p1 = drops ''a'' ?p" using sd so len by (simp add: drops_def)
  with file_sink_logs_events [OF peer d a ca ops(3) s ok ops(1,2) r st] w obtain cn new where
    "hsConns hs2 3 = Some cn" "contents (cnPlugin cn) ''f'' = [9, 10] @ concat (map (line example_os) new)" "length new = 1"
    by (auto simp: worker_for_def cp flow_def o(2) make_chan_def contents_def file_state_def)
  moreover from this(3) have "concat (map (line example_os) new) = [7, 10]"
    by (cases new) (simp_all add: line_def example_os_def)
  ultimately show ?thesis using r st by auto
qed

end
