(* ===== verification/Agent.thy ===== *)
theory Agent
  imports Capture_Props Sink_Delivery Reload
begin

text \<open>
  The running program: the goroutine of the read loop, which emits every complete write into the
  pipeline before it reads on, and the workers of the pipeline, which take turns with it. A step is one
  sample of the ring buffer or one turn of a worker. Turns that fall into the middle of an emit touch
  other queues and other processes, and are the same before or after it; \<open>World\<close> has the parts of an emit as
  steps of their own, beside which the manager can be reloaded. \<open>agTrail\<close> records each event
  with what the synchronous processors made of it.
\<close>

section \<open>Processes of several kinds\<close>

text \<open>The processes behind one host: a process runs the binary its state belongs to.\<close>

definition plug_sum :: "'a Handler \<Rightarrow> 'b Handler \<Rightarrow> ('a + 'b) Handler" where
  "plug_sum h1 h2 =
     \<lparr>hInfo = (\<lambda>s. case s of Inl a \<Rightarrow> hInfo h1 a | Inr b \<Rightarrow> hInfo h2 b),
      hConfigure = (\<lambda>cfg s. case s of Inl a \<Rightarrow> map_prod id Inl (hConfigure h1 cfg a) | Inr b \<Rightarrow> map_prod id Inr (hConfigure h2 cfg b)),
      hProcess = (\<lambda>ev s. case s of
         Inl a \<Rightarrow> map_prod id (map_prod id Inl) (hProcess h1 ev a) | Inr b \<Rightarrow> map_prod id (map_prod id Inr) (hProcess h2 ev b)),
      hEmit = (\<lambda>ev s. case s of Inl a \<Rightarrow> map_prod id Inl (hEmit h1 ev a) | Inr b \<Rightarrow> map_prod id Inr (hEmit h2 ev b)),
      hClose = (\<lambda>s. case s of Inl a \<Rightarrow> map_prod id Inl (hClose h1 a) | Inr b \<Rightarrow> map_prod id Inr (hClose h2 b))\<rparr>"

lemma plug_sum_emits [simp]:
  "plugin_emits (plug_sum h1 h2) evs (Inl a) = Inl (plugin_emits h1 evs a)"
  "plugin_emits (plug_sum h1 h2) evs (Inr b) = Inr (plugin_emits h2 evs b)"
proof -
  show "plugin_emits (plug_sum h1 h2) evs (Inl a) = Inl (plugin_emits h1 evs a)"
    by (induction evs arbitrary: a) (simp_all add: plugin_emits_def plug_sum_def)
  show "plugin_emits (plug_sum h1 h2) evs (Inr b) = Inr (plugin_emits h2 evs b)"
    by (induction evs arbitrary: b) (simp_all add: plugin_emits_def plug_sum_def)
qed

section \<open>Steps\<close>

record 'p agent =
  agLoop :: loopState
  agPipe :: Pipeline
  agHost :: "'p host"
  agTrail :: "(CaptureEvent \<times> CaptureEvent) list"

datatype action = Sampled iterInput bytes | Turned nat bool

text \<open>A range over the two maps of queues goes through their entries in some order.\<close>

definition ranges :: "Pipeline \<Rightarrow> (string \<times> nat) list \<Rightarrow> (string \<times> nat) list \<Rightarrow> bool" where
  "ranges p sinks asyncs \<longleftrightarrow> distinct sinks \<and> distinct asyncs \<and>
     set sinks = Map.graph (plSinkQueues p) \<and> set asyncs = Map.graph (plAsyncQueues p)"

text \<open>The calls of \<^verbatim>\<open>Emit\<close> for the events of one iteration (there is at most one).\<close>

inductive emit_all :: "BuildInfo \<Rightarrow> 'p env \<Rightarrow> CaptureEvent list \<Rightarrow> Pipeline \<times> 'p host \<Rightarrow>
    (CaptureEvent \<times> CaptureEvent) list \<Rightarrow> Pipeline \<times> 'p host \<Rightarrow> bool" for v env where
  none: "emit_all v env [] s [] s"
| emit: "ranges p sinks asyncs \<Longrightarrow> run_sync env (SyncProcessors (plMgr p)) (stamp v (plMgr p) ev) hs = (cur, hs0) \<Longrightarrow>
    emit_all v env evs (pipeline_Emit v env sinks asyncs (Some ev) p hs) tr s' \<Longrightarrow>
    emit_all v env (ev # evs) (p, hs) ((ev, cur) # tr) s'"

definition new_events :: "loopState \<Rightarrow> loopState \<Rightarrow> CaptureEvent list" where
  "new_events s s' = drop (length (emitted s)) (emitted s')"

inductive agent_step :: "BuildInfo \<Rightarrow> 'p env \<Rightarrow> time \<Rightarrow> 'p agent \<Rightarrow> action \<Rightarrow> 'p agent \<Rightarrow> bool" for v env ttl where
  sampled: "s' = handle_sample ttl inp raw (agLoop a) \<Longrightarrow>
    emit_all v env (new_events (agLoop a) s') (agPipe a, agHost a) tr (p', hs') \<Longrightarrow>
    agent_step v env ttl a (Sampled inp raw) \<lparr>agLoop = s', agPipe = p', agHost = hs', agTrail = agTrail a @ tr\<rparr>"
| turned: "worker_step env i d (agPipe a) (agHost a) = (p', hs') \<Longrightarrow>
    agent_step v env ttl a (Turned i d) (a\<lparr>agPipe := p', agHost := hs'\<rparr>)"

inductive agent_run :: "BuildInfo \<Rightarrow> 'p env \<Rightarrow> time \<Rightarrow> 'p agent \<Rightarrow> action list \<Rightarrow> 'p agent \<Rightarrow> bool" for v env ttl where
  start: "agent_run v env ttl a [] a"
| step: "agent_step v env ttl a x b \<Longrightarrow> agent_run v env ttl b xs c \<Longrightarrow> agent_run v env ttl a (x # xs) c"

inductive_cases emit_all_NilE: "emit_all v env [] s tr s'"
inductive_cases emit_all_ConsE: "emit_all v env (ev # evs) s tr s'"
inductive_cases agent_step_SampledE: "agent_step v env ttl a (Sampled inp raw) b"
inductive_cases agent_step_TurnedE: "agent_step v env ttl a (Turned i d) b"

text \<open>The samples of a run.\<close>

fun samples :: "action list \<Rightarrow> (iterInput \<times> bytes) list" where
  "samples [] = []"
| "samples (Sampled inp raw # xs) = (inp, raw) # samples xs"
| "samples (Turned i d # xs) = samples xs"

section \<open>The read loop in the program\<close>

lemma sample_emits:
  assumes "loop_ok s"
  shows "\<exists>es. emitted (handle_sample ttl inp raw s) = emitted s @ es \<and> length es \<le> 1"
proof (cases "accepted raw")
  case None
  then show ?thesis by (simp add: handle_sample_accepted)
next
  case (Some ev)
  have "\<not> invalid_fragment ev" using accepted_valid [OF Some] by blast
  note ok = handle_fragment_ok [OF assms this, of inp]
  have "\<exists>es. emitted (handle_fragment inp ev s) = emitted s @ es \<and> length es \<le> 1"
    by (cases rule: handle_fragment_cases [of inp ev s]) (auto split: option.split)
  then show ?thesis
    using maybeCleanup_refines(2) [OF ok] Some by (simp add: handle_sample_accepted)
qed

lemma new_events_app: "emitted s' = emitted s @ es \<Longrightarrow> new_events s s' = es"
  by (simp add: new_events_def)

section \<open>The pipeline in the program\<close>

lemma do_op_queues:
  assumes "do_op env a s = s'"
  shows "plSinkQueues (fst s') = plSinkQueues (fst s)" and "plAsyncQueues (fst s') = plAsyncQueues (fst s)"
    and "plMgr (fst s') = plMgr (fst s)"
proof -
  have "plSinkQueues (fst s') = plSinkQueues (fst s) \<and> plAsyncQueues (fst s') = plAsyncQueues (fst s) \<and> plMgr (fst s') = plMgr (fst s)"
  proof (cases a)
    case (Send pre ev q)
    then show ?thesis using assms by (auto simp: do_op_def send_or_drop_eq)
  next
    case (Turn i d)
    then have st: "worker_step env i d (fst s) (snd s) = (fst s', snd s')" using assms by (simp add: do_op_def)
    then show ?thesis by (cases rule: worker_step_cases) (simp_all add: turn_over_def turn_take_def Let_def)
  qed
  then show "plSinkQueues (fst s') = plSinkQueues (fst s)" "plAsyncQueues (fst s') = plAsyncQueues (fst s)"
    "plMgr (fst s') = plMgr (fst s)" by blast+
qed

lemma run_ops_queues:
  "plSinkQueues (fst (run_ops env ops s)) = plSinkQueues (fst s) \<and> plAsyncQueues (fst (run_ops env ops s)) = plAsyncQueues (fst s) \<and>
   plMgr (fst (run_ops env ops s)) = plMgr (fst s)"
proof (induction ops arbitrary: s)
  case (Cons a ops)
  then show ?case using do_op_queues [OF refl, of env a s] by (simp add: run_ops_def)
qed (simp add: run_ops_def)

text \<open>The queue of worker \<open>i\<close> is registered under \<open>tag\<close> and nowhere else.\<close>

definition own_queue :: "nat \<Rightarrow> string \<Rightarrow> Pipeline \<Rightarrow> bool" where
  "own_queue i tag p \<longleftrightarrow>
     (\<forall>n. plSinkQueues p n = Some (wkChan (plWorkers p ! i)) \<longleftrightarrow> n = tag) \<and>
     wkChan (plWorkers p ! i) \<notin> ran (plAsyncQueues p) \<and> (\<forall>n \<in> dom (plAsyncQueues p). ''processor:'' @ n \<noteq> tag) \<and>
     (\<forall>c \<in> registered p. c < length (plChans p))"

lemma offered_sends: "offered c (map (Send pre cur) qs @ ops) = replicate (length (filter (\<lambda>q. snd q = c) qs)) cur @ offered c ops"
  by (induction qs) auto

lemma emit_ops_in:
  assumes "ranges p sinks asyncs" and "\<forall>c \<in> registered p. c < length (plChans p)"
  shows "ops_in (emit_ops cur sinks asyncs) p"
proof -
  have "plSinkQueues p (fst q) = Some (snd q) \<or> plAsyncQueues p (fst q) = Some (snd q)" if "q \<in> set sinks \<union> set asyncs" for q
    using that assms(1) by (cases q) (auto simp: ranges_def dest: in_graphD)
  then have "snd q \<in> registered p" if "q \<in> set sinks \<union> set asyncs" for q
    using that unfolding registered_def by (blast intro: ranI)
  then show ?thesis using assms(2) by (fastforce simp: ops_in_def emit_ops_def)
qed

lemma offered_emit:
  assumes "ranges p sinks asyncs" and "own_queue i tag p"
  shows "offered (wkChan (plWorkers p ! i)) (emit_ops cur sinks asyncs) = [cur]"
    and "tagged (emit_ops cur sinks asyncs) tag (wkChan (plWorkers p ! i))" and "ops_in (emit_ops cur sinks asyncs) p"
proof -
  let ?c = "wkChan (plWorkers p ! i)"
  have q: "q \<in> set sinks \<longleftrightarrow> plSinkQueues p (fst q) = Some (snd q)" "q \<in> set asyncs \<longleftrightarrow> plAsyncQueues p (fst q) = Some (snd q)" for q
    using assms(1) by (cases q; simp add: ranges_def in_graphD; auto simp: Map.graph_def)+
  have "{q \<in> set sinks. snd q = ?c} = {(tag, ?c)}"
    using assms(2) by (auto simp: q own_queue_def)
  then have "length (filter (\<lambda>q. snd q = ?c) sinks) = 1"
    using assms(1) distinct_card [of "filter (\<lambda>q. snd q = ?c) sinks"] by (simp add: ranges_def)
  moreover have "filter (\<lambda>q. snd q = ?c) asyncs = []"
    using assms(2) by (auto simp: filter_empty_conv q own_queue_def ran_def)
  ultimately show "offered ?c (emit_ops cur sinks asyncs) = [cur]"
    using offered_sends [of ?c "''processor:''" cur asyncs "[]"] by (simp add: emit_ops_def offered_sends)
  have "b = ?c" if "plSinkQueues p tag = Some b" for b
    using assms(2) that unfolding own_queue_def by (metis option.inject)
  then show "tagged (emit_ops cur sinks asyncs) tag ?c"
    using assms(2) by (auto simp: tagged_def emit_ops_def q own_queue_def ran_def dom_def)
  show "ops_in (emit_ops cur sinks asyncs) p" using emit_ops_in [OF assms(1)] assms(2) by (simp add: own_queue_def)
qed

lemma run_sync_other:
  "\<forall>c \<in> set procs. clProc c \<noteq> q \<Longrightarrow> run_sync env procs ev hs = (cur, hs') \<Longrightarrow> hsConns hs' q = hsConns hs q"
proof (induction procs arbitrary: ev hs)
  case (Cons c procs)
  obtain r hs1 where c: "client_Process env ev c hs = (r, hs1)" by fastforce
  have "hsConns hs1 q = hsConns hs q"
    using Cons.prems(1) c call_other [of q c env] unfolding client_Process_def by (metis list.set_intros(1) snd_conv)
  then show ?case using Cons.IH Cons.prems c by (cases r) auto
qed simp

text \<open>Worker \<open>i\<close> is a sink whose process follows, and the synchronous processors are other processes.\<close>

definition sink_ready :: "'s Handler \<Rightarrow> 's \<Rightarrow> nat \<Rightarrow> string \<Rightarrow> CaptureEvent set \<Rightarrow> Pipeline \<Rightarrow> 's host \<Rightarrow> bool" where
  "sink_ready h s0 i tag E p hs \<longleftrightarrow> delivering h s0 i E p hs \<and> awake i p \<and> own_queue i tag p \<and>
     (\<forall>c \<in> set (SyncProcessors (plMgr p)). clProc c \<noteq> clProc (wkClient (plWorkers p ! i)))"

lemma sink_ready_ops:
  assumes r: "sink_ready h s0 i tag E p hs" and peer: "envPeer env = serve_peer (envCodec env) h" "emits_carried (envCodec env) h E"
    and ops: "ops_in ops p" "tagged ops tag (wkChan (plWorkers p ! i))" "set (offered (wkChan (plWorkers p ! i)) ops) \<subseteq> E"
    and run: "run_ops env ops (p, hs) = (p', hs')"
  shows "sink_ready h s0 i tag E p' hs' \<and> plMgr p' = plMgr p \<and> wkClient (plWorkers p' ! i) = wkClient (plWorkers p ! i) \<and>
    (\<exists>new. flow p' i = flow p i @ new \<and> subseq new (offered (wkChan (plWorkers p ! i)) ops) \<and>
      drops tag p' + length new = drops tag p + length (offered (wkChan (plWorkers p ! i)) ops))"
proof -
  have d: "delivering h s0 i E p hs" and a: "awake i p" using r by (simp_all add: sink_ready_def)
  note D = deliveringD [OF d]
  note r1 = run_ops_delivering [OF d peer ops(1,3) run]
  have same: "wkClient (plWorkers p' ! i) = wkClient (plWorkers p ! i)" "wkChan (plWorkers p' ! i) = wkChan (plWorkers p ! i)"
    using same_clients_nth(2) r1 D(3) by blast+
  note f = run_ops_flow [OF D(1) ops(1) D(3) run ops(2)]
  note aw = run_ops_awake [OF D(1) a ops(1) run]
  have q: "plSinkQueues p' = plSinkQueues p" "plAsyncQueues p' = plAsyncQueues p" "plMgr p' = plMgr p"
    using run_ops_queues [of env ops "(p, hs)"] run by simp_all
  then have "own_queue i tag p'" using r f same by (simp add: sink_ready_def own_queue_def registered_def)
  then show ?thesis using r r1 aw q(3) same f by (simp add: sink_ready_def)
qed

lemma sink_ready_emit:
  assumes r: "sink_ready h s0 i tag E p hs" and peer: "envPeer env = serve_peer (envCodec env) h" "emits_carried (envCodec env) h E"
    and rg: "ranges p sinks asyncs" and cur: "run_sync env (SyncProcessors (plMgr p)) (stamp v (plMgr p) ev) hs = (cur, hs0)" "cur \<in> E"
    and em: "pipeline_Emit v env sinks asyncs (Some ev) p hs = (p', hs')"
  shows "sink_ready h s0 i tag E p' hs' \<and> plMgr p' = plMgr p \<and> wkClient (plWorkers p' ! i) = wkClient (plWorkers p ! i) \<and>
    (\<exists>new. flow p' i = flow p i @ new \<and> subseq new [cur] \<and> drops tag p' + length new = drops tag p + 1)"
proof -
  have own: "own_queue i tag p" using r by (simp add: sink_ready_def)
  note o = offered_emit [OF rg own, of cur]
  have "hsConns hs0 (clProc (wkClient (plWorkers p ! i))) = hsConns hs (clProc (wkClient (plWorkers p ! i)))"
    using run_sync_other [OF _ cur(1)] r by (simp add: sink_ready_def)
  then have r0: "sink_ready h s0 i tag E p hs0"
    using r by (simp add: sink_ready_def delivering_def follows_def)
  have "run_ops env (emit_ops cur sinks asyncs) (p, hs0) = (p', hs')"
    using em pipeline_Emit_ops [OF cur(1)] by simp
  from sink_ready_ops [OF r0 peer o(3,2) _ this] show ?thesis using cur(2) by (simp add: o(1))
qed

section \<open>Runs of the program\<close>

text \<open>What a run adds to the trail and to the flow of worker \<open>i\<close>.\<close>

definition advanced :: "nat \<Rightarrow> string \<Rightarrow> (CaptureEvent \<times> CaptureEvent) list \<Rightarrow> Pipeline \<Rightarrow> Pipeline \<Rightarrow> bool" where
  "advanced i tag tr p p' \<longleftrightarrow> plMgr p' = plMgr p \<and> wkClient (plWorkers p' ! i) = wkClient (plWorkers p ! i) \<and>
     (\<exists>new. flow p' i = flow p i @ new \<and> subseq new (map snd tr) \<and> drops tag p' + length new = drops tag p + length tr)"

lemma advanced_refl: "advanced i tag [] p p"
  by (simp add: advanced_def)

lemma advanced_trans:
  assumes "advanced i tag tr1 p p1" and "advanced i tag tr2 p1 p2"
  shows "advanced i tag (tr1 @ tr2) p p2"
proof -
  obtain n1 where n1: "flow p1 i = flow p i @ n1" "subseq n1 (map snd tr1)" "drops tag p1 + length n1 = drops tag p + length tr1"
    using assms(1) by (auto simp: advanced_def)
  obtain n2 where n2: "flow p2 i = flow p1 i @ n2" "subseq n2 (map snd tr2)" "drops tag p2 + length n2 = drops tag p1 + length tr2"
    using assms(2) by (auto simp: advanced_def)
  show ?thesis
    using assms n1 n2 by (auto simp: advanced_def intro!: exI [of _ "n1 @ n2"] list_emb_append_mono)
qed

lemma emit_all_ready:
  assumes "emit_all v env evs (p, hs) tr (p', hs')" and "sink_ready h s0 i tag E p hs"
    and "envPeer env = serve_peer (envCodec env) h" "emits_carried (envCodec env) h E" and "snd ` set tr \<subseteq> E"
  shows "sink_ready h s0 i tag E p' hs' \<and> map fst tr = evs \<and> advanced i tag tr p p' \<and>
    (SyncProcessors (plMgr p) = [] \<longrightarrow> (\<forall>(e, cur) \<in> set tr. cur = stamp v (plMgr p) e))"
  using assms
proof (induction evs arbitrary: p hs tr)
  case Nil
  from Nil.prems(1) show ?case using Nil.prems(2) by (cases rule: emit_all_NilE) (auto simp: advanced_refl)
next
  case (Cons ev evs)
  from Cons.prems(1) obtain sinks asyncs cur hs0 tra where st: "ranges p sinks asyncs"
    "run_sync env (SyncProcessors (plMgr p)) (stamp v (plMgr p) ev) hs = (cur, hs0)" "tr = (ev, cur) # tra"
    "emit_all v env evs (pipeline_Emit v env sinks asyncs (Some ev) p hs) tra (p', hs')"
    by (auto elim: emit_all_ConsE)
  obtain p1 hs1 where em: "pipeline_Emit v env sinks asyncs (Some ev) p hs = (p1, hs1)" by fastforce
  have one: "sink_ready h s0 i tag E p1 hs1 \<and> plMgr p1 = plMgr p \<and> wkClient (plWorkers p1 ! i) = wkClient (plWorkers p ! i) \<and>
      (\<exists>new. flow p1 i = flow p i @ new \<and> subseq new [cur] \<and> drops tag p1 + length new = drops tag p + 1)"
    using sink_ready_emit [OF Cons.prems(2-4) st(1,2) _ em] Cons.prems(5) st(3) by simp
  then have adv: "advanced i tag [(ev, cur)] p p1" by (simp add: advanced_def)
  have "sink_ready h s0 i tag E p' hs' \<and> map fst tra = evs \<and> advanced i tag tra p1 p' \<and>
      (SyncProcessors (plMgr p1) = [] \<longrightarrow> (\<forall>(e, cur) \<in> set tra. cur = stamp v (plMgr p1) e))"
    using Cons.IH [OF _ _ Cons.prems(3,4), of p1 hs1 tra] one Cons.prems(5) st(3,4) em by simp
  moreover have "SyncProcessors (plMgr p) = [] \<longrightarrow> cur = stamp v (plMgr p) ev" using st(2) by auto
  ultimately show ?case
    using advanced_trans [OF adv, of tra p'] one st(3) by simp
qed

lemma agent_run_trail: "agent_run v env ttl a xs b \<Longrightarrow> set (agTrail a) \<subseteq> set (agTrail b)"
proof (induction rule: agent_run.induct)
  case (step a x b xs c)
  from step.hyps(1) have "set (agTrail a) \<subseteq> set (agTrail b)" by (cases rule: agent_step.cases) auto
  then show ?case using step.IH by blast
qed simp

lemma agent_run_ready:
  assumes "agent_run v env ttl a xs b" and "sink_ready h s0 i tag E (agPipe a) (agHost a)" and "loop_ok (agLoop a)"
    and "envPeer env = serve_peer (envCodec env) h" "emits_carried (envCodec env) h E" and "snd ` set (agTrail b) \<subseteq> E"
  shows "sink_ready h s0 i tag E (agPipe b) (agHost b) \<and> agLoop b = run_samples ttl (samples xs) (agLoop a) \<and>
    (\<exists>tr. agTrail b = agTrail a @ tr \<and> emitted (agLoop b) = emitted (agLoop a) @ map fst tr \<and>
       advanced i tag tr (agPipe a) (agPipe b) \<and>
       (SyncProcessors (plMgr (agPipe a)) = [] \<longrightarrow> (\<forall>(e, cur) \<in> set tr. cur = stamp v (plMgr (agPipe a)) e)))"
  using assms
proof (induction rule: agent_run.induct)
  case (start a)
  then show ?case by (simp add: run_samples_def advanced_refl)
next
  case (step a x b xs c)
  let ?done = "\<lambda>a ys b. \<exists>tr. agTrail b = agTrail a @ tr \<and> emitted (agLoop b) = emitted (agLoop a) @ map fst tr \<and>
       advanced i tag tr (agPipe a) (agPipe b) \<and>
       (SyncProcessors (plMgr (agPipe a)) = [] \<longrightarrow> (\<forall>(e, cur) \<in> set tr. cur = stamp v (plMgr (agPipe a)) e))"
  have E: "snd ` set (agTrail b) \<subseteq> E" using agent_run_trail [OF step.hyps(2)] step.prems(5) by blast
  have one: "sink_ready h s0 i tag E (agPipe b) (agHost b) \<and> agLoop b = run_samples ttl (samples [x]) (agLoop a) \<and> loop_ok (agLoop b) \<and>
      ?done a [x] b"
  proof (cases x)
    case (Sampled inp raw)
    from step.hyps(1) obtain tr p' hs' where b: "emit_all v env (new_events (agLoop a) (handle_sample ttl inp raw (agLoop a)))
        (agPipe a, agHost a) tr (p', hs')"
      "b = \<lparr>agLoop = handle_sample ttl inp raw (agLoop a), agPipe = p', agHost = hs', agTrail = agTrail a @ tr\<rparr>"
      unfolding Sampled by (auto elim: agent_step_SampledE)
    obtain es where es: "emitted (handle_sample ttl inp raw (agLoop a)) = emitted (agLoop a) @ es"
      using sample_emits [OF step.prems(2)] by metis
    have "snd ` set tr \<subseteq> E" using E b(2) by auto
    from emit_all_ready [OF b(1) step.prems(1,3,4) this] show ?thesis
      using es b(2) handle_sample_ok [OF step.prems(2)] Sampled
      by (simp add: new_events_app [OF es] run_samples_def)
  next
    case (Turned j d)
    obtain p' hs' where b: "b = a\<lparr>agPipe := p', agHost := hs'\<rparr>" "worker_step env j d (agPipe a) (agHost a) = (p', hs')"
      using step.hyps(1) unfolding Turned by (rule agent_step_TurnedE)
    then have "run_ops env [Turn j d] (agPipe a, agHost a) = (p', hs')" by (simp add: run_ops_def do_op_def)
    from sink_ready_ops [OF step.prems(1,3,4) _ _ _ this] show ?thesis
      using b(1) step.prems(2) Turned
      by (simp add: ops_in_def tagged_def run_samples_def advanced_def)
  qed
  then obtain tr1 where tr1: "agTrail b = agTrail a @ tr1" "emitted (agLoop b) = emitted (agLoop a) @ map fst tr1"
    "advanced i tag tr1 (agPipe a) (agPipe b)"
    "SyncProcessors (plMgr (agPipe a)) = [] \<longrightarrow> (\<forall>(e, cur) \<in> set tr1. cur = stamp v (plMgr (agPipe a)) e)" by blast
  have o: "sink_ready h s0 i tag E (agPipe b) (agHost b)" "loop_ok (agLoop b)" using one by blast+
  note ih = step.IH [OF o step.prems(3,4,5)]
  then obtain tr2 where tr2: "agTrail c = agTrail b @ tr2" "emitted (agLoop c) = emitted (agLoop b) @ map fst tr2"
    "advanced i tag tr2 (agPipe b) (agPipe c)"
    "SyncProcessors (plMgr (agPipe b)) = [] \<longrightarrow> (\<forall>(e, cur) \<in> set tr2. cur = stamp v (plMgr (agPipe b)) e)"
    by blast
  have mgr: "plMgr (agPipe b) = plMgr (agPipe a)" using tr1(3) by (simp add: advanced_def)
  have "agLoop c = run_samples ttl (samples (x # xs)) (agLoop a)"
    using ih one by (cases x) (simp_all add: run_samples_def)
  moreover have "?done a (x # xs) c"
    using tr1 tr2 advanced_trans [OF tr1(3) tr2(3)] mgr by (intro exI [of _ "tr1 @ tr2"]) auto
  ultimately show ?case using ih one by blast
qed

text \<open>Without synchronous processors the trail is known: every event, stamped.\<close>

lemma emit_all_plain:
  "emit_all v env evs (p, hs) tr s' \<Longrightarrow> SyncProcessors (plMgr p) = [] \<Longrightarrow>
     tr = map (\<lambda>e. (e, stamp v (plMgr p) e)) evs \<and> plMgr (fst s') = plMgr p"
proof (induction evs arbitrary: p hs tr)
  case Nil
  from Nil.prems(1) show ?case by (cases rule: emit_all_NilE) auto
next
  case (Cons ev evs)
  from Cons.prems(1) obtain sinks asyncs cur hs0 tra where st: "tr = (ev, cur) # tra"
    "run_sync env (SyncProcessors (plMgr p)) (stamp v (plMgr p) ev) hs = (cur, hs0)"
    "emit_all v env evs (pipeline_Emit v env sinks asyncs (Some ev) p hs) tra s'"
    by (auto elim: emit_all_ConsE)
  obtain p1 hs1 where em: "pipeline_Emit v env sinks asyncs (Some ev) p hs = (p1, hs1)" by fastforce
  have "plMgr p1 = plMgr p"
    using run_ops_queues [of env "emit_ops cur sinks asyncs" "(p, hs0)"] pipeline_Emit_ops [OF st(2), of sinks asyncs] em
    by (metis fst_conv)
  then show ?case using Cons.IH [of p1 hs1 tra] st em Cons.prems(2) by simp
qed

lemma agent_run_plain:
  assumes "agent_run v env ttl a xs b" and "loop_ok (agLoop a)" and "SyncProcessors (plMgr (agPipe a)) = []"
  shows "agLoop b = run_samples ttl (samples xs) (agLoop a) \<and>
    (\<exists>es. emitted (agLoop b) = emitted (agLoop a) @ es \<and> agTrail b = agTrail a @ map (\<lambda>e. (e, stamp v (plMgr (agPipe a)) e)) es)"
  using assms
proof (induction rule: agent_run.induct)
  case (start a)
  then show ?case by (simp add: run_samples_def)
next
  case (step a x b xs c)
  have one: "loop_ok (agLoop b) \<and> plMgr (agPipe b) = plMgr (agPipe a) \<and> agLoop b = run_samples ttl (samples [x]) (agLoop a) \<and>
      (\<exists>es. emitted (agLoop b) = emitted (agLoop a) @ es \<and> agTrail b = agTrail a @ map (\<lambda>e. (e, stamp v (plMgr (agPipe a)) e)) es)"
  proof (cases x)
    case (Sampled inp raw)
    from step.hyps(1) obtain tr p' hs' where b: "emit_all v env (new_events (agLoop a) (handle_sample ttl inp raw (agLoop a)))
        (agPipe a, agHost a) tr (p', hs')"
      "b = \<lparr>agLoop = handle_sample ttl inp raw (agLoop a), agPipe = p', agHost = hs', agTrail = agTrail a @ tr\<rparr>"
      unfolding Sampled by (auto elim: agent_step_SampledE)
    obtain es where es: "emitted (handle_sample ttl inp raw (agLoop a)) = emitted (agLoop a) @ es"
      using sample_emits [OF step.prems(1)] by metis
    show ?thesis
      using emit_all_plain [OF b(1) step.prems(2)] handle_sample_ok [OF step.prems(1)] es b(2) Sampled
      by (simp add: new_events_app [OF es] run_samples_def)
  next
    case (Turned j d)
    obtain p' hs' where b: "b = a\<lparr>agPipe := p', agHost := hs'\<rparr>" "worker_step env j d (agPipe a) (agHost a) = (p', hs')"
      using step.hyps(1) unfolding Turned by (rule agent_step_TurnedE)
    then have "do_op env (Turn j d) (agPipe a, agHost a) = (p', hs')" by (simp add: do_op_def)
    from do_op_queues(3) [OF this] show ?thesis using b(1) step.prems(1) Turned by (simp add: run_samples_def)
  qed
  then have "loop_ok (agLoop b)" "SyncProcessors (plMgr (agPipe b)) = []" using step.prems(2) by metis+
  note ih = step.IH [OF this]
  have "agLoop c = run_samples ttl (samples (x # xs)) (agLoop a)"
    using ih one by (cases x) (simp_all add: run_samples_def)
  then show ?case using ih one by auto
qed

section \<open>The program never gets stuck\<close>

definition finite_queues :: "Pipeline \<Rightarrow> bool" where
  "finite_queues p \<longleftrightarrow> finite (dom (plSinkQueues p)) \<and> finite (dom (plAsyncQueues p))"

lemma finite_queues_ops: "run_ops env ops (p, hs) = (p', hs') \<Longrightarrow> finite_queues p' = finite_queues p"
  using run_ops_queues [of env ops "(p, hs)"] by (simp add: finite_queues_def)

lemma ranges_exist:
  assumes "finite_queues p"
  obtains sinks asyncs where "ranges p sinks asyncs"
proof -
  have "finite (Map.graph (plSinkQueues p))" "finite (Map.graph (plAsyncQueues p))"
    using assms by (simp_all add: finite_queues_def finite_graph_iff_finite_dom)
  from this [THEN finite_distinct_list] show thesis using that by (auto simp: ranges_def)
qed

lemma emit_all_total: "finite_queues p \<Longrightarrow> \<exists>tr p' hs'. emit_all v env evs (p, hs) tr (p', hs') \<and> finite_queues p'"
proof (induction evs arbitrary: p hs)
  case Nil
  then show ?case by (blast intro: none)
next
  case (Cons ev evs)
  obtain sinks asyncs where rg: "ranges p sinks asyncs" using ranges_exist [OF Cons.prems] .
  obtain cur hs0 where cur: "run_sync env (SyncProcessors (plMgr p)) (stamp v (plMgr p) ev) hs = (cur, hs0)" by fastforce
  obtain p1 hs1 where em: "pipeline_Emit v env sinks asyncs (Some ev) p hs = (p1, hs1)" by fastforce
  have "finite_queues p1"
    using finite_queues_ops [OF trans [OF pipeline_Emit_ops [OF cur, symmetric] em]] Cons.prems by simp
  from Cons.IH [OF this, of hs1] show ?case using emit [OF rg cur, of evs] em by metis
qed

lemma agent_run_total: "finite_queues (agPipe a) \<Longrightarrow> \<exists>b. agent_run v env ttl a xs b"
proof (induction xs arbitrary: a)
  case Nil
  then show ?case by (blast intro: start)
next
  case (Cons x xs)
  have "\<exists>b. agent_step v env ttl a x b \<and> finite_queues (agPipe b)"
  proof (cases x)
    case (Sampled inp raw)
    obtain tr p' hs' where "emit_all v env (new_events (agLoop a) (handle_sample ttl inp raw (agLoop a))) (agPipe a, agHost a) tr (p', hs')"
      "finite_queues p'" using emit_all_total [OF Cons.prems] by blast
    then show ?thesis using sampled [OF refl] Sampled by (metis select_convs(2))
  next
    case (Turned i d)
    obtain p' hs' where st: "worker_step env i d (agPipe a) (agHost a) = (p', hs')" by fastforce
    have "run_ops env [Turn i d] (agPipe a, agHost a) = (p', hs')" using st by (simp add: run_ops_def do_op_def)
    then have "finite_queues p'" using finite_queues_ops Cons.prems by blast
    then show ?thesis using turned [OF st] Turned by (intro exI [of _ "a\<lparr>agPipe := p', agHost := hs'\<rparr>"]) simp
  qed
  then show ?case using Cons.IH step by metis
qed

section \<open>Properties\<close>

text \<open>C2: From the application's memory to the disk. A hooked write is captured under the conditions of the end-to-end
  property: less than 2 GiB, memory mapped up to the end of its last whole chunk, all its records and no other sample of its key arriving, a
  free chunk for every sample, and the run within the time to live. The records come in any order, mixed with samples of
  other keys and with turns of the workers in any order, without a reload. The file sink is running: its queue is
  registered under its name, its process waits for requests and is no synchronous processor, and the events that are
  emitted survive the encoding. Then the loop makes one event of the bytes the application passed, cut at the captured
  length; whatever the synchronous processors make of it is offered to the file sink once (without processors: that
  event, stamped); and on a disk whose writes do not fail, unless the sink's queue dropped an event or still
  holds some, its line is in the file, whose former contents are untouched.\<close>

theorem captured_write_on_disk:
  fixes mem max_cap pid_tgid now_ns cs buf num hook v os i and other :: "'o Handler" and a b :: "(fileSink + 'o) agent"
  defines "h \<equiv> plug_sum (file_handler v os) other" and "k \<equiv> call_key pid_tgid now_ns cs buf num"
    and "w \<equiv> plWorkers (agPipe a) ! i" and "p \<equiv> agPipe a" and "q \<equiv> agPipe b"
  assumes call: "0 < num" "num \<le> 0x7fffffff" "buf \<noteq> 0" "mapped mem buf (512 * frag_total (captured_len max_cap num))"
    and del: "delivers ttl t0 k (call_samples mem max_cap pid_tgid now_ns cs buf num hook) (samples xs) (agLoop a)"
    and run: "agent_run v env ttl a xs b"
    and ready: "sink_ready h (Inl s0) i tag E p (agHost a)" and peer: "envPeer env = serve_peer (envCodec env) h"
    and codec: "emits_carried (envCodec env) h E" "snd ` set (agTrail b) \<subseteq> E"
    and disk: "fsFile s0 = Some path" "writes_honest os" "disk_ok os"
  shows "\<exists>e cur cn s. events_of k (emitted (agLoop b)) = events_of k (emitted (agLoop a)) @ [e] \<and>
    cePayload e = user_bytes mem buf (captured_len max_cap num) \<and> ceOrigLen e = word_of_nat num \<and>
    (e, cur) \<in> set (agTrail b) \<and> (SyncProcessors (plMgr p) = [] \<longrightarrow> cur = stamp v (plMgr p) e) \<and>
    hsConns (agHost b) (clProc (wkClient w)) = Some cn \<and> cnPlugin cn = Inl s \<and> prefix (contents s0 path) (contents s path) \<and>
    (drops tag q = drops tag p \<and> chBuf (plChans q ! wkChan (plWorkers q ! i)) = [] \<longrightarrow>
      (\<exists>pre post. contents s path = contents s0 path @ pre @ line os cur @ post))"
proof -
  have ok: "loop_ok (agLoop a)" using del by (simp add: delivers_def)
  note r = agent_run_ready [OF run ready [unfolded p_def] ok peer codec]
  then have loop: "agLoop b = run_samples ttl (samples xs) (agLoop a)" by blast
  obtain tr where tr: "agTrail b = agTrail a @ tr" "emitted (agLoop b) = emitted (agLoop a) @ map fst tr" "advanced i tag tr p q"
    "SyncProcessors (plMgr p) = [] \<longrightarrow> (\<forall>(e, cur) \<in> set tr. cur = stamp v (plMgr p) e)"
    using r unfolding p_def q_def by blast
  obtain e where e: "events_of k (emitted (agLoop b)) = events_of k (emitted (agLoop a)) @ [e]"
    "cePayload e = user_bytes mem buf (captured_len max_cap num)" "ceOrigLen e = word_of_nat num"
    using capture_call [OF call del [unfolded k_def]] loop unfolding k_def by metis
  then have "events_of k (map fst tr) = [e]" using tr(2) by (simp add: events_of_append)
  then have "e \<in> set (events_of k (map fst tr))" by simp
  then have "e \<in> set (map fst tr)" unfolding events_of_def by simp
  then obtain cur where cur: "(e, cur) \<in> set tr" by auto
  have "follows h (Inl s0) i q (agHost b)" using r deliveringD(5) by (auto simp: sink_ready_def q_def)
  then obtain cn where cn: "hsConns (agHost b) (clProc (wkClient w)) = Some cn"
    "cnPlugin cn = plugin_emits h (wkSeen (plWorkers q ! i)) (Inl s0)"
    using tr(3) by (auto simp: follows_def advanced_def w_def p_def)
  obtain errs s where em: "file_emits os (wkSeen (plWorkers q ! i)) s0 = (errs, s)" by fastforce
  have s: "cnPlugin cn = Inl s" using cn(2) em by (simp add: h_def file_plugin_emits)
  have "set errs \<subseteq> {None}" using file_emits_no_error [OF disk(3,1), of "wkSeen (plWorkers q ! i)"] em by simp
  then have c: "contents s path = contents s0 path @ concat (map (line os) (wkSeen (plWorkers q ! i)))"
    using file_emits_append [OF disk(1) em] disk(2) by blast
  have "\<exists>pre post. contents s path = contents s0 path @ pre @ line os cur @ post"
    if none: "drops tag q = drops tag p" "chBuf (plChans q ! wkChan (plWorkers q ! i)) = []"
  proof -
    obtain new where new: "flow q i = flow p i @ new" "subseq new (map snd tr)" "drops tag q + length new = drops tag p + length tr"
      using tr(3) by (auto simp: advanced_def)
    then have "new = map snd tr" using none(1) by (intro subseq_same_length) simp_all
    then have "cur \<in> set (wkSeen (plWorkers q ! i))" using new(1) none(2) cur by (force simp: flow_def)
    then obtain xs ys where "wkSeen (plWorkers q ! i) = xs @ cur # ys" by (meson split_list)
    then show ?thesis using c by auto
  qed
  then show ?thesis using e cur cn(1) s c tr(1,4) by (intro exI [of _ e] exI [of _ cur] exI [of _ cn] exI [of _ s]) auto
qed

text \<open>A run of the program over one write.\<close>

lemma example_one_event:
  obtains e where "emitted (run_samples 5 (example_run example_memory) example_loop) = [e]"
    and "cePayload e = user_bytes example_memory 4096 700"
proof -
  let ?k = "call_key 7 100 Map.empty 4096 700" and ?xs = "example_run example_memory"
  let ?s = "run_samples 5 ?xs example_loop"
  have len: "captured_len 0 700 = 700" by (simp add: captured_len_def)
  have "mapped example_memory 4096 (512 * frag_total (captured_len 0 700))"
    by (simp add: mapped_def example_memory_def)
  note call = capture_call [OF _ _ _ this example_delivers]
  obtain e where e: "events_of ?k (emitted ?s) = [e]" "cePayload e = user_bytes example_memory 4096 700"
    by (rule call) (simp_all add: len example_loop_obs events_of_def)
  have del: "loop_ok example_loop" "length ?xs \<le> free_count example_loop"
    "\<forall>(inp, raw) \<in> set ?xs. 1000000000 \<le> tkLast inp \<and> tkNow inp - 1000000000 \<le> 5"
    using example_delivers by (simp_all add: delivers_def)
  have none: "events_of k' (emitted ?s) = []" if "k' \<noteq> ?k" for k'
  proof -
    have "\<exists>ev. decode_sslEvent raw = Some ev \<and> keyOf ev = ?k" if "(inp, raw) \<in> set ?xs" for inp raw
      using that call_samples_decode [where mem = example_memory and max_cap = 0 and hook = 1 and raw = raw]
      by (auto simp: example_run_def)
    then have "samples_of k' ?xs = []" using that by (fastforce simp: samples_of_def filter_empty_conv)
    then have "key_frags k' ?xs = []" using key_frags_samples [of k' ?xs] by simp
    then show ?thesis
      using run_samples_key [OF del, of k'] by (simp add: example_loop_obs events_of_def)
  qed
  have "RKey (cePID x) (ceTID x) (ceCallID x) = ?k" if "x \<in> set (emitted ?s)" for x
    using none [of "RKey (cePID x) (ceTID x) (ceCallID x)"] that by (auto simp: events_of_def filter_empty_conv)
  then have "events_of ?k (emitted ?s) = emitted ?s" by (simp add: events_of_def)
  then show thesis using e by (intro that [of e]) simp_all
qed

definition both_handlers :: "(fileSink + unit) Handler" where
  "both_handlers = plug_sum (file_handler no_build example_os) (mask_handler no_build)"

definition agent_env :: "CaptureEvent \<Rightarrow> (fileSink + unit) env" where
  "agent_env cur = \<lparr>envCodec = emit_codec cur, envPeer = serve_peer (emit_codec cur) both_handlers,
     envSpawn = (\<lambda>_. None), envStat = (\<lambda>_. None), envLookPath = (\<lambda>_. None), envJoin = (\<lambda>a b. a @ b)\<rparr>"

definition example_agent :: "(fileSink + unit) agent" where
  "example_agent = \<lparr>agLoop = example_loop, agPipe = example_pipe [example_client ''a'' 3],
     agHost = \<lparr>hsConns = [3 \<mapsto> \<lparr>cnStdin = \<lparr>wrOut = [], wrLimit = None\<rparr>, cnStdout = [], cnPlugin = Inl file_state\<rparr>],
       hsNextID = (\<lambda>_. 0), hsNext = 4\<rparr>, agTrail = []\<rparr>"

definition example_actions :: "action list" where
  "example_actions = map (\<lambda>(inp, raw). Sampled inp raw) (example_run example_memory) @ [Turned 0 False]"

lemma samples_example: "samples example_actions = example_run example_memory"
proof -
  have "samples (map (\<lambda>(inp, raw). Sampled inp raw) xs @ [Turned 0 False]) = xs" for xs
    by (induction xs) auto
  then show ?thesis by (simp add: example_actions_def)
qed

lemma both_carried: "emits_carried (emit_codec cur) both_handlers {cur}"
proof -
  have e: "file_Emit example_os ev s = (Some err, s') \<Longrightarrow> err = ''file sink not configured''" for ev s err s'
    by (auto simp: file_Emit_def example_os_def write_file_def split: option.splits)
  show ?thesis
    by (auto simp: emits_carried_def carries_def emit_codec_def frame_fits_def both_handlers_def plug_sum_def file_handler_def
        mask_handler_def ProcessorOnly_Emit_def statusResp_def errResp_def okResp_def map_prod_def split: prod.splits sum.splits dest: e)
qed

lemma example_queues:
  "plSinkQueues (example_pipe [c]) = [pname c \<mapsto> 0]" "plAsyncQueues (example_pipe [c]) = Map.empty"
  unfolding example_pipe_def startWorkers_obs by (simp_all add: newPipeline_def Let_def queue_map_def)

lemma example_ready: "sink_ready both_handlers (Inl file_state) 0 ''a'' E (agPipe example_agent) (agHost example_agent)"
proof -
  let ?c = "example_client ''a'' 3"
  let ?p = "example_pipe [?c]"
  note o = file_pipe_obs [of ?c] example_queues [of ?c] example_pipe_obs(3) [of "[?c]"]
  have cp: "clProc ?c = 3" "pname ?c = ''a''" by (simp_all add: example_client_def pname_def)
  have d: "delivering both_handlers (Inl file_state) 0 E ?p (agHost example_agent)"
    by (simp add: delivering_def example_pipe_ok follows_def flow_def o(1,2) worker_for_def make_chan_def plugin_emits_def
        example_agent_def idle_def cp)
  have a: "awake 0 ?p" using o(3) by (simp add: awake_def o(1,2) worker_for_def make_chan_def)
  have "own_queue 0 ''a'' ?p"
    by (simp add: own_queue_def o(1,2,6,7) cp worker_for_def registered_def)
  then show ?thesis using d a by (simp add: sink_ready_def example_agent_def o(8))
qed

theorem captured_write_on_disk_witness:
  "\<exists>cur b e. agent_run no_build (agent_env cur) 5 example_agent example_actions b \<and> agTrail b = [(e, cur)] \<and>
     cePayload e = user_bytes example_memory 4096 700 \<and> cur = stamp no_build (example_manager [example_client ''a'' 3]) e"
proof -
  obtain e where e: "emitted (run_samples 5 (example_run example_memory) example_loop) = [e]" by (rule example_one_event)
  let ?m = "example_manager [example_client ''a'' 3]"
  define cur where "cur = stamp no_build ?m e"
  have len: "captured_len 0 700 = 700" by (simp add: captured_len_def)
  have call: "(0::nat) < 700" "(700::nat) \<le> 0x7fffffff" "(4096::u64) \<noteq> 0"
    "mapped example_memory 4096 (512 * frag_total (captured_len 0 700))"
    by (simp_all add: mapped_def example_memory_def)
  have fq: "finite_queues (agPipe example_agent)" by (simp add: example_agent_def finite_queues_def example_queues)
  obtain b where run: "agent_run no_build (agent_env cur) 5 example_agent example_actions b"
    using agent_run_total [OF fq] by blast
  have peer: "envPeer (agent_env cur) = serve_peer (envCodec (agent_env cur)) both_handlers" by (simp add: agent_env_def)
  have mgr: "plMgr (agPipe example_agent) = ?m" by (simp add: example_agent_def example_pipe_obs)
  have plain: "SyncProcessors (plMgr (agPipe example_agent)) = []" by (simp add: mgr)
  have ag: "agLoop example_agent = example_loop" "agTrail example_agent = []" by (simp_all add: example_agent_def)
  have tr: "agTrail b = [(e, cur)]"
    using agent_run_plain [OF run _ plain] e by (auto simp: ag samples_example example_loop_ok example_loop_obs mgr cur_def)
  have E: "emits_carried (envCodec (agent_env cur)) both_handlers {cur}" "snd ` set (agTrail b) \<subseteq> {cur}"
    by (simp_all add: agent_env_def both_carried tr)
  have disk: "fsFile file_state = Some ''f''" "writes_honest example_os" "disk_ok example_os"
    by (simp_all add: file_state_def writes_honest_def disk_ok_def example_os_def)
  have del: "delivers 5 1000000000 (call_key 7 100 Map.empty 4096 700) (call_samples example_memory 0 7 100 Map.empty 4096 700 1)
      (samples example_actions) (agLoop example_agent)"
    unfolding samples_example ag(1) by (rule example_delivers)
  from captured_write_on_disk [OF call del run
      example_ready [unfolded both_handlers_def] peer [unfolded both_handlers_def] E [unfolded both_handlers_def] disk]
  obtain e' cur' where "(e', cur') \<in> set (agTrail b)" "cePayload e' = user_bytes example_memory 4096 700"
    "cur' = stamp no_build (plMgr (agPipe example_agent)) e'" using plain len by auto
  then show ?thesis using run tr mgr by auto
qed

end
