(* ===== verification/Plugin_Boot.thy ===== *)
theory Plugin_Boot
  imports Plugin_Manager
begin

text \<open>
  What a load leaves behind when the plugins are built with the library: each client has its process,
  which has been configured with the settings of its entry, reported no error, and waits for a request.
\<close>

section \<open>Info and Configure are carried\<close>

definition boot_carried :: "codec \<Rightarrow> 's Handler \<Rightarrow> PluginConfig \<Rightarrow> 's \<Rightarrow> bool" where
  "boot_carried cd h cfg s \<longleftrightarrow>
     (\<exists>b. encConfig cd cfg = Some b \<and> b \<noteq> [] \<and> decConfig cd b = Some cfg) \<and>
     (\<forall>i. \<forall>req \<in> {\<lparr>rqID = i, rqMethod = MethodInfo, rqParams = []\<rparr>,
                   \<lparr>rqID = i, rqMethod = MethodConfigure, rqParams = the (encConfig cd cfg)\<rparr>}.
        carries (encRequest cd) (decRequest cd) req \<and> carries (encResponse cd) (decResponse cd) (fst (handle cd h req s)))"

lemma handle_Info_state: "rqMethod req = MethodInfo \<Longrightarrow> snd (handle cd h req s) = s"
  by (simp add: handle_def Let_def split: option.split)

lemma handle_Configure:
  assumes "decConfig cd b = Some cfg" and "b \<noteq> []" and "hConfigure h cfg s = (err, s')"
  shows "handle cd h \<lparr>rqID = i, rqMethod = MethodConfigure, rqParams = b\<rparr> s =
    (case err of Some m \<Rightarrow> errResp i m | None \<Rightarrow> statusResp cd i ''ok'', s')"
  using assms by (simp add: handle_def MethodConfigure_def MethodInfo_def split: option.split)

text \<open>A call that is carried changes only the state of its own process.\<close>

lemma call_carried:
  assumes peer: "envPeer env = serve_peer (envCodec env) h" and conn: "hsConns hs (clProc c) = Some cn" "idle cn"
    and req: "\<And>i. carries (encRequest (envCodec env)) (decRequest (envCodec env)) \<lparr>rqID = i, rqMethod = meth, rqParams = raw\<rparr>"
    and resp: "\<And>i. carries (encResponse (envCodec env)) (decResponse (envCodec env))
      (fst (handle (envCodec env) h \<lparr>rqID = i, rqMethod = meth, rqParams = raw\<rparr> (cnPlugin cn)))"
    and run: "call env meth (Some raw) dec z c hs = (r, hs')"
  shows "\<exists>i resp s'. handle (envCodec env) h \<lparr>rqID = i, rqMethod = meth, rqParams = raw\<rparr> (cnPlugin cn) = (resp, s') \<and>
    hsConns hs' = (hsConns hs)(clProc c \<mapsto> cn\<lparr>cnPlugin := s'\<rparr>) \<and> (\<not> rsOK resp \<longrightarrow> r = Inl (PluginError (rsError resp)))"
proof -
  let ?i = "hsNextID hs (clProc c) + 1"
  obtain rp s' where h: "handle (envCodec env) h \<lparr>rqID = ?i, rqMethod = meth, rqParams = raw\<rparr> (cnPlugin cn) = (rp, s')" by fastforce
  then have rp: "carries (encResponse (envCodec env)) (decResponse (envCodec env)) rp" using resp [of ?i] by simp
  note c = call_served [OF peer conn req h rp, of dec z]
  show ?thesis using c run h by (intro exI [of _ ?i] exI [of _ rp] exI [of _ s']) auto
qed

section \<open>One plugin\<close>

lemma Start_booted:
  assumes peer: "envPeer env = serve_peer (envCodec env) h" and spawn: "envSpawn env bin = Some cn" "idle cn"
    and carried: "boot_carried (envCodec env) h (eSettings e) (cnPlugin cn)"
    and start: "Start env bin e kind hs = (Inr c, hs')"
  obtains s where "hConfigure h (eSettings e) (cnPlugin cn) = (None, s)"
    and "hsConns hs' = (hsConns hs)(clProc c \<mapsto> cn\<lparr>cnPlugin := s\<rparr>)"
proof -
  let ?cd = "envCodec env"
  define c0 where "c0 = \<lparr>clName = eName e, clKind = kind, clMode = (if kind = ''processor'' then EffectiveMode e else []),
      clInfo = zeroInfo, clProc = hsNext hs\<rparr>"
  have p0: "clProc c0 = hsNext hs" by (simp add: c0_def)
  obtain b where b: "encConfig ?cd (eSettings e) = Some b" "b \<noteq> []" "decConfig ?cd b = Some (eSettings e)"
    using carried by (auto simp: boot_carried_def)
  have car: "carries (encRequest ?cd) (decRequest ?cd) \<lparr>rqID = i, rqMethod = MethodInfo, rqParams = []\<rparr>"
    "carries (encResponse ?cd) (decResponse ?cd) (fst (handle ?cd h \<lparr>rqID = i, rqMethod = MethodInfo, rqParams = []\<rparr> (cnPlugin cn)))"
    "carries (encRequest ?cd) (decRequest ?cd) \<lparr>rqID = i, rqMethod = MethodConfigure, rqParams = b\<rparr>"
    "carries (encResponse ?cd) (decResponse ?cd) (fst (handle ?cd h \<lparr>rqID = i, rqMethod = MethodConfigure, rqParams = b\<rparr> (cnPlugin cn)))" for i
    using carried b(1) by (simp_all add: boot_carried_def)
  obtain ri hs1 where info: "client_Info env c0 (spawned hs cn) = (ri, hs1)" by fastforce
  have conn: "hsConns (spawned hs cn) (clProc c0) = Some cn" by (simp add: p0 spawned_def)
  obtain i0 rp0 s0 where r0: "handle ?cd h \<lparr>rqID = i0, rqMethod = MethodInfo, rqParams = []\<rparr> (cnPlugin cn) = (rp0, s0)"
    "hsConns hs1 = (hsConns (spawned hs cn))(clProc c0 \<mapsto> cn\<lparr>cnPlugin := s0\<rparr>)"
    using call_carried [OF peer conn spawn(2) car(1,2) info [unfolded client_Info_def MarshalParams_def option.case]] by blast
  have "s0 = cnPlugin cn"
    using r0(1) handle_Info_state [of "\<lparr>rqID = i0, rqMethod = MethodInfo, rqParams = []\<rparr>" ?cd h "cnPlugin cn"] by simp
  then have h1: "hsConns hs1 = (hsConns hs)(hsNext hs \<mapsto> cn)" using r0(2) p0 by (simp add: spawned_def)
  note start = start [unfolded Start_def spawn(1) option.case Let_def, folded spawned_def, folded c0_def, unfolded info prod.case]
  obtain inf where inf: "ri = Inr inf" "\<not> (piAPIVersion inf \<noteq> [] \<and> piAPIVersion inf \<noteq> APIVersion)"
    using start by (auto split: sum.splits if_splits)
  define c2 where "c2 = c0\<lparr>clInfo := inf\<rparr>"
  define c3 where "c3 = (if piName (clInfo c2) = [] then c2\<lparr>clInfo := (clInfo c2)\<lparr>piName := eName e\<rparr>\<rparr> else c2)"
  define c4 where "c4 = (if piKind (clInfo c3) = [] then c3\<lparr>clInfo := (clInfo c3)\<lparr>piKind := kind\<rparr>\<rparr> else c3)"
  have p4: "clProc c4 = hsNext hs" by (simp add: c4_def c3_def c2_def c0_def)
  obtain rc hs2 where conf: "client_Configure env (eSettings e) c4 hs1 = (rc, hs2)" by fastforce
  have "(case rc of Inl err \<Rightarrow> (Inl (ConfigureError err), Kill c4 hs2) | Inr st \<Rightarrow> (Inr c4, hs2)) = (Inr c, hs')"
    by (rule start [unfolded inf(1) sum.case if_not_P [OF inf(2)], folded c2_def, folded c3_def, folded c4_def, unfolded conf prod.case])
  then have c: "c = c4" "hs' = hs2" "\<exists>st. rc = Inr st" by (auto split: sum.splits)
  have conn1: "hsConns hs1 (clProc c4) = Some cn" by (simp add: h1 p4)
  obtain i resp s' where r: "handle ?cd h \<lparr>rqID = i, rqMethod = MethodConfigure, rqParams = b\<rparr> (cnPlugin cn) = (resp, s')"
    "hsConns hs2 = (hsConns hs1)(clProc c4 \<mapsto> cn\<lparr>cnPlugin := s'\<rparr>)" "rsOK resp"
    using call_carried [OF peer conn1 spawn(2) car(3,4) conf [unfolded client_Configure_def MarshalParams_def b(1) option.case]] c(3)
    by blast
  obtain err s where s: "hConfigure h (eSettings e) (cnPlugin cn) = (err, s)" by fastforce
  have "err = None \<and> s' = s"
    using r(1,3) handle_Configure [OF b(3,2) s, of i] by (cases err) (auto simp: errResp_def)
  then show thesis using that [of s] s r(2) h1 p4 c(1,2) by simp
qed

section \<open>A load\<close>

text \<open>The process of client \<open>c\<close> was spawned for entry \<open>e\<close> and has taken its settings.\<close>

definition booted :: "'s env \<Rightarrow> 's Handler \<Rightarrow> string \<Rightarrow> string \<Rightarrow> 's host \<Rightarrow> PluginEntry \<Rightarrow> Client \<Rightarrow> bool" where
  "booted env h dir kind hs e c \<longleftrightarrow>
     (\<exists>bin cn s. ResolveBinary env dir e kind = Some bin \<and> envSpawn env bin = Some cn \<and> idle cn \<and>
        hConfigure h (eSettings e) (cnPlugin cn) = (None, s) \<and> hsConns hs (clProc c) = Some (cn\<lparr>cnPlugin := s\<rparr>))"

definition bootable :: "'s env \<Rightarrow> 's Handler \<Rightarrow> string \<Rightarrow> string \<Rightarrow> PluginEntry \<Rightarrow> bool" where
  "bootable env h dir kind e \<longleftrightarrow>
     (\<forall>bin cn. ResolveBinary env dir e kind = Some bin \<and> envSpawn env bin = Some cn \<longrightarrow>
        idle cn \<and> boot_carried (envCodec env) h (eSettings e) (cnPlugin cn))"

lemma load_entries_booted:
  assumes "load_entries env dir kind es cs hs = (Loaded cs', hs')" and "host_ok hs"
    and peer: "envPeer env = serve_peer (envCodec env) h" and "\<forall>e \<in> set es. bootable env h dir kind e"
  shows "\<exists>new. cs' = cs @ new \<and> list_all2 (booted env h dir kind hs') (wanted es) new \<and>
    (\<forall>p \<in> dom (hsConns hs). hsConns hs' p = hsConns hs p)"
  using assms(1,2,4)
proof (induction es arbitrary: cs hs)
  case Nil
  then show ?case by (simp add: wanted_def)
next
  case (Cons e es)
  show ?case
  proof (cases "eDisabled e")
    case True
    then show ?thesis using Cons by (simp add: wanted_def)
  next
    case False
    then obtain bin c hs1 where st: "ResolveBinary env dir e kind = Some bin" "Start env bin e kind hs = (Inr c, hs1)"
      "load_entries env dir kind es (cs @ [c]) hs1 = (Loaded cs', hs')"
      using Cons.prems(1) by (auto split: option.splits prod.splits sum.splits)
    obtain cn where sp: "envSpawn env bin = Some cn" using st(2) by (auto simp: Start_def split: option.splits)
    then have ok: "idle cn" "boot_carried (envCodec env) h (eSettings e) (cnPlugin cn)"
      using Cons.prems(3) st(1) by (auto simp: bootable_def)
    obtain s where s: "hConfigure h (eSettings e) (cnPlugin cn) = (None, s)"
      "hsConns hs1 = (hsConns hs)(clProc c \<mapsto> cn\<lparr>cnPlugin := s\<rparr>)"
      by (rule Start_booted [OF peer sp ok st(2)])
    note d = Start_started [OF Cons.prems(2) st(2)]
    from Cons.IH [OF st(3) d(3)] Cons.prems(3) obtain new where new: "cs' = (cs @ [c]) @ new"
      "list_all2 (booted env h dir kind hs') (wanted es) new" "\<forall>p \<in> dom (hsConns hs1). hsConns hs' p = hsConns hs1 p" by auto
    have "hsConns hs' (clProc c) = Some (cn\<lparr>cnPlugin := s\<rparr>)" using new(3) d(1) s(2) by auto
    then have "booted env h dir kind hs' e c" using st(1) sp ok(1) s(1) by (auto simp: booted_def)
    moreover have "\<forall>p \<in> dom (hsConns hs). hsConns hs' p = hsConns hs p" using new(3) d(1,2) s(2) by auto
    ultimately show ?thesis
      using new(1,2) False by (intro exI [of _ "c # new"]) (simp add: wanted_def)
  qed
qed

lemma booted_cong:
  "hsConns hs' (clProc c) = hsConns hs (clProc c) \<Longrightarrow> booted env h dir kind hs' e c = booted env h dir kind hs e c"
  by (simp add: booted_def)

lemma load_booted:
  assumes ok: "manager_ok m hs" and load: "loadLocked env m hs = (None, m', hs')"
    and peer: "envPeer env = serve_peer (envCodec env) h"
    and boots: "\<forall>e \<in> set (Processors (mgCfg m)). bootable env h (PluginDir (mgCfg m)) ''processor'' e"
      "\<forall>e \<in> set (Sinks (mgCfg m)). bootable env h (PluginDir (mgCfg m)) ''sink'' e"
  shows "list_all2 (booted env h (PluginDir (mgCfg m)) ''processor'' hs') (wanted (Processors (mgCfg m))) (mgProcessors m')"
    and "list_all2 (booted env h (PluginDir (mgCfg m)) ''sink'' hs') (wanted (Sinks (mgCfg m))) (mgSinks m')"
proof -
  obtain m1 hs1 where stop: "stopLocked env m hs = (m1, hs1)" by fastforce
  note s = stopLocked_obs [OF stop]
  let ?dir = "PluginDir (mgCfg m)"
  obtain procs hs2 where p: "load_entries env ?dir ''processor'' (Processors (mgCfg m)) [] hs1 = (Loaded procs, hs2)"
    using load by (auto simp: loadLocked_def stop s(2) Let_def split: prod.splits load_result.splits)
  obtain sinks where q: "load_entries env ?dir ''sink'' (Sinks (mgCfg m)) [] hs2 = (Loaded sinks, hs')"
    and m': "m' = m1\<lparr>mgProcessors := procs, mgSinks := sinks\<rparr>"
    using load by (auto simp: loadLocked_def stop s(2) p Let_def split: prod.splits load_result.splits)
  have h1: "host_ok hs1"
    using host_ok_sub [OF manager_okD(1) [OF ok]] s(3,4) by auto
  have P: "running hs2 = running hs1 \<union> procs_of procs" "host_ok hs2"
    using load_entries_Loaded [OF p h1] by auto
  have b1: "list_all2 (booted env h ?dir ''processor'' hs2) (wanted (Processors (mgCfg m))) procs"
    using load_entries_booted [OF p h1 peer boots(1)] by auto
  have b2: "list_all2 (booted env h ?dir ''sink'' hs') (wanted (Sinks (mgCfg m))) sinks"
    "\<forall>p \<in> dom (hsConns hs2). hsConns hs' p = hsConns hs2 p"
    using load_entries_booted [OF q P(2) peer boots(2)] by auto
  have keep: "hsConns hs' (clProc c) = hsConns hs2 (clProc c)" if "c \<in> set procs" for c
    using that b2(2) P(1) by (auto simp: running_def procs_of_def)
  show "list_all2 (booted env h ?dir ''processor'' hs') (wanted (Processors (mgCfg m))) (mgProcessors m')"
    using b1 keep [THEN booted_cong] by (simp add: m' list_all2_conv_all_nth)
  show "list_all2 (booted env h ?dir ''sink'' hs') (wanted (Sinks (mgCfg m))) (mgSinks m')" using b2(1) by (simp add: m')
qed

end
