(* ===== verification/Program.thy ===== *)
theory Program
  imports Agent Plugin_Boot Startup Run_Modes
begin

text \<open>
  \<^verbatim>\<open>main\<close> of \<^verbatim>\<open>main.go\<close> from the arguments to the return: the version flag, the settings, the configuration,
  the plugins and the pipeline, the objects of the probe, the pool and the registry; then the mode, and
  when it returns the deferred close of the pipeline. Every part keeps its own copy of the metrics it
  records.
\<close>

section \<open>Start\<close>

text \<open>
  What \<^verbatim>\<open>main\<close> meets. \<open>btObjs\<close>: the configuration map of the loaded objects, if they load and have one;
  \<open>btPut\<close>: whether the kernel takes the update of the map; \<open>btRing\<close>: whether the ring buffer opens.
\<close>

record boot =
  btArgs :: "string list"
  btEnv :: "string \<Rightarrow> string"
  btFraction :: "nat \<Rightarrow> nat \<Rightarrow> nat \<Rightarrow> nat"
  btBuild :: BuildInfo
  btFile :: "string \<Rightarrow> file_result"
  btYaml :: "string \<Rightarrow> Config \<Rightarrow> Config \<times> bool"
  btObjs :: "config_map option option"
  btPut :: bool
  btRing :: bool
  btClock :: "time \<times> time"

record 'p program =
  pgSettings :: settings_vars
  pgConfigMap :: "config_map option"
  pgMetrics :: metrics
  pgAgent :: "'p agent"
  pgHooks :: hookState

datatype 'p outcome = Printed string | Died fatal "'p host" | Up "'p program"

text \<open>The second half of the start, once the plugins run; the read loop starts with its state and the clock.\<close>

definition main_objects :: "boot \<Rightarrow> settings_vars \<Rightarrow> Pipeline \<Rightarrow> metrics \<Rightarrow> 'p host \<Rightarrow> 'p outcome" where
  "main_objects bt st p mt hs =
     (case btObjs bt of
        None \<Rightarrow> Died LoadFatal hs
      | Some cm \<Rightarrow>
          let (cm, _) = applyBPFCaptureConfig (btPut bt) st cm
          in if \<not> btRing bt then Died RingbufFatal hs
             else
               let pl = main_pool st;
                   mt = setChunkPoolFree (FreeApprox pl) mt;
                   a = \<lparr>agLoop = loop_init pl mt (fst (btClock bt)) (snd (btClock bt)),
                        agPipe = p, agHost = hs, agTrail = []\<rparr>
               in Up \<lparr>pgSettings = st, pgConfigMap = cm, pgMetrics = mt, pgAgent = a, pgHooks = started [] []\<rparr>)"

definition main_start :: "'p env \<Rightarrow> boot \<Rightarrow> 'p host \<Rightarrow> 'p outcome" where
  "main_start env bt hs =
     (let st = init (btFraction bt) (btEnv bt); v = btBuild bt
      in case MaybeVersionFlag v ''clawguard'' (btArgs bt) of
           Some out \<Rightarrow> Printed out
         | None \<Rightarrow>
             let mt = setBuildInfo (biVersion v) (biCommit v) (biEdition v) metrics_init;
                 loaded = LoadConfig (btEnv bt) (btFile bt) (btYaml bt) []
             in (case start_plugins env loaded mt hs of
                   Inl (why, hs) \<Rightarrow> Died why hs
                 | Inr (p, mt, hs) \<Rightarrow> main_objects bt st p mt hs))"

section \<open>The mode and the end\<close>

text \<open>
  What the mode meets: the cgroup and host name of the manager, whether the client of Docker or of
  Kubernetes can be built, and what it then delivers.
\<close>

record mode_input =
  miOrder :: order
  miCgroup :: "string option"
  miHostname :: "string option"
  miClient :: bool
  miPid :: int
  miSelfList :: "dockerContainer list option"
  miInspect :: "string \<Rightarrow> int option"
  miContainers :: "(dockerContainer \<times> attachInput) list option"
  miEvents :: "docker_input list"
  miPods :: "(pod \<times> (nat \<Rightarrow> resolveInput)) list option"
  miRounds :: "k8sRound list"

datatype mode_end = InMode | Returned | Aborted

definition main_mode :: "(string \<Rightarrow> string) \<Rightarrow> mode_input \<Rightarrow> hookState \<Rightarrow> hookState \<times> mode_end" where
  "main_mode getenv mi h =
     (if getenv ''KUBERNETES_SERVICE_HOST'' \<noteq> [] then
        (case k8s_main (miOrder mi) (miCgroup mi) (miHostname mi) (getenv ''CLAWGUARD_POD_ANNOTATION'') (getenv ''NODE_NAME'')
                (miClient mi) (miPods mi) (miRounds mi) h of
           (h, Running) \<Rightarrow> (h, InMode)
         | (h, Canceled) \<Rightarrow> (h, Returned)
         | (h, Failed) \<Rightarrow> (h, Aborted))
      else if \<not> miClient mi then (h, Aborted)
      else
        (case docker_main (miOrder mi) (miCgroup mi) (miHostname mi) (miPid mi) (miSelfList mi) (miInspect mi)
                (getenv ''CLAWGUARD_LABEL'') (miContainers mi) (miEvents mi) h of
           None \<Rightarrow> (h, Aborted)
         | Some (h, returned) \<Rightarrow> (h, if returned then Returned else InMode)))"

text \<open>The deferred calls run when the mode returns and not when it aborts; \<open>None\<close>: \<^verbatim>\<open>main\<close> does not return.\<close>

definition main_end :: "'p env \<Rightarrow> nat list \<Rightarrow> nat list \<Rightarrow> schedule \<Rightarrow> mode_end \<Rightarrow> Pipeline \<Rightarrow> 'p host \<Rightarrow> (Pipeline \<times> 'p host) option" where
  "main_end env sinks asyncs sched e p hs =
     (case e of
        InMode \<Rightarrow> None
      | Aborted \<Rightarrow> Some (p, hs)
      | Returned \<Rightarrow> pipeline_Close env sinks asyncs sched p hs)"

section \<open>A started pipeline is ready\<close>

lemma new_pipeline_obs:
  "plMgr (newPipeline m n) = m" "plWorkers (newPipeline m n) = []" "plChans (newPipeline m n) = []"
  "plSinkQueues (newPipeline m n) = Map.empty" "plAsyncQueues (newPipeline m n) = Map.empty"
  "\<not> plCancelled (newPipeline m n)" "plDropped (newPipeline m n) = []" "quiet (newPipeline m n)"
  using newPipeline_ok [of m n] by (simp_all add: newPipeline_def Let_def quiet_def all_done_def)

lemma pipeline_Start_new: "pipeline_Start (newPipeline m n) = startWorkers (newPipeline m n)"
  by (simp add: pipeline_Start_def newPipeline_def Let_def)

lemma queue_map_unique:
  assumes "distinct (map pname cs)" and "i < length cs"
  shows "queue_map cs n x = Some (n + i) \<longleftrightarrow> x = pname (cs ! i)"
proof -
  let ?z = "zip (map pname cs) [n..<n + length cs]"
  have "distinct (map fst (rev ?z))" using assms(1) by (simp add: rev_map [symmetric])
  then have "queue_map cs n x = Some (n + i) \<longleftrightarrow> (x, n + i) \<in> set ?z"
    unfolding queue_map_def by (simp add: map_of_eq_Some_iff del: upt_Suc)
  also have "\<dots> \<longleftrightarrow> x = pname (cs ! i)" using assms(2) by (auto simp: in_set_zip intro!: exI [of _ i])
  finally show ?thesis .
qed

lemma map_workers: "length ns = length cs \<Longrightarrow> map (clProc \<circ> wkClient) (map2 (worker_for k) cs ns) = map clProc cs"
  by (rule nth_equalityI) (simp_all add: worker_for_def)

lemma map_worker_clients: "length ns = length cs \<Longrightarrow> map wkClient (map2 (worker_for k) cs ns) = cs"
  by (rule nth_equalityI) (simp_all add: worker_for_def)

lemma started_sink_ready:
  fixes p0 :: Pipeline and hs :: "'s host" and h :: "'s Handler"
  defines "m \<equiv> plMgr p0" and "p \<equiv> startWorkers p0"
  assumes fresh: "quiet p0" "plWorkers p0 = []" "plChans p0 = []" "\<not> plCancelled p0" and ok: "manager_ok m hs"
    and names: "distinct (map pname (manager_Sinks m))" "\<forall>c \<in> set (AsyncProcessors m). ''processor:'' @ pname c \<noteq> pname (manager_Sinks m ! i)"
    and i: "i < length (manager_Sinks m)" and conn: "hsConns hs (clProc (manager_Sinks m ! i)) = Some cn" "idle cn"
  shows "sink_ready h (cnPlugin cn) i (pname (manager_Sinks m ! i)) E p hs \<and> wkClient (plWorkers p ! i) = manager_Sinks m ! i \<and> flow p i = []"
proof -
  let ?ss = "manager_Sinks m" and ?as = "AsyncProcessors m"
  have q: "chans_ok p0" "all_done p0" "plSinkQueues p0 = Map.empty" "plAsyncQueues p0 = Map.empty"
    using fresh(1) by (simp_all add: quiet_def)
  note o = startWorkers_obs [of p0, folded m_def p_def, unfolded fresh(2,3) q(3,4), simplified]
  have w: "plWorkers p ! i = worker_for SinkWorker (?ss ! i) i" using i by (simp add: o(1) nth_append)
  have len: "i < length (plWorkers p)" using i by (simp add: o(1))
  have ch: "plChans p ! i = make_chan (plQueueSize p0)" using i by (simp add: o(2) nth_append)
  have "map (clProc \<circ> wkClient) (plWorkers p) = map clProc ?ss @ map clProc ?as"
    unfolding o(1) by (simp add: map_workers del: map_map)
  moreover have "distinct (map clProc (mgProcessors m))" "distinct (map clProc ?ss)"
    "\<forall>c \<in> set (mgProcessors m). \<forall>d \<in> set ?ss. clProc d \<noteq> clProc c"
    using manager_okD(2) [OF ok] by (auto simp: clients_def manager_Sinks_def)
  ultimately have d: "distinct (map (clProc \<circ> wkClient) (plWorkers p))"
    and sync: "\<forall>c \<in> set (SyncProcessors m). clProc c \<noteq> clProc (?ss ! i)"
    using i by (auto simp: AsyncProcessors_def SyncProcessors_def distinct_map_filter) (metis nth_mem)+
  have "delivering h (cnPlugin cn) i E p hs"
    using startWorkers_ok [OF q(1), folded p_def] d len conn
    by (simp add: delivering_def follows_def flow_def w ch worker_for_def make_chan_def plugin_emits_def)
  moreover have "awake i p" using len fresh(4) by (simp add: awake_def w ch worker_for_def make_chan_def o(5))
  moreover have "own_queue i (pname (?ss ! i)) p"
  proof -
    have "0 + i \<notin> ran (queue_map ?as (length ?ss))"
      using i by (auto simp: ran_def queue_map_def dest!: map_of_SomeD set_zip_rightD)
    moreover have "n \<in> dom (queue_map ?as (length ?ss)) \<Longrightarrow> n \<in> pname ` set ?as" for n
      by (auto simp: queue_map_def dest!: map_of_SomeD set_zip_leftD)
    moreover have "c < length (plChans p)" if "c \<in> registered p" for c
      using that by (auto simp: registered_def o ran_def queue_map_def dest!: map_of_SomeD set_zip_rightD)
    ultimately show ?thesis
      using names(2) queue_map_unique [OF names(1) i, of 0] by (auto simp: own_queue_def o(3,4) w worker_for_def)
  qed
  ultimately show ?thesis
    using sync by (simp add: sink_ready_def w ch worker_for_def flow_def make_chan_def o(6))
qed


section \<open>What a start establishes\<close>

text \<open>The plugins of a configuration are built with the library, and their first messages are carried.\<close>

definition sdk_plugins :: "'s env \<Rightarrow> 's Handler \<Rightarrow> Config \<Rightarrow> bool" where
  "sdk_plugins env h cfg \<longleftrightarrow> envPeer env = serve_peer (envCodec env) h \<and>
     (\<forall>e \<in> set (Processors cfg). bootable env h (PluginDir cfg) ''processor'' e) \<and>
     (\<forall>e \<in> set (Sinks cfg). bootable env h (PluginDir cfg) ''sink'' e)"

lemma start_plugins_cases:
  assumes "start_plugins env loaded mt hs = Inr (p, mt', hs')"
  obtains cfg mgr where "loaded = (cfg, None)" and "manager_Load env (NewManager cfg) hs = (None, mgr, hs')"
    and "p = startWorkers (newPipeline mgr (SinkQueue cfg))" and "mt' = refreshPluginMetrics mgr mt"
  using assms by (auto simp: start_plugins_def pipeline_Start_new Let_def split: prod.splits option.splits)

lemma main_start_cases:
  assumes "main_start env bt hs = Up pg"
  obtains p mt hs' cm where "MaybeVersionFlag (btBuild bt) ''clawguard'' (btArgs bt) = None"
    and "start_plugins env (LoadConfig (btEnv bt) (btFile bt) (btYaml bt) [])
      (setBuildInfo (biVersion (btBuild bt)) (biCommit (btBuild bt)) (biEdition (btBuild bt)) metrics_init) hs = Inr (p, mt, hs')"
    and "btObjs bt = Some cm" and "pgSettings pg = init (btFraction bt) (btEnv bt)"
    and "pgConfigMap pg = fst (applyBPFCaptureConfig (btPut bt) (pgSettings pg) cm)"
    and "agPipe (pgAgent pg) = p" and "agHost (pgAgent pg) = hs'" and "pgHooks pg = started [] []" and "agTrail (pgAgent pg) = []"
    and "\<exists>m t1 t2. agLoop (pgAgent pg) = loop_init (main_pool (pgSettings pg)) m t1 t2"
    and "pgMetrics pg = setChunkPoolFree (FreeApprox (main_pool (pgSettings pg))) mt"
proof -
  obtain p mt hs1 where st: "MaybeVersionFlag (btBuild bt) ''clawguard'' (btArgs bt) = None"
    "start_plugins env (LoadConfig (btEnv bt) (btFile bt) (btYaml bt) [])
      (setBuildInfo (biVersion (btBuild bt)) (biCommit (btBuild bt)) (biEdition (btBuild bt)) metrics_init) hs = Inr (p, mt, hs1)"
    using assms by (auto simp: main_start_def Let_def split: option.splits sum.splits)
  moreover obtain cm where "btObjs bt = Some cm"
    using assms st by (auto simp: main_start_def main_objects_def Let_def split: option.splits)
  moreover note assms [unfolded main_start_def main_objects_def Let_def]
  ultimately show thesis
    by (intro that [of p mt hs1 cm]) (auto split: prod.splits if_splits intro!: exI)
qed



text \<open>A start whose configuration has the file sink alone.\<close>

definition boot_codec :: codec where
  "boot_codec =
     \<lparr>encRequest = (\<lambda>r. Some ((if rqMethod r = MethodInfo then 0 else 1) # id_bytes (rqID r))),
      decRequest = (\<lambda>b. Some \<lparr>rqID = bytes_id (tl b), rqMethod = (if hd b = 0 then MethodInfo else MethodConfigure),
         rqParams = (if hd b = 0 then [] else [4])\<rparr>),
      encResponse = (\<lambda>r. Some (hd (rsResult r) # id_bytes (rsID r))),
      decResponse = (\<lambda>b. Some (okResp (bytes_id (tl b)) [hd b])),
      encInfo = (\<lambda>_. Some [6]), decInfo = (\<lambda>_. Some (FillInfo no_build ''file'' ''sink'')), encConfig = (\<lambda>_. Some [4]), decConfig = (\<lambda>_. Some None),
      encEvent = (\<lambda>_. None), decEvent = (\<lambda>_. None), encStatus = (\<lambda>_. Some [5]), decStatus = (\<lambda>_. Some []),
      decErrorText = (\<lambda>_ _. []), encErrorText = (\<lambda>_. [])\<rparr>"

definition boot_conn :: "fileSink conn" where
  "boot_conn = \<lparr>cnStdin = \<lparr>wrOut = [], wrLimit = None\<rparr>, cnStdout = [], cnPlugin = \<lparr>fsPath = [], fsFile = None, fsDisk = Map.empty\<rparr>\<rparr>"

definition boot_env :: "fileSink env" where
  "boot_env = \<lparr>envCodec = boot_codec, envPeer = serve_peer boot_codec (file_handler no_build example_os),
     envSpawn = (\<lambda>_. Some boot_conn), envStat = (\<lambda>_. Some False), envLookPath = (\<lambda>_. None), envJoin = (\<lambda>a b. a @ b)\<rparr>"

definition boot_entry :: PluginEntry where
  "boot_entry = \<lparr>eName = ''file'', eDisabled = False, eSettings = None, ePath = ''sink'', eMode = []\<rparr>"

definition boot_config :: Config where
  "boot_config = Default\<lparr>Processors := [], Sinks := [boot_entry]\<rparr>"

definition example_boot :: boot where
  "example_boot = \<lparr>btArgs = [], btEnv = (\<lambda>_. []), btFraction = (\<lambda>_ _ _. 0), btBuild = no_build, btFile = (\<lambda>_. FileContent []),
     btYaml = (\<lambda>_ _. (boot_config, False)), btObjs = Some (Some new_config_map), btPut = True, btRing = True, btClock = (0, 0)\<rparr>"

definition boot_host :: "fileSink host" where
  "boot_host = \<lparr>hsConns = Map.empty, hsNextID = (\<lambda>_. 0), hsNext = 0\<rparr>"

lemma boot_started:
  "\<exists>c hs'. Start boot_env ''sink'' boot_entry ''sink'' boot_host = (Inr c, hs') \<and> pname c = ''file''"
proof -
  have "(case Start boot_env ''sink'' boot_entry ''sink'' boot_host of (Inr c, hs) \<Rightarrow> piName (clInfo c) = ''file'' | _ \<Rightarrow> False)"
    by code_simp
  then show ?thesis by (auto simp: pname_def split: prod.splits sum.splits)
qed

lemma boot_config_loaded: "LoadConfig (\<lambda>_. []) (\<lambda>_. FileContent []) (\<lambda>_ _. (boot_config, False)) [] = (boot_config, None)"
proof -
  have "TrimSpace [] = []" "ToLower [] = []" by (simp_all add: TrimSpace_id space_free_def ToLower_def)
  then have "applyEnvOverrides (\<lambda>_. []) cfg = cfg" for cfg by (simp add: applyEnvOverrides_def Let_def)
  then show ?thesis by (simp add: LoadConfig_def boot_config_def normalizeProcessorModes_def Default_def Let_def)
qed

lemma boot_handle:
  "fst (handle boot_codec (file_handler no_build example_os) \<lparr>rqID = i, rqMethod = MethodInfo, rqParams = []\<rparr> s) = okResp i [6]"
  "fst (handle boot_codec (file_handler no_build example_os) \<lparr>rqID = i, rqMethod = MethodConfigure, rqParams = [4]\<rparr> s) = okResp i [5]"
proof -
  show "fst (handle boot_codec (file_handler no_build example_os) \<lparr>rqID = i, rqMethod = MethodInfo, rqParams = []\<rparr> s) = okResp i [6]"
    by (simp add: handle_def boot_codec_def Let_def)
  obtain s' where s': "hConfigure (file_handler no_build example_os) None s = (None, s')"
    by (simp add: file_handler_def file_Configure_def example_os_def string_setting_def write_file_def Let_def)
  have "decConfig boot_codec [4] = Some None" "statusResp boot_codec i ''ok'' = okResp i [5]"
    by (simp_all add: boot_codec_def statusResp_def)
  then show "fst (handle boot_codec (file_handler no_build example_os) \<lparr>rqID = i, rqMethod = MethodConfigure, rqParams = [4]\<rparr> s) = okResp i [5]"
    using handle_Configure [OF _ _ s'] by simp
qed

lemma boot_sdk: "sdk_plugins boot_env (file_handler no_build example_os) boot_config"
proof -
  have "encConfig boot_codec None = Some [4]" "decConfig boot_codec [4] = Some None" by (simp_all add: boot_codec_def)
  moreover have "carries (encRequest boot_codec) (decRequest boot_codec) \<lparr>rqID = i, rqMethod = MethodInfo, rqParams = []\<rparr>"
    "carries (encRequest boot_codec) (decRequest boot_codec) \<lparr>rqID = i, rqMethod = MethodConfigure, rqParams = [4]\<rparr>"
    "carries (encResponse boot_codec) (decResponse boot_codec) (okResp i [k])" for i k
    by (simp_all add: carries_def boot_codec_def frame_fits_def MethodInfo_def MethodConfigure_def okResp_def)
  ultimately have "boot_carried boot_codec (file_handler no_build example_os) None s" for s
    by (simp add: boot_carried_def boot_handle)
  then show ?thesis
    by (simp add: sdk_plugins_def boot_config_def bootable_def boot_env_def boot_conn_def boot_entry_def idle_def)
qed

lemma boot_up:
  obtains pg c hs' where "main_start boot_env example_boot boot_host = Up pg" and "pname c = ''file''"
    and "agPipe (pgAgent pg) = startWorkers (newPipeline \<lparr>mgCfg = boot_config, mgProcessors = [], mgSinks = [c]\<rparr> (SinkQueue boot_config))"
proof -
  obtain c hs' where c: "Start boot_env ''sink'' boot_entry ''sink'' boot_host = (Inr c, hs')" "pname c = ''file''"
    using boot_started by blast
  have load: "manager_Load boot_env (NewManager boot_config) boot_host = (None, \<lparr>mgCfg = boot_config, mgProcessors = [], mgSinks = [c]\<rparr>, hs')"
    using c(1) by (simp add: manager_Load_def loadLocked_def stopLocked_def NewManager_def boot_config_def Let_def
        ResolveBinary_def boot_entry_def)
  show thesis
    using that [OF _ c(2)] load boot_config_loaded
    by (simp add: main_start_def main_objects_def example_boot_def MaybeVersionFlag_def start_plugins_def pipeline_Start_new
        applyBPFCaptureConfig_def Let_def)
qed


section \<open>What an end leaves\<close>

lemma call_running: "running (snd (call env meth params dec z c hs)) = running hs"
  using call_keeps [of env meth params dec z c hs] by (cases "call env meth params dec z c hs") (simp add: running_def)

lemma deliver_running: "running (deliver env w ev hs) = running hs"
  by (simp add: deliver_def client_Emit_def client_Process_def call_running split: worker_kind.split)

lemma run_workers_running: "run_workers env sched p hs = (p', hs') \<Longrightarrow> running hs' = running hs"
proof (induction sched arbitrary: p hs)
  case (Cons t sched)
  obtain i d where t: "t = (i, d)" by fastforce
  obtain p1 hs1 where st: "worker_step env i d p hs = (p1, hs1)" by fastforce
  then have "running hs1 = running hs" by (cases rule: worker_step_cases) (simp_all add: deliver_running)
  moreover have "run_workers env sched p1 hs1 = (p', hs')" using Cons.prems st by (simp add: run_workers_def t)
  ultimately show ?case using Cons.IH by simp
qed (simp add: run_workers_def)

lemma close_returns:
  assumes ok: "chans_ok p" and fair: "\<forall>i < length (plWorkers p). need p i \<le> turns i sched"
  obtains p' hs' where "pipeline_Close env ss as sched p hs = Some (p', hs')" and "all_done p'" and "plCancelled p'"
    and "clients (plMgr p') = []" and "running hs' = running hs - procs_of (clients (plMgr p))"
proof -
  let ?c = "p\<lparr>plCancelled := True\<rparr>"
  have c: "chans_ok ?c" "need ?c i = need p i" for i using ok by (simp_all add: chans_ok_def need_def)
  then obtain p1 hs1 where st: "stopWorkers env ss as sched ?c hs = Some (p1, hs1)"
    using stop_fair [of ?c ss as sched env hs] fair by auto
  then have run: "run_workers env sched (closeQueues ss as ?c) hs = (p1, hs1)"
    by (auto simp: stopWorkers_def Let_def split: prod.splits if_splits)
  have k: "plMgr p1 = plMgr p" "quiet p1" "plCancelled p1" using stop_kept [OF c(1) st] by (simp_all add: kept_def)
  obtain m hs2 where m: "stopLocked env (plMgr p) hs1 = (m, hs2)" by fastforce
  note o = stopLocked_obs [OF m]
  show thesis
    using st k m o run_workers_running [OF run]
    by (intro that [of "p1\<lparr>plMgr := m\<rparr>" hs2]) (simp_all add: pipeline_Close_def manager_Close_def quiet_def all_done_def)
qed

text \<open>C11: The program cleans up when its mode returns: no container is left in the registry and every uprobe link
  is closed; the deferred close of the pipeline cancels the context and returns under every schedule that gives each
  running worker one turn more than it has events queued, whether or not its queue is among those that are
  closed, so also with two sinks of one name; after it no worker runs, the manager has no plugin left, and of the
  processes exactly the plugins' are gone. A mode that gives up, which ends the process without the
  deferred calls, has created no link. A turn of a worker includes the call to its plugin, if it makes one.\<close>

theorem main_ends_clean:
  assumes "order_ok (miOrder mi)" and "main_mode getenv mi (started [] []) = (h, e)" and "chans_ok p"
    and "\<forall>i < length (plWorkers p). \<not> wkDone (plWorkers p ! i) \<longrightarrow>
      length (chBuf (plChans p ! wkChan (plWorkers p ! i))) < turns i sched"
  shows "(e = Returned \<longrightarrow> dom (byID (cw (hkWatch h))) = {} \<and> set (closedLinks (hkWatch h)) = {..<hkNext h} \<and>
      (\<exists>p' hs'. main_end env ss as sched e p hs = Some (p', hs') \<and> plCancelled p' \<and> all_done p' \<and> clients (plMgr p') = [] \<and>
         running hs' = running hs - procs_of (clients (plMgr p)))) \<and>
    (e = Aborted \<longrightarrow> hkNext h = 0 \<and> main_end env ss as sched e p hs = Some (p, hs))"
proof -
  have "(e = Returned \<longrightarrow> dom (byID (cw (hkWatch h))) = {} \<and> set (closedLinks (hkWatch h)) = {..<hkNext h}) \<and> (e = Aborted \<longrightarrow> hkNext h = 0)"
  proof (cases "getenv ''KUBERNETES_SERVICE_HOST'' = []")
    case True
    have "hkNext (started [] []) = 0" by (simp add: started_def)
    then show ?thesis
      using assms(2) True docker_returned [OF assms(1)]
      by (auto simp: main_mode_def docker_main_def split: if_splits option.splits)
  next
    case False
    obtain h1 e1 where k: "k8s_main (miOrder mi) (miCgroup mi) (miHostname mi) (getenv ''CLAWGUARD_POD_ANNOTATION'') (getenv ''NODE_NAME'')
        (miClient mi) (miPods mi) (miRounds mi) (started [] []) = (h1, e1)" by fastforce
    then show ?thesis
      using assms(2) False k8s_main_ok(2) [OF assms(1) k] k8s_main_failed
      by (cases e1) (auto simp: main_mode_def started_def)
  qed
  moreover have "\<forall>i < length (plWorkers p). need p i \<le> turns i sched" using assms(4) by (simp add: need_def Suc_le_eq)
  from close_returns [OF assms(3) this, of env ss as hs] obtain p' hs' where "pipeline_Close env ss as sched p hs = Some (p', hs')"
    "all_done p'" "plCancelled p'" "clients (plMgr p') = []" "running hs' = running hs - procs_of (clients (plMgr p))" by blast
  ultimately show ?thesis by (auto simp: main_end_def)
qed

text \<open>A daemon in Docker mode with one sink and one event queued, whose context ends at once. Its queue is not closed.\<close>

definition example_mode :: mode_input where
  "example_mode = \<lparr>miOrder = sorted_order, miCgroup = None, miHostname = None, miClient = True, miPid = 1, miSelfList = None,
     miInspect = (\<lambda>_. None), miContainers = None, miEvents = [DockerDone], miPods = None, miRounds = []\<rparr>"

theorem main_ends_clean_witness:
  "\<exists>h p' hs'. main_mode (\<lambda>_. []) example_mode (started [] []) = (h, Returned) \<and>
     main_end quiet_peer [] [] [(0, False), (0, False)] Returned queued_pipe example_host = Some (p', hs') \<and>
     plCancelled p' \<and> running hs' = running example_host - {3}"
proof -
  have "parseLabelFilter [] = Inr []" by (simp add: parseLabelFilter_def TrimSpace_id space_free_def)
  then obtain h where h: "main_mode (\<lambda>_. []) example_mode (started [] []) = (h, Returned)"
    by (simp add: main_mode_def example_mode_def docker_main_def runDockerMode_def Let_def)
  note q = queued_pipe_obs
  have c: "chans_ok queued_pipe" "\<forall>i < length (plWorkers queued_pipe). \<not> wkDone (plWorkers queued_pipe ! i) \<longrightarrow>
      length (chBuf (plChans queued_pipe ! wkChan (plWorkers queued_pipe ! i))) < turns i [(0, False), (0, False)]"
    using q by (simp_all add: turns_def)
  have "order_ok (miOrder example_mode)" by (simp add: example_mode_def sorted_order_ok)
  from main_ends_clean [OF this h c, of quiet_peer "[]" "[]" example_host] h show ?thesis
    by (auto simp: q clients_def example_manager_def procs_of_def example_client_def)
qed

end
