(* ===== verification/World.thy ===== *)
theory World
  imports Program
begin

text \<open>
  All goroutines together: the read loop, the workers of the pipeline, the mode that changes the registry, and
  \<^verbatim>\<open>SIGHUP\<close>. Here the call of \<^verbatim>\<open>Emit\<close> that the read loop makes for a complete write is not one step, as it is in
  \<open>Agent\<close>: a reload may fall between its reads of the manager, between two calls of synchronous processors, and
  between the copy of the queues and each of the sends. The handlers of Docker events and pods are the steps
  of \<open>Registry_Steps\<close>. A reload is three steps: the manager's, under its lock, then the closing of the
  queues, then, once all workers have returned, the new workers. A signal to end cancels the context that the workers
  hold. A call to a plugin is one step: a plugin that never answers is a run in which no step follows for that goroutine.
\<close>

section \<open>Steps of the program\<close>

text \<open>Where the goroutine of \<^verbatim>\<open>SIGHUP\<close> is.\<close>

datatype reload_pc = AwaitSignal | ManagerReloaded | QueuesClosed

text \<open>
  Where the read loop is in \<^verbatim>\<open>Emit\<close>, with the event as it was captured: it reads the build and the plugins
  (\<open>Captured\<close>), then the list of synchronous processors (\<open>Stamped\<close>), calls them (\<open>Syncing\<close>), copies the
  queues, and sends (\<open>Sending\<close>).
\<close>

datatype emission = NotEmitting
  | Captured CaptureEvent
  | Stamped CaptureEvent CaptureEvent
  | Syncing CaptureEvent "Client list" CaptureEvent
  | Sending CaptureEvent CaptureEvent "(string \<times> string \<times> nat) list"

fun in_emit :: "emission \<Rightarrow> CaptureEvent list" where
  "in_emit NotEmitting = []"
| "in_emit (Captured ev) = [ev]"
| "in_emit (Stamped ev cur) = [ev]"
| "in_emit (Syncing ev cs cur) = [ev]"
| "in_emit (Sending ev cur qs) = [ev]"

record 'p world =
  wdAgent :: "'p agent"
  wdEmit :: emission
  wdHooks :: hookState
  wdMetrics :: metrics
  wdReload :: reload_pc

text \<open>An iteration of the read loop looks up the process in the registry as it is then.\<close>

definition looks_into :: "hookState \<Rightarrow> iterInput \<Rightarrow> bool" where
  "looks_into h inp \<longleftrightarrow> inWatch inp = cw (hkWatch h) \<and> set (inMetaOrder inp) = dom (metaByID (inWatch inp)) \<and>
     set (inIdOrder inp) = dom (byID (inWatch inp))"

text \<open>The read loop. One iteration completes at most one write (\<open>sample_emits\<close>).\<close>

inductive loop_step :: "BuildInfo \<Rightarrow> 'p env \<Rightarrow> time \<Rightarrow> 'p world \<Rightarrow> 'p world \<Rightarrow> bool" for v env ttl where
  sample: "wdEmit w = NotEmitting \<Longrightarrow> looks_into (wdHooks w) inp \<Longrightarrow> s' = handle_sample ttl inp raw (agLoop (wdAgent w)) \<Longrightarrow>
    loop_step v env ttl w (w\<lparr>wdAgent := (wdAgent w)\<lparr>agLoop := s'\<rparr>,
      wdEmit := (case new_events (agLoop (wdAgent w)) s' of [] \<Rightarrow> NotEmitting | ev # _ \<Rightarrow> Captured ev)\<rparr>)"
| stamp: "wdEmit w = Captured ev \<Longrightarrow>
    loop_step v env ttl w (w\<lparr>wdEmit := Stamped ev (stamp v (plMgr (agPipe (wdAgent w))) ev)\<rparr>)"
| processors: "wdEmit w = Stamped ev cur \<Longrightarrow>
    loop_step v env ttl w (w\<lparr>wdEmit := Syncing ev (SyncProcessors (plMgr (agPipe (wdAgent w)))) cur\<rparr>)"
| process: "wdEmit w = Syncing ev (c # cs) cur \<Longrightarrow> run_sync env [c] cur (agHost (wdAgent w)) = (out, hs) \<Longrightarrow>
    loop_step v env ttl w (w\<lparr>wdAgent := (wdAgent w)\<lparr>agHost := hs\<rparr>, wdEmit := Syncing ev cs out\<rparr>)"
| snapshot: "wdEmit w = Syncing ev [] cur \<Longrightarrow> ranges (agPipe (wdAgent w)) sinks asyncs \<Longrightarrow>
    loop_step v env ttl w (w\<lparr>wdEmit := Sending ev cur (map (Pair []) sinks @ map (Pair ''processor:'') asyncs)\<rparr>)"
| send: "wdEmit w = Sending ev cur ((pre, q) # qs) \<Longrightarrow>
    loop_step v env ttl w (w\<lparr>wdAgent := (wdAgent w)\<lparr>agPipe := send_or_drop pre cur q (agPipe (wdAgent w))\<rparr>, wdEmit := Sending ev cur qs\<rparr>)"
| sent: "wdEmit w = Sending ev cur [] \<Longrightarrow>
    loop_step v env ttl w (w\<lparr>wdAgent := (wdAgent w)\<lparr>agTrail := agTrail (wdAgent w) @ [(ev, cur)]\<rparr>, wdEmit := NotEmitting\<rparr>)"

inductive world_step :: "BuildInfo \<Rightarrow> 'p env \<Rightarrow> time \<Rightarrow> order \<Rightarrow> 'p world \<Rightarrow> 'p world \<Rightarrow> bool" for v env ttl order where
  read_loop: "loop_step v env ttl w w' \<Longrightarrow> world_step v env ttl order w w'"
| turn: "agent_step v env ttl (wdAgent w) (Turned i d) a \<Longrightarrow> world_step v env ttl order w (w\<lparr>wdAgent := a\<rparr>)"
| registry: "reg_step order (wdHooks w) h \<Longrightarrow> world_step v env ttl order w (w\<lparr>wdHooks := h\<rparr>)"
| reload: "wdReload w = AwaitSignal \<Longrightarrow> Reload env cfg (plMgr (agPipe (wdAgent w))) (agHost (wdAgent w)) = (e, m, hs) \<Longrightarrow>
    world_step v env ttl order w (w\<lparr>wdAgent := (wdAgent w)\<lparr>agPipe := (agPipe (wdAgent w))\<lparr>plMgr := m\<rparr>, agHost := hs\<rparr>,
      wdReload := (if e = None then ManagerReloaded else AwaitSignal)\<rparr>)"
| close: "wdReload w = ManagerReloaded \<Longrightarrow> set ss = ran (plSinkQueues (agPipe (wdAgent w))) \<Longrightarrow>
    set as = ran (plAsyncQueues (agPipe (wdAgent w))) \<Longrightarrow> world_step v env ttl order w
    (w\<lparr>wdAgent := (wdAgent w)\<lparr>agPipe := closeQueues ss as (agPipe (wdAgent w))\<rparr>, wdReload := QueuesClosed\<rparr>)"
| restart: "wdReload w = QueuesClosed \<Longrightarrow> all_done (agPipe (wdAgent w)) \<Longrightarrow> world_step v env ttl order w
    (w\<lparr>wdAgent := (wdAgent w)\<lparr>agPipe := startWorkers (agPipe (wdAgent w))\<rparr>,
      wdMetrics := refreshPluginMetrics (plMgr (agPipe (wdAgent w))) (wdMetrics w), wdReload := AwaitSignal\<rparr>)"
| signal: "world_step v env ttl order w (w\<lparr>wdAgent := (wdAgent w)\<lparr>agPipe := (agPipe (wdAgent w))\<lparr>plCancelled := True\<rparr>\<rparr>\<rparr>)"

inductive_cases loop_stepE [elim]: "loop_step v env ttl w w'"

text \<open>The state after \<^verbatim>\<open>main\<close> has started, once the mode knows this container's id and the labels.\<close>

definition world_init :: "'p program \<Rightarrow> string \<Rightarrow> labelPair list \<Rightarrow> 'p world" where
  "world_init pg self pairs = \<lparr>wdAgent = pgAgent pg, wdEmit = NotEmitting, wdHooks = started self pairs, wdMetrics = pgMetrics pg,
     wdReload = AwaitSignal\<rparr>"

section \<open>Invariant\<close>

definition same_procs :: "'p host \<Rightarrow> 'p host \<Rightarrow> bool" where
  "same_procs hs hs' \<longleftrightarrow> dom (hsConns hs') = dom (hsConns hs) \<and> hsNext hs' = hsNext hs"

lemma same_procs_refl [simp]: "same_procs hs hs"
  by (simp add: same_procs_def)

lemma same_procs_trans: "same_procs hs hs1 \<Longrightarrow> same_procs hs1 hs2 \<Longrightarrow> same_procs hs hs2"
  by (simp add: same_procs_def)

lemma manager_ok_same: "same_procs hs hs' \<Longrightarrow> manager_ok m hs' = manager_ok m hs"
  by (simp add: same_procs_def manager_ok_def host_ok_def running_def)

lemma call_same: "same_procs hs (snd (call env meth params dec z c hs))"
  using call_keeps [of env meth params dec z c hs] by (cases "call env meth params dec z c hs") (simp add: same_procs_def)

lemma deliver_same: "same_procs hs (deliver env w ev hs)"
  by (simp add: deliver_def client_Emit_def client_Process_def call_same split: worker_kind.split)

lemma run_sync_same: "run_sync env cs ev hs = (cur, hs') \<Longrightarrow> same_procs hs hs'"
proof (induction cs arbitrary: ev hs)
  case (Cons c cs)
  obtain r hs1 where c: "client_Process env ev c hs = (r, hs1)" by fastforce
  have "same_procs hs hs1" using call_same c unfolding client_Process_def by (metis snd_conv)
  then show ?case using Cons c same_procs_trans by (cases r) fastforce+
qed simp

lemma run_ops_same: "run_ops env ops (p, hs) = (p', hs') \<Longrightarrow> same_procs hs hs'"
proof (induction ops arbitrary: p hs)
  case (Cons a ops)
  obtain p1 hs1 where st: "do_op env a (p, hs) = (p1, hs1)" by fastforce
  have "same_procs hs hs1"
  proof (cases a)
    case (Turn i d)
    then have "worker_step env i d p hs = (p1, hs1)" using st by (simp add: do_op_def)
    then show ?thesis by (cases rule: worker_step_cases) (simp_all add: deliver_same)
  qed (use st in \<open>simp add: do_op_def\<close>)
  moreover have "run_ops env ops (p1, hs1) = (p', hs')" using Cons.prems st by (simp add: run_ops_def)
  ultimately show ?case using Cons.IH same_procs_trans by blast
qed (simp add: run_ops_def)

text \<open>The pipeline: bounded queues, each registered one exists, and a manager that owns its processes.\<close>

definition pipe_ok :: "Pipeline \<Rightarrow> 'p host \<Rightarrow> bool" where
  "pipe_ok p hs \<longleftrightarrow> chans_ok p \<and> (\<forall>c \<in> registered p. c < length (plChans p)) \<and> manager_ok (plMgr p) hs"

lemma run_ops_pipe:
  assumes "pipe_ok p hs" and "ops_in ops p" and "run_ops env ops (p, hs) = (p', hs')"
  shows "pipe_ok p' hs'"
proof -
  have "kept p p'" using assms run_ops_kept by (auto simp: pipe_ok_def)
  moreover have "registered p' = registered p" using run_ops_queues [of env ops "(p, hs)"] assms(3) by (simp add: registered_def)
  ultimately show ?thesis
    using assms(1) manager_ok_same [OF run_ops_same [OF assms(3)]] by (simp add: pipe_ok_def kept_def)
qed

lemma startWorkers_pipe: "pipe_ok p hs \<Longrightarrow> pipe_ok (startWorkers p) hs"
proof -
  assume ok: "pipe_ok p hs"
  have q: "c < n + length cs" if "c \<in> ran (queue_map cs n)" for c n and cs :: "Client list"
    using that by (auto simp: ran_def queue_map_def dest!: map_of_SomeD set_zip_rightD)
  have "c < length (plChans (startWorkers p))" if "c \<in> registered (startWorkers p)" for c
  proof -
    have "c \<in> registered p \<union> ran (queue_map (manager_Sinks (plMgr p)) (length (plChans p))) \<union>
        ran (queue_map (AsyncProcessors (plMgr p)) (length (plChans p) + length (manager_Sinks (plMgr p))))"
      using that by (auto simp: registered_def startWorkers_obs ran_def map_add_Some_iff)
    then show ?thesis using q ok by (fastforce simp: startWorkers_obs pipe_ok_def)
  qed
  then show ?thesis using ok startWorkers_ok by (simp add: pipe_ok_def startWorkers_obs)
qed

lemma Reload_pipe:
  assumes ok: "pipe_ok p hs" and re: "Reload env cfg (plMgr p) hs = (e, m, hs')"
  shows "pipe_ok (p\<lparr>plMgr := m\<rparr>) hs'"
proof -
  have m0: "manager_ok ((plMgr p)\<lparr>mgCfg := cfg\<rparr>) hs" using ok by (simp add: pipe_ok_def manager_ok_def clients_def)
  have "manager_ok m hs'"
  proof (cases e)
    case None
    then show ?thesis using load_ok(1) [OF m0] re by (simp add: Reload_def)
  next
    case (Some err)
    then show ?thesis using load_failed [OF m0] re by (simp add: Reload_def manager_ok_def procs_of_def)
  qed
  then show ?thesis using ok by (simp add: pipe_ok_def set_mgr_obs registered_def)
qed

lemma closeQueues_pipe: "pipe_ok p hs \<Longrightarrow> pipe_ok (closeQueues ss as p) hs"
  by (simp add: pipe_ok_def closeQueues_ok closeQueues_obs registered_def)

lemma send_pipe:
  assumes "pipe_ok p hs" and "snd q < length (plChans p)"
  shows "pipe_ok (send_or_drop pre cur q p) hs" and "length (plChans (send_or_drop pre cur q p)) = length (plChans p)"
proof -
  have "run_ops env [Send pre cur q] (p, hs) = (send_or_drop pre cur q p, hs)" for env :: "'a env"
    by (simp add: run_ops_def do_op_def)
  then show "pipe_ok (send_or_drop pre cur q p) hs" by (rule run_ops_pipe [OF assms(1), rotated]) (simp add: ops_in_def assms(2))
  show "length (plChans (send_or_drop pre cur q p)) = length (plChans p)"
    using send_or_drop_ok(3) assms by (simp add: pipe_ok_def)
qed

lemma sample_containers:
  assumes "loop_ok s"
  shows "\<exists>es. emitted (handle_sample ttl inp raw s) = emitted s @ es \<and>
    (\<forall>e \<in> set es. ceContainerID e = ''unknown'' \<or> ceContainerID e \<in> set (inMetaOrder inp) \<union> set (inIdOrder inp))"
proof (cases "accepted raw")
  case None
  then show ?thesis by (simp add: handle_sample_accepted)
next
  case (Some ev)
  have "\<not> invalid_fragment ev" using accepted_valid [OF Some] by blast
  note ok = handle_fragment_ok [OF assms this, of inp]
  have fnd: "find P xs = Some x \<Longrightarrow> x \<in> set xs" for P :: "string \<Rightarrow> bool" and xs x by (auto simp: find_Some_iff)
  have look: "fst (lookupTargetByPID w ms is cg) = ''unknown'' \<or> fst (lookupTargetByPID w ms is cg) \<in> set ms \<union> set is" for w ms "is" cg
    by (auto simp: lookupTargetByPID_def Let_def simp del: find.simps dest: fnd split: option.splits list.splits)
  have "ceContainerID (capture_event inp ev st out) = ''unknown'' \<or>
      ceContainerID (capture_event inp ev st out) \<in> set (inMetaOrder inp) \<union> set (inIdOrder inp)" for st out
    using look by (simp add: capture_event_def split: prod.split) (metis fst_conv)
  then have "\<exists>es. emitted (handle_fragment inp ev s) = emitted s @ es \<and>
      (\<forall>e \<in> set es. ceContainerID e = ''unknown'' \<or> ceContainerID e \<in> set (inMetaOrder inp) \<union> set (inIdOrder inp))"
    by (cases rule: handle_fragment_cases [of inp ev s]) (auto split: option.split)
  then show ?thesis
    using maybeCleanup_refines(2) [OF ok] Some by (simp add: handle_sample_accepted)
qed


text \<open>The channels of a send in progress exist: there are more and more of them.\<close>

definition sends_ok :: "emission \<Rightarrow> Pipeline \<Rightarrow> bool" where
  "sends_ok em p \<longleftrightarrow> (case em of Sending ev cur qs \<Rightarrow> \<forall>x \<in> set qs. snd (snd x) < length (plChans p) | _ \<Rightarrow> True)"

lemma sends_ok_simps [simp]:
  "sends_ok NotEmitting p" "sends_ok (Captured ev) p" "sends_ok (Stamped ev cur) p" "sends_ok (Syncing ev cs cur) p"
  "sends_ok (Sending ev cur qs) p \<longleftrightarrow> (\<forall>x \<in> set qs. snd (snd x) < length (plChans p))"
  by (simp_all add: sends_ok_def)

lemma sends_ok_mono: "sends_ok em p \<Longrightarrow> length (plChans p) \<le> length (plChans p') \<Longrightarrow> sends_ok em p'"
  by (cases em) (auto intro: less_le_trans)

definition world_ok :: "string \<Rightarrow> 'p world \<Rightarrow> bool" where
  "world_ok self w \<longleftrightarrow> loop_ok (agLoop (wdAgent w)) \<and> pipe_ok (agPipe (wdAgent w)) (agHost (wdAgent w)) \<and>
     sends_ok (wdEmit w) (agPipe (wdAgent w)) \<and> events_ok (wdHooks w) \<and> self_id (wdHooks w) = self \<and>
     map fst (agTrail (wdAgent w)) @ in_emit (wdEmit w) = emitted (agLoop (wdAgent w)) \<and>
     (\<forall>e \<in> set (emitted (agLoop (wdAgent w))). ceContainerID e = ''unknown'' \<or> \<not> isSelfContainer self (ceContainerID e))"

lemma main_start_world:
  assumes "main_start env bt hs = Up pg" and "host_ok hs"
  shows "world_ok self (world_init pg self pairs)"
proof -
  from assms(1) obtain p mt hs1 where st: "start_plugins env (LoadConfig (btEnv bt) (btFile bt) (btYaml bt) [])
      (setBuildInfo (biVersion (btBuild bt)) (biCommit (btBuild bt)) (biEdition (btBuild bt)) metrics_init) hs = Inr (p, mt, hs1)"
    and pg: "agPipe (pgAgent pg) = p" "agHost (pgAgent pg) = hs1" "agTrail (pgAgent pg) = []"
      "\<exists>m t1 t2. agLoop (pgAgent pg) = loop_init (main_pool (pgSettings pg)) m t1 t2"
    by (rule main_start_cases)
  from st obtain cfg mgr where ld: "manager_Load env (NewManager cfg) hs = (None, mgr, hs1)" "p = startWorkers (newPipeline mgr (SinkQueue cfg))"
    by (rule start_plugins_cases)
  have "manager_ok (NewManager cfg) hs" using assms(2) by (simp add: manager_ok_def clients_def NewManager_def procs_of_def)
  then have "manager_ok mgr hs1" using load_ok(1) ld(1) by (simp add: manager_Load_def)
  then have "pipe_ok p hs1"
    unfolding ld(2) by (intro startWorkers_pipe) (simp add: pipe_ok_def newPipeline_ok new_pipeline_obs registered_def)
  moreover have "loop_ok (agLoop (pgAgent pg))" "emitted (agLoop (pgAgent pg)) = []"
    using pg(4) loop_ok_init by (auto simp: loop_init_def main_pool_def)
  moreover have "self_id (started self pairs) = self" by (simp add: self_id_def started_def watch_init_def)
  ultimately show ?thesis
    using pg(1-3) started_ok by (simp add: world_ok_def world_init_def)
qed

lemma loop_step_ok:
  assumes step: "loop_step v env ttl w w'" and ok: "world_ok self w"
  shows "world_ok self w'"
  using step
proof cases
  case (sample inp s' raw)
  let ?s = "agLoop (wdAgent w)"
  have l: "loop_ok ?s" using ok by (simp add: world_ok_def)
  obtain es where es: "emitted s' = emitted ?s @ es"
    "\<forall>e \<in> set es. ceContainerID e = ''unknown'' \<or> ceContainerID e \<in> set (inMetaOrder inp) \<union> set (inIdOrder inp)"
    using sample_containers [OF l] sample(4) by blast
  moreover have "length es \<le> 1" using sample_emits [OF l, of ttl inp raw] es(1) sample(4) by auto
  then have "in_emit (case new_events ?s s' of [] \<Rightarrow> NotEmitting | ev # _ \<Rightarrow> Captured ev) = es"
    using new_events_app [OF es(1)] by (cases es) auto
  moreover have "\<not> isSelfContainer self k" if "k \<in> set (inMetaOrder inp) \<union> set (inIdOrder inp)" for k
    using that sample(3) ok events_okD(3,4) [of "wdHooks w"] by (auto simp: looks_into_def world_ok_def self_id_def)
  moreover have "loop_ok s'" using handle_sample_ok [OF l] sample(4) by simp
  ultimately show ?thesis using ok sample(2) by (auto simp: world_ok_def sample(1) split: list.split)
next
  case (process ev c cs cur out hs)
  then show ?thesis using ok manager_ok_same [OF run_sync_same [OF process(3)]] by (simp add: world_ok_def pipe_ok_def)
next
  case (snapshot ev cur sinks asyncs)
  have "ops_in (emit_ops cur sinks asyncs) (agPipe (wdAgent w))"
    using emit_ops_in [OF snapshot(3)] ok by (simp add: world_ok_def pipe_ok_def)
  then have "\<forall>q \<in> set sinks \<union> set asyncs. snd q < length (plChans (agPipe (wdAgent w)))"
    by (simp add: emit_ops_def ops_in_def ball_Un)
  then show ?thesis using ok snapshot(1,2) by (auto simp: world_ok_def)
next
  case (send ev cur pre q qs)
  have "snd q < length (plChans (agPipe (wdAgent w)))" using ok send(2) by (simp add: world_ok_def)
  then show ?thesis using ok send send_pipe [of "agPipe (wdAgent w)" "agHost (wdAgent w)" q pre cur] by (auto simp: world_ok_def)
qed (use ok in \<open>simp_all add: world_ok_def\<close>)

lemma world_step_ok:
  assumes step: "world_step v env ttl order w w'" and order: "order_ok order" and ok: "world_ok self w"
  shows "world_ok self w'"
  using step
proof cases
  case read_loop
  then show ?thesis using loop_step_ok ok by blast
next
  case (turn i d a)
  obtain p' hs' where st: "worker_step env i d (agPipe (wdAgent w)) (agHost (wdAgent w)) = (p', hs')"
    "a = (wdAgent w)\<lparr>agPipe := p', agHost := hs'\<rparr>"
    using turn(2) by (elim agent_step_TurnedE) blast
  have "run_ops env [Turn i d] (agPipe (wdAgent w), agHost (wdAgent w)) = (p', hs')" using st(1) by (simp add: run_ops_def do_op_def)
  moreover have "ops_in [Turn i d] (agPipe (wdAgent w))" by (simp add: ops_in_def)
  ultimately have "pipe_ok p' hs'" using ok run_ops_pipe unfolding world_ok_def by blast
  moreover have "length (plChans p') = length (plChans (agPipe (wdAgent w)))"
    using worker_step_ok(9) [OF _ st(1)] ok by (simp add: world_ok_def pipe_ok_def)
  ultimately show ?thesis using ok sends_ok_mono [of "wdEmit w" "agPipe (wdAgent w)" p'] by (simp add: world_ok_def turn(1) st(2))
next
  case (registry h)
  then show ?thesis using ok reg_step_events [OF _ order] by (auto simp: world_ok_def)
next
  case (reload cfg e m hs)
  have "pipe_ok ((agPipe (wdAgent w))\<lparr>plMgr := m\<rparr>) hs" using Reload_pipe [OF _ reload(3)] ok by (simp add: world_ok_def)
  then show ?thesis using ok reload(1) sends_ok_mono [of "wdEmit w" "agPipe (wdAgent w)" "(agPipe (wdAgent w))\<lparr>plMgr := m\<rparr>"]
    by (simp add: world_ok_def)
next
  case (close ss as)
  then show ?thesis
    using ok closeQueues_pipe [of "agPipe (wdAgent w)" "agHost (wdAgent w)" ss as]
      sends_ok_mono [of "wdEmit w" "agPipe (wdAgent w)" "closeQueues ss as (agPipe (wdAgent w))"]
    by (simp add: world_ok_def closeQueues_obs)
next
  case restart
  then show ?thesis
    using ok startWorkers_pipe [of "agPipe (wdAgent w)" "agHost (wdAgent w)"]
      sends_ok_mono [of "wdEmit w" "agPipe (wdAgent w)" "startWorkers (agPipe (wdAgent w))"]
    by (simp add: world_ok_def startWorkers_obs)
next
  case signal
  then show ?thesis
    using ok sends_ok_mono [of "wdEmit w" "agPipe (wdAgent w)" "(agPipe (wdAgent w))\<lparr>plCancelled := True\<rparr>"]
    by (simp add: world_ok_def pipe_ok_def chans_ok_def registered_def)
qed

interpretation world: kept_by_steps "world_step v env ttl order" "\<lambda>w. order_ok order \<and> world_ok self w" for v env ttl order self
  by unfold_locales (auto intro: world_step_ok)

text \<open>
  The step of \<open>Agent\<close> in which the read loop handles one sample and emits what it completes is a sequence of
  these steps, the one in which nothing falls between them.
\<close>

lemma steps_sync:
  "wdEmit w = Syncing ev cs cur \<Longrightarrow> run_sync env cs cur (agHost (wdAgent w)) = (out, hs) \<Longrightarrow>
     (loop_step v env ttl)\<^sup>*\<^sup>* w (w\<lparr>wdAgent := (wdAgent w)\<lparr>agHost := hs\<rparr>, wdEmit := Syncing ev [] out\<rparr>)"
proof (induction cs arbitrary: w cur)
  case Nil
  then have "w\<lparr>wdAgent := (wdAgent w)\<lparr>agHost := hs\<rparr>, wdEmit := Syncing ev [] out\<rparr> = w" by simp
  then show ?case by (metis rtranclp.rtrancl_refl)
next
  case (Cons c cs)
  obtain o1 h1 where one: "run_sync env [c] cur (agHost (wdAgent w)) = (o1, h1)" by fastforce
  let ?w = "w\<lparr>wdAgent := (wdAgent w)\<lparr>agHost := h1\<rparr>, wdEmit := Syncing ev cs o1\<rparr>"
  have rest: "run_sync env cs o1 (agHost (wdAgent ?w)) = (out, hs)"
    using Cons.prems(2) one by (simp split: prod.splits sum.splits)
  have "loop_step v env ttl w ?w" by (rule loop_step.process [OF Cons.prems(1) one])
  then show ?case using Cons.IH [of ?w o1, OF _ rest] by (simp add: converse_rtranclp_into_rtranclp)
qed

lemma steps_sends:
  "wdEmit w = Sending ev cur qs \<Longrightarrow>
     (loop_step v env ttl)\<^sup>*\<^sup>* w (w\<lparr>wdAgent := (wdAgent w)\<lparr>agPipe := fold (\<lambda>x. send_or_drop (fst x) cur (snd x)) qs (agPipe (wdAgent w))\<rparr>,
       wdEmit := Sending ev cur []\<rparr>)"
proof (induction qs arbitrary: w)
  case Nil
  then have "w\<lparr>wdEmit := Sending ev cur []\<rparr> = w" by simp
  then show ?case by simp
next
  case (Cons x qs)
  let ?w = "w\<lparr>wdAgent := (wdAgent w)\<lparr>agPipe := send_or_drop (fst x) cur (snd x) (agPipe (wdAgent w))\<rparr>, wdEmit := Sending ev cur qs\<rparr>"
  have "loop_step v env ttl w ?w" by (rule loop_step.send) (simp add: Cons.prems)
  then show ?case using Cons.IH [of ?w] by (simp add: converse_rtranclp_into_rtranclp)
qed

lemma steps_emit:
  assumes "wdEmit w = Captured ev" and "ranges (agPipe (wdAgent w)) sinks asyncs"
    and "run_sync env (SyncProcessors (plMgr (agPipe (wdAgent w)))) (stamp v (plMgr (agPipe (wdAgent w))) ev) (agHost (wdAgent w)) = (cur, hs0)"
    and "pipeline_Emit v env sinks asyncs (Some ev) (agPipe (wdAgent w)) (agHost (wdAgent w)) = (p, hs)"
  shows "(loop_step v env ttl)\<^sup>*\<^sup>* w
    (w\<lparr>wdAgent := (wdAgent w)\<lparr>agPipe := p, agHost := hs, agTrail := agTrail (wdAgent w) @ [(ev, cur)]\<rparr>, wdEmit := NotEmitting\<rparr>)"
proof -
  let ?m = "plMgr (agPipe (wdAgent w))" and ?qs = "map (Pair []) sinks @ map (Pair ''processor:'') asyncs"
  let ?a = "(wdAgent w)\<lparr>agHost := hs\<rparr>"
  have hs: "hs0 = hs" and p: "fold (\<lambda>x. send_or_drop (fst x) cur (snd x)) ?qs (agPipe (wdAgent w)) = p"
    using assms(3,4) by (simp_all add: pipeline_Emit_def fold_map comp_def)
  let ?R = "loop_step v env ttl"
  define w1 where "w1 = w\<lparr>wdEmit := Stamped ev (stamp v ?m ev)\<rparr>"
  define w2 where "w2 = w\<lparr>wdEmit := Syncing ev (SyncProcessors ?m) (stamp v ?m ev)\<rparr>"
  define w3 where "w3 = w\<lparr>wdAgent := ?a, wdEmit := Syncing ev [] cur\<rparr>"
  define w4 where "w4 = w\<lparr>wdAgent := ?a, wdEmit := Sending ev cur ?qs\<rparr>"
  define w5 where "w5 = w\<lparr>wdAgent := ?a\<lparr>agPipe := p\<rparr>, wdEmit := Sending ev cur []\<rparr>"
  define w6 where "w6 = w\<lparr>wdAgent := ?a\<lparr>agPipe := p, agTrail := agTrail (wdAgent w) @ [(ev, cur)]\<rparr>, wdEmit := NotEmitting\<rparr>"
  have r1: "?R w w1" unfolding w1_def by (rule loop_step.stamp [OF assms(1)])
  have r2: "?R w1 w2" using loop_step.processors [of w1 ev "stamp v ?m ev" v env ttl] by (simp add: w1_def w2_def)
  have r3: "?R\<^sup>*\<^sup>* w2 w3" using steps_sync [of w2 ev "SyncProcessors ?m" "stamp v ?m ev" env cur hs v ttl] assms(3) hs by (simp add: w2_def w3_def)
  have r4: "?R w3 w4" using loop_step.snapshot [of w3 ev cur sinks asyncs v env ttl] assms(2) by (simp add: w3_def w4_def)
  have r5: "?R\<^sup>*\<^sup>* w4 w5" using steps_sends [of w4 ev cur ?qs v env ttl] p by (simp add: w4_def w5_def)
  have r6: "?R w5 w6" using loop_step.sent [of w5 ev cur v env ttl] by (simp add: w5_def w6_def)
  have "?R\<^sup>*\<^sup>* w1 w3" using r2 r3 by (rule converse_rtranclp_into_rtranclp)
  moreover have "?R\<^sup>*\<^sup>* w3 w5" using r4 r5 by (rule converse_rtranclp_into_rtranclp)
  ultimately have "?R\<^sup>*\<^sup>* w w5" using r1 by (metis rtranclp_trans converse_rtranclp_into_rtranclp)
  then have "?R\<^sup>*\<^sup>* w w6" using r6 by (rule rtranclp.rtrancl_into_rtrancl)
  moreover have "?a\<lparr>agPipe := p, agTrail := t\<rparr> = (wdAgent w)\<lparr>agPipe := p, agHost := hs, agTrail := t\<rparr>" for t
    by (cases "wdAgent w") simp
  ultimately show ?thesis by (simp only: w6_def)
qed

lemma steps_sampled:
  assumes "agent_step v env ttl (wdAgent w) (Sampled inp raw) a" and "looks_into (wdHooks w) inp" and "wdEmit w = NotEmitting"
    and "loop_ok (agLoop (wdAgent w))"
  shows "(world_step v env ttl order)\<^sup>*\<^sup>* w (w\<lparr>wdAgent := a\<rparr>)"
proof -
  let ?s = "agLoop (wdAgent w)" and ?s' = "handle_sample ttl inp raw (agLoop (wdAgent w))"
  let ?p = "agPipe (wdAgent w)" and ?w = "w\<lparr>wdAgent := (wdAgent w)\<lparr>agLoop := ?s'\<rparr>\<rparr>"
  obtain es where es: "emitted ?s' = emitted ?s @ es" "length es \<le> 1" using sample_emits [OF assms(4)] by blast
  obtain tr p' hs' where st: "emit_all v env es (?p, agHost (wdAgent w)) tr (p', hs')"
    "a = \<lparr>agLoop = ?s', agPipe = p', agHost = hs', agTrail = agTrail (wdAgent w) @ tr\<rparr>"
    using assms(1) es(1) new_events_app by (elim agent_step_SampledE) metis
  have one: "loop_step v env ttl w (?w\<lparr>wdEmit := (case es of [] \<Rightarrow> NotEmitting | ev # _ \<Rightarrow> Captured ev)\<rparr>)"
    using loop_step.sample [OF assms(3,2) refl, of v env ttl raw] new_events_app [OF es(1)] by simp
  have "(loop_step v env ttl)\<^sup>*\<^sup>* w (w\<lparr>wdAgent := a\<rparr>)"
  proof (cases es)
    case Nil
    then have "tr = []" "p' = ?p" "hs' = agHost (wdAgent w)" using st(1) by (auto elim: emit_all_NilE)
    then have "?w\<lparr>wdEmit := NotEmitting\<rparr> = w\<lparr>wdAgent := a\<rparr>" using st(2) assms(3) by (cases w; cases "wdAgent w") simp
    then show ?thesis using one Nil by auto
  next
    case (Cons ev rest)
    then have ev: "es = [ev]" using es(2) by simp
    obtain sinks asyncs cur hs0 where e: "ranges ?p sinks asyncs"
      "run_sync env (SyncProcessors (plMgr ?p)) (stamp v (plMgr ?p) ev) (agHost (wdAgent w)) = (cur, hs0)" "tr = [(ev, cur)]"
      "pipeline_Emit v env sinks asyncs (Some ev) ?p (agHost (wdAgent w)) = (p', hs')"
      using st(1) unfolding ev by (elim emit_all_ConsE) (auto elim: emit_all_NilE)
    have "w\<lparr>wdAgent := a, wdEmit := NotEmitting\<rparr> = w\<lparr>wdAgent := a\<rparr>" using assms(3) by (cases w) simp
    moreover have "a = (wdAgent w)\<lparr>agLoop := ?s', agPipe := p', agHost := hs', agTrail := agTrail (wdAgent w) @ [(ev, cur)]\<rparr>"
      using st(2) e(3) by (cases "wdAgent w") simp
    moreover have "(loop_step v env ttl)\<^sup>*\<^sup>* (?w\<lparr>wdEmit := Captured ev\<rparr>)
        (w\<lparr>wdAgent := (wdAgent w)\<lparr>agLoop := ?s', agPipe := p', agHost := hs', agTrail := agTrail (wdAgent w) @ [(ev, cur)]\<rparr>, wdEmit := NotEmitting\<rparr>)"
      using steps_emit [of "?w\<lparr>wdEmit := Captured ev\<rparr>" ev sinks asyncs env v cur hs0 p' hs' ttl] e by simp
    ultimately show ?thesis using one unfolding ev by (simp add: converse_rtranclp_into_rtranclp)
  qed
  then show ?thesis by (rule rtranclp_mono [THEN predicate2D, rotated]) (auto intro: world_step.read_loop)
qed

text \<open>The handler of \<^verbatim>\<open>SIGHUP\<close> is a sequence of these steps, with the turns of the workers that fall into it.\<close>

lemma steps_turns:
  assumes "run_ops env (map (\<lambda>(i, d). Turn i d) sched) (agPipe (wdAgent w), agHost (wdAgent w)) = (p, hs)"
  shows "(world_step v env ttl order)\<^sup>*\<^sup>* w (w\<lparr>wdAgent := (wdAgent w)\<lparr>agPipe := p, agHost := hs\<rparr>\<rparr>)"
  using assms
proof (induction sched arbitrary: w)
  case Nil
  then have "w\<lparr>wdAgent := (wdAgent w)\<lparr>agPipe := p, agHost := hs\<rparr>\<rparr> = w" by (cases w; cases "wdAgent w") (simp add: run_ops_def)
  then show ?case by simp
next
  case (Cons t sched)
  obtain i d where t: "t = (i, d)" by fastforce
  obtain p1 hs1 where st: "worker_step env i d (agPipe (wdAgent w)) (agHost (wdAgent w)) = (p1, hs1)" by fastforce
  let ?w = "w\<lparr>wdAgent := (wdAgent w)\<lparr>agPipe := p1, agHost := hs1\<rparr>\<rparr>"
  have "world_step v env ttl order w ?w" by (rule world_step.turn [OF agent_step.turned [OF st]])
  moreover have "(world_step v env ttl order)\<^sup>*\<^sup>* ?w (?w\<lparr>wdAgent := (wdAgent ?w)\<lparr>agPipe := p, agHost := hs\<rparr>\<rparr>)"
    using Cons.prems st by (intro Cons.IH) (simp add: run_ops_def do_op_def t)
  ultimately show ?case by (simp add: converse_rtranclp_into_rtranclp)
qed

lemma steps_sighup:
  assumes pc: "wdReload w = AwaitSignal"
    and queues: "set ss = ran (plSinkQueues (agPipe (wdAgent w)))" "set as = ran (plAsyncQueues (agPipe (wdAgent w)))"
    and sig: "sighup env (cfg, None) (map (\<lambda>(i, d). Turn i d) before) ss as sched (agPipe (wdAgent w)) (wdMetrics w) (agHost (wdAgent w)) = Some (p, mt, hs)"
  shows "(world_step v env ttl order)\<^sup>*\<^sup>* w (w\<lparr>wdAgent := (wdAgent w)\<lparr>agPipe := p, agHost := hs\<rparr>, wdMetrics := mt\<rparr>)"
proof -
  let ?p = "agPipe (wdAgent w)"
  obtain e m hs1 where re: "Reload env cfg (plMgr ?p) (agHost (wdAgent w)) = (e, m, hs1)" by (metis prod_cases3)
  note step = world_step.reload [OF pc re]
  show ?thesis
  proof (cases e)
    case (Some err)
    then have r: "p = (agPipe (wdAgent w))\<lparr>plMgr := m\<rparr>" "mt = wdMetrics w" "hs = hs1" using sig re by (simp_all add: sighup_def)
    have "w\<lparr>wdAgent := a, wdReload := AwaitSignal\<rparr> = w\<lparr>wdAgent := a, wdMetrics := mt\<rparr>" for a using pc r(2) by (cases w) simp
    then show ?thesis using step Some r(1,3) by (auto intro!: r_into_rtranclp)
  next
    case None
    obtain p1 hs2 p2 where s: "run_ops env (map (\<lambda>(i, d). Turn i d) before) (?p\<lparr>plMgr := m\<rparr>, hs1) = (p1, hs2)"
      "stopWorkers env ss as sched p1 hs2 = Some (p2, hs)" "p = startWorkers p2" "mt = refreshPluginMetrics m (wdMetrics w)"
      using sighup_reloaded [OF sig re [unfolded None]] by metis
    have r: "run_ops env (map (\<lambda>(i, d). Turn i d) sched) (closeQueues ss as p1, hs2) = (p2, hs)" "all_done p2"
      using s(2) by (auto simp: stopWorkers_def run_workers_ops Let_def split: prod.splits if_splits)
    have m: "plMgr p2 = m" "plSinkQueues p1 = plSinkQueues ?p" "plAsyncQueues p1 = plAsyncQueues ?p"
      using run_ops_queues [of env "map (\<lambda>(i, d). Turn i d) before" "(?p\<lparr>plMgr := m\<rparr>, hs1)"]
        run_ops_queues [of env "map (\<lambda>(i, d). Turn i d) sched" "(closeQueues ss as p1, hs2)"] s(1) r(1)
      by (simp_all add: closeQueues_obs)
    define a where "a p hs = (wdAgent w)\<lparr>agPipe := p, agHost := hs\<rparr>" for p hs
    define w1 where "w1 p hs pc = w\<lparr>wdAgent := a p hs, wdReload := pc\<rparr>" for p hs pc
    have swap: "w\<lparr>wdReload := pc, wdAgent := x\<rparr> = w\<lparr>wdAgent := x, wdReload := pc\<rparr>" for pc x by (cases w) simp
    have await: "w\<lparr>wdAgent := x, wdMetrics := y, wdReload := AwaitSignal\<rparr> = w\<lparr>wdAgent := x, wdMetrics := y\<rparr>" for x y
      using pc by (cases w) simp
    have swap_a: "x\<lparr>agHost := k, agPipe := q\<rparr> = x\<lparr>agPipe := q, agHost := k\<rparr>" for x :: "'a agent" and q k by (cases x) simp
    have turns_w1: "(world_step v env ttl order)\<^sup>*\<^sup>* (w1 q1 k1 pc) (w1 q2 k2 pc)"
      if "run_ops env (map (\<lambda>(i, d). Turn i d) sc) (q1, k1) = (q2, k2)" for sc q1 k1 q2 k2 pc
      using steps_turns [of env sc "w1 q1 k1 pc" q2 k2 v ttl order] that by (simp add: w1_def a_def swap)
    have "world_step v env ttl order w (w1 (?p\<lparr>plMgr := m\<rparr>) hs1 ManagerReloaded)"
      using step None by (simp add: w1_def a_def)
    moreover have "(world_step v env ttl order)\<^sup>*\<^sup>* (w1 (?p\<lparr>plMgr := m\<rparr>) hs1 ManagerReloaded) (w1 p1 hs2 ManagerReloaded)"
      by (rule turns_w1 [OF s(1)])
    moreover have "world_step v env ttl order (w1 p1 hs2 ManagerReloaded) (w1 (closeQueues ss as p1) hs2 QueuesClosed)"
      using world_step.close [of "w1 p1 hs2 ManagerReloaded" ss as v env ttl order] queues m(2,3) by (simp add: w1_def a_def swap_a)
    moreover have "(world_step v env ttl order)\<^sup>*\<^sup>* (w1 (closeQueues ss as p1) hs2 QueuesClosed) (w1 p2 hs QueuesClosed)"
      by (rule turns_w1 [OF r(1)])
    moreover have "world_step v env ttl order (w1 p2 hs QueuesClosed) (w\<lparr>wdAgent := a p hs, wdMetrics := mt\<rparr>)"
      using world_step.restart [of "w1 p2 hs QueuesClosed" v env ttl order] r(2) s(3,4) m(1) by (simp add: w1_def a_def swap_a await)
    ultimately show ?thesis unfolding a_def [symmetric] by (meson converse_rtranclp_into_rtranclp r_into_rtranclp rtranclp_trans)
  qed
qed

section \<open>Properties\<close>

text \<open>C12: The handlers of both modes change the registry in atomic steps alone: they hook a container that the id of
  this program's own container does not match, detach one, update what is known of one that is hooked, or
  count an error. After every such step, so whenever the read loop looks into the registry while a handler runs, the
  registry is consistent, and when an own id was detected no container that it matches is in it (an id
  that was not detected matches none).\<close>

theorem handlers_step:
  assumes "order_ok order" and "events_ok h"
  shows "(reg_step order)\<^sup>*\<^sup>* h (fst (docker_loop order ds (scanRunning cs h))) \<and>
    (reg_step order)\<^sup>*\<^sup>* h (fst (watchPods order ann ps (scanRunningPods order ann pods h))) \<and>
    (\<forall>h'. (reg_step order)\<^sup>*\<^sup>* h h' \<longrightarrow> events_ok h' \<and> self_id h' = self_id h \<and>
       (self_id h \<noteq> [] \<longrightarrow> (\<forall>k \<in> hooked_ids h'. \<not> isSelfContainer (self_id h) k)))"
proof -
  have "(reg_step order)\<^sup>*\<^sup>* h (scanRunning cs h)" by (simp add: scanRunning_def steps_scan_list split: option.split)
  moreover have "events_ok h' \<and> self_id h' = self_id h" if "(reg_step order)\<^sup>*\<^sup>* h h'" for h'
    using reg.reached [OF that, of "self_id h"] assms by blast
  ultimately show ?thesis
    using rtranclp_trans [OF _ steps_docker_loop]
      rtranclp_trans [OF steps_pods(1) [OF assms(2,1)] steps_pods(2) [OF scanRunningPods_events [OF assms(2,1)] assms(1)]]
    by (metis events_ok_def is_self_eq)
qed

theorem handlers_step_witness:
  "\<exists>h. h = fst (docker_loop sorted_order [DockerError] (scanRunning (Some [example_container]) (started ''me'' []))) \<and>
     (reg_step sorted_order)\<^sup>*\<^sup>* (started ''me'' []) h \<and> hooked_ids h = {''c1''} \<and> \<not> isSelfContainer ''me'' ''c1''"
proof -
  let ?h = "fst (docker_loop sorted_order [DockerError] (scanRunning (Some [example_container]) (started ''me'' [])))"
  have s: "scanRunning (Some [example_container]) (started ''me'' []) = scan_list [example_container] (started ''me'' [])"
    by (simp only: scanRunning_def option.case)
  note all = handlers_step [OF sorted_order_ok started_ok, of "''me''" "[]" "[DockerError]" "Some [example_container]"]
  have run: "(reg_step sorted_order)\<^sup>*\<^sup>* (started ''me'' []) ?h" by (rule conjunct1 [OF all])
  have ids: "hooked_ids ?h = {''c1''}" unfolding s by (simp add: hooked_ids_def example_scan del: scan_list.simps)
  have "self_id (started ''me'' []) = ''me''" by (simp add: self_id_def started_def watch_init_def)
  then have "\<forall>k \<in> hooked_ids ?h. \<not> isSelfContainer ''me'' k"
    using conjunct2 [OF conjunct2 [OF all], THEN spec, THEN mp, OF run] by simp
  then show ?thesis using run ids by (intro exI [of _ ?h]) simp
qed



end
