(* ===== verification/Go_Discovery.thy ===== *)
theory Go_Discovery
  imports Discovery
begin

text \<open>
  Which executable the probe for Go programs is put on: the candidates of \<^verbatim>\<open>attachGoTLS\<close> (\<^verbatim>\<open>go_tls.go\<close>),
  the test \<^verbatim>\<open>isGoBinary\<close> (\<^verbatim>\<open>symbols.go\<close>) and the lookup of the symbol with its cache, over a file system. The
  candidates of a process are its link below \<^verbatim>\<open>/proc\<close>, what that link resolves to, and the same path
  below the root of its container.
\<close>

section \<open>Candidates\<close>

text \<open>What the code asks of files: \<open>gfEval\<close> is \<^verbatim>\<open>filepath.EvalSymlinks\<close>, \<open>gfStat\<close> the time and size of
  \<^verbatim>\<open>os.Stat\<close>, \<open>gfInfo\<close> the Go version in \<^verbatim>\<open>buildinfo.ReadFile\<close>, \<open>gfElf\<close> the parsed file.\<close>

record goFiles =
  gfEval :: "string \<Rightarrow> string option"
  gfStat :: "string \<Rightarrow> (int \<times> int) option"
  gfInfo :: "string \<Rightarrow> string option"
  gfElf :: "string \<Rightarrow> elfFile option"

definition isGoBinary :: "goFiles \<Rightarrow> string \<Rightarrow> bool" where
  "isGoBinary g path = (case gfInfo g path of None \<Rightarrow> False | Some version \<Rightarrow> version \<noteq> [])"

definition procExe :: "nat \<Rightarrow> string" where
  "procExe pid = ''/proc/'' @ itoa pid @ ''/exe''"

definition go_exes :: "goFiles \<Rightarrow> nat \<Rightarrow> string list" where
  "go_exes g pid =
     (let exePath = procExe pid;
          resolved = (case gfEval g exePath of None \<Rightarrow> exePath | Some r \<Rightarrow> r);
          rootExe = filepath_Join (procRoot pid) (TrimPrefix resolved ''/'')
      in [exePath, resolved, rootExe])"

text \<open>The environment of an attachment over these files, with the symbol cache as it is.\<close>

definition go_discovering :: "goFiles \<Rightarrow> symbolCache \<Rightarrow> hookEnv \<Rightarrow> hookEnv" where
  "go_discovering g cache env =
     env\<lparr>heGoExes := (\<lambda>pid. go_exes g (nat pid)), heStat := (\<lambda>p. gfStat g p \<noteq> None), heIsGo := isGoBinary g,
         heResolve := (\<lambda>p. map_option fst (fst (resolveGoTLSWriteOffset (gfStat g) (gfElf g) p cache)))\<rparr>"

section \<open>Lemmas\<close>

text \<open>A candidate that every test of the loop lets through.\<close>

definition probe_fits :: "hookEnv \<Rightarrow> string \<Rightarrow> bool" where
  "probe_fits env p \<longleftrightarrow> p \<noteq> [] \<and> heStat env p \<and> heIsGo env p \<and>
     (case heResolve env p of None \<Rightarrow> False | Some off \<Rightarrow> heOpen env p \<and> heGoUprobe env p off)"

definition probe_on :: "hookEnv \<Rightarrow> string \<Rightarrow> link \<Rightarrow> goProbe" where
  "probe_on env p next = \<lparr>gpPath = p, gpOffset = the (heResolve env p), gpLink = next\<rparr>"

lemma attach_go_find:
  "attach_go env paths next =
     (case find (probe_fits env) paths of None \<Rightarrow> (None, next) | Some p \<Rightarrow> (Some (probe_on env p next), next + 1))"
  by (induction paths) (auto simp: probe_fits_def probe_on_def split: option.split)

text \<open>
  Asking again for a path gives the same offset while the file stays, as the answer is in the cache: the
  environment may ignore what the loop itself adds to the cache.
\<close>

lemma resolve_again:
  assumes "resolveGoTLSWriteOffset stat openElf p cache = (r, cache')"
  shows "map_option fst (fst (resolveGoTLSWriteOffset stat openElf p cache')) = map_option fst r"
    and "q \<noteq> p \<Longrightarrow> fst (resolveGoTLSWriteOffset stat openElf q cache') = fst (resolveGoTLSWriteOffset stat openElf q cache)"
proof -
  define look where "look = lookupGoTLSWrite (openElf p)"
  define new where "new mtime sz = \<lparr>scModTime = mtime, scSize = sz, scOffset = (case look of None \<Rightarrow> 0 | Some (off, _) \<Rightarrow> off), scOk = (look \<noteq> None)\<rparr>" for mtime sz
  have one: "(r = look \<and> (\<exists>m z. stat p = Some (m, z) \<and> cache' = cache(p \<mapsto> new m z))) \<or> cache' = cache"
    using assms unfolding resolveGoTLSWriteOffset_def Let_def look_def [symmetric] new_def by (simp split: option.splits prod.splits if_splits)
  have again: "map_option fst (fst (resolveGoTLSWriteOffset stat openElf p (cache(p \<mapsto> new m z)))) = map_option fst look"
    if "stat p = Some (m, z)" for m z
    using that by (cases look) (auto simp: resolveGoTLSWriteOffset_def new_def)
  show "map_option fst (fst (resolveGoTLSWriteOffset stat openElf p cache')) = map_option fst r"
    using one again assms by (metis fst_conv)
  assume "q \<noteq> p"
  then have "cache' q = cache q" using one by auto
  then show "fst (resolveGoTLSWriteOffset stat openElf q cache') = fst (resolveGoTLSWriteOffset stat openElf q cache)"
    by (simp add: resolveGoTLSWriteOffset_def Let_def split: option.split prod.split)
qed

section \<open>Properties\<close>

text \<open>C30: Where the probe for Go programs goes: an attachment hands out a link when the probe is loaded and one
  of the candidates exists, is a Go program, has the symbol and takes the probe; the link is the one new
  one, and the probe is on the first such candidate, at the offset of the symbol in that file. The candidates are
  the link of the process below /proc, what it resolves to and that path below the root of the
  container, in this order. So it need not be the container's program: the second candidate is a path inside the
  container that is opened on the host, and when the process itself does not run a Go program and the host
  has one at that path that takes the probe, the probe is on the host's file.\<close>

theorem go_probe_target:
  fixes g cache env pid
  defines "E \<equiv> go_discovering g cache env"
  shows "(\<forall>gp next'. attachGoTLS E pid next = (Some gp, next') \<longleftrightarrow>
      gpLink gp = next \<and> next' = next + 1 \<and> heGoProbe env \<and> heResolve E (gpPath gp) = Some (gpOffset gp) \<and>
      find (probe_fits E) (go_exes g (nat pid)) = Some (gpPath gp)) \<and>
    (\<forall>p. find (probe_fits E) (go_exes g (nat pid)) = Some p \<longrightarrow>
       isGoBinary g p \<and> (\<exists>off. heResolve E p = Some off \<and> heGoUprobe env p off) \<and>
       (p = procExe (nat pid) \<or> in_container (nat pid) p \<or> gfEval g (procExe (nat pid)) = Some p)) \<and>
    (\<forall>host. gfEval g (procExe (nat pid)) = Some host \<and> \<not> isGoBinary g (procExe (nat pid)) \<and> probe_fits E host \<and> heGoProbe env \<longrightarrow>
       (\<exists>gp. attachGoTLS E pid next = (Some gp, next + 1) \<and> gpPath gp = host \<and> gpLink gp = next))"
proof -
  have E: "heGoProbe E = heGoProbe env" "heGoExes E pid = go_exes g (nat pid)" "heGoUprobe E = heGoUprobe env" "heIsGo E = isGoBinary g"
    by (simp_all add: E_def go_discovering_def)
  have cand: "p = procExe (nat pid) \<or> in_container (nat pid) p \<or> gfEval g (procExe (nat pid)) = Some p" if "p \<in> set (go_exes g (nat pid))" for p
    using that by (auto simp: go_exes_def Let_def in_container_def filepath_Join_def split: option.splits)
  have fits: "isGoBinary g p \<and> (\<exists>off. heResolve E p = Some off \<and> heGoUprobe env p off) \<and>
      (p = procExe (nat pid) \<or> in_container (nat pid) p \<or> gfEval g (procExe (nat pid)) = Some p)"
    if "find (probe_fits E) (go_exes g (nat pid)) = Some p" for p
  proof -
    have "probe_fits E p" "p \<in> set (go_exes g (nat pid))" using that by (auto simp: find_Some_iff)
    then show ?thesis using cand E(3,4) by (auto simp: probe_fits_def split: option.splits)
  qed
  have host: "find (probe_fits E) (go_exes g (nat pid)) = Some host"
    if "gfEval g (procExe (nat pid)) = Some host" "\<not> isGoBinary g (procExe (nat pid))" "probe_fits E host" for host
  proof -
    have "\<not> probe_fits E (procExe (nat pid))" using that(2) by (simp add: probe_fits_def E(4))
    then show ?thesis using that(1,3) by (simp add: go_exes_def)
  qed
  have run: "attachGoTLS E pid next = (if heGoProbe env then
      (case find (probe_fits E) (go_exes g (nat pid)) of None \<Rightarrow> (None, next) | Some p \<Rightarrow> (Some (probe_on E p next), next + 1)) else (None, next))"
    by (simp add: attachGoTLS_def attach_go_find E)
  have "attachGoTLS E pid next = (Some gp, next') \<longleftrightarrow> gpLink gp = next \<and> next' = next + 1 \<and> heGoProbe env \<and>
      heResolve E (gpPath gp) = Some (gpOffset gp) \<and> find (probe_fits E) (go_exes g (nat pid)) = Some (gpPath gp)" for gp next'
    using fits unfolding run probe_on_def by (cases gp) (auto split: option.splits)
  then show ?thesis using fits host run by (auto simp: probe_on_def)
qed

text \<open>A process whose program is not a Go program, on a host that has one at the same path.\<close>

definition host_go :: goFiles where
  "host_go = \<lparr>gfEval = (\<lambda>_. Some ''/usr/bin/app''), gfStat = (\<lambda>_. Some (0, 0)),
     gfInfo = (\<lambda>p. if p = ''/usr/bin/app'' then Some ''go1.22'' else None), gfElf = (\<lambda>_. None)\<rparr>"

definition host_cache :: symbolCache where
  "host_cache = [''/usr/bin/app'' \<mapsto> \<lparr>scModTime = 0, scSize = 0, scOffset = 64, scOk = True\<rparr>]"

theorem go_probe_target_witness:
  "\<exists>env gp. attachGoTLS (go_discovering host_go host_cache env) 7 5 = (Some gp, 6) \<and> gpPath gp = ''/usr/bin/app''"
proof -
  let ?env = "example_hooks\<lparr>heGoProbe := True, heGoUprobe := (\<lambda>_ _. True)\<rparr>"
  have "''/usr/bin/app'' \<noteq> procExe 7" by code_simp
  then have c: "gfEval host_go (procExe 7) = Some ''/usr/bin/app''" "\<not> isGoBinary host_go (procExe 7)"
    "probe_fits (go_discovering host_go host_cache ?env) ''/usr/bin/app''" "heGoProbe ?env"
    by (simp_all add: host_go_def host_cache_def isGoBinary_def probe_fits_def go_discovering_def resolveGoTLSWriteOffset_def example_hooks_def)
  have seven: "nat 7 = 7" by simp
  note conjunct2 [OF conjunct2 [OF go_probe_target [of host_go host_cache ?env 7 5]], unfolded seven, rule_format, of "''/usr/bin/app''"]
  with c obtain gp where "attachGoTLS (go_discovering host_go host_cache ?env) 7 5 = (Some gp, 5 + 1)" "gpPath gp = ''/usr/bin/app''" by blast
  moreover have "(5 :: nat) + 1 = 6" by simp
  ultimately show ?thesis by metis
qed

end
