(* ===== verification/Http_Routes.thy ===== *)
theory Http_Routes
  imports Sink_Debugws
begin

text \<open>
  The two HTTP servers: \<^verbatim>\<open>server.go\<close> of the daemon and \<^verbatim>\<open>startHTTP\<close> of the debug sink. What is modelled is
  which handler answers a request (\<^verbatim>\<open>http.ServeMux\<close> with its cleaning of paths, for methods other than
  CONNECT) and what the handlers of this repository then do. The metrics page, the file server, the
  table of MIME types and the upgrade to a web socket are the libraries'; sockets are left out.
\<close>

section \<open>Paths (path, net/http)\<close>

text \<open>\<^verbatim>\<open>path.Clean\<close> of a rooted path, element by element; the first argument is the output, reversed.\<close>

fun clean_elems :: "string list \<Rightarrow> string list \<Rightarrow> string list" where
  "clean_elems out [] = rev out"
| "clean_elems out (e # es) =
     (if e = [] \<or> e = ''.'' then clean_elems out es
      else if e = ''..'' then clean_elems (tl out) es
      else clean_elems (e # out) es)"

definition path_Clean :: "string \<Rightarrow> string" where
  "path_Clean p = CHR ''/'' # Join (CHR ''/'') (clean_elems [] (Split p (CHR ''/'')))"

definition cleanPath :: "string \<Rightarrow> string" where
  "cleanPath p =
     (if p = [] then ''/''
      else let p = (if hd p \<noteq> CHR ''/'' then CHR ''/'' # p else p);
               np = path_Clean p
           in if last p = CHR ''/'' \<and> np \<noteq> ''/'' then np @ ''/'' else np)"

text \<open>\<^verbatim>\<open>filepath.Ext\<close>: from the last dot of the last element on.\<close>

definition filepath_Ext :: "string \<Rightarrow> string" where
  "filepath_Ext path =
     (let name = rev (takeWhile (\<lambda>c. c \<noteq> CHR ''/'') (rev path));
          ext = rev (takeWhile (\<lambda>c. c \<noteq> CHR ''.'') (rev name))
      in if CHR ''.'' \<in> set name then CHR ''.'' # ext else [])"

section \<open>Routing (net/http)\<close>

text \<open>The path of the request as it was sent, and decoded.\<close>

record http_request =
  hrEscaped :: string
  hrPath :: string

datatype route = Redirect string | Named | Rest

text \<open>
  A mux with one path of a single element, and \<^verbatim>\<open>/\<close> for all the rest; elements are decoded
  (\<open>unescape\<close>) before they are compared.
\<close>

definition mux_match :: "(string \<Rightarrow> string) \<Rightarrow> string \<Rightarrow> string \<Rightarrow> bool" where
  "mux_match unescape name path =
     (case path of [] \<Rightarrow> False | c # seg \<Rightarrow> c = CHR ''/'' \<and> CHR ''/'' \<notin> set seg \<and> unescape seg = name)"

definition serve_mux :: "(string \<Rightarrow> string) \<Rightarrow> string \<Rightarrow> http_request \<Rightarrow> route" where
  "serve_mux unescape name rq =
     (let path = cleanPath (hrEscaped rq)
      in if path \<noteq> hrEscaped rq then Redirect path
         else if mux_match unescape name path then Named else Rest)"

section \<open>The servers\<close>

datatype answer = Moved string | MetricsPage | NotFoundPage | Banner

definition metrics_server :: "(string \<Rightarrow> string) \<Rightarrow> http_request \<Rightarrow> answer" where
  "metrics_server unescape rq =
     (case serve_mux unescape ''metrics'' rq of
        Redirect p \<Rightarrow> Moved p
      | Named \<Rightarrow> MetricsPage
      | Rest \<Rightarrow> if hrPath rq \<noteq> ''/'' then NotFoundPage else Banner)"

text \<open>
  The debug sink: \<open>upgraded\<close> tells whether the upgrade succeeds, \<open>uiDir\<close> whether there is a directory with the
  user interface, which a file server then answers from, with the content type that is set before.
\<close>

datatype ws_answer = WsMoved string | WsUpgraded | WsRefused | WsFile "string option" | WsMissing

definition ui_type :: "(string \<Rightarrow> string option) \<Rightarrow> string \<Rightarrow> string option" where
  "ui_type mime path = (let ext = filepath_Ext path in if ext \<noteq> [] then mime ext else None)"

definition startHTTP :: "(string \<Rightarrow> string) \<Rightarrow> (string \<Rightarrow> string option) \<Rightarrow> bool \<Rightarrow> bool \<Rightarrow> http_request \<Rightarrow> hub \<Rightarrow> ws_answer \<times> hub" where
  "startHTTP unescape mime uiDir upgraded rq h =
     (case serve_mux unescape ''ws'' rq of
        Redirect p \<Rightarrow> (WsMoved p, h)
      | Named \<Rightarrow> if upgraded then (WsUpgraded, hub_connect h) else (WsRefused, h)
      | Rest \<Rightarrow> (if uiDir then WsFile (ui_type mime (hrPath rq)) else WsMissing, h))"

section \<open>Lemmas\<close>

definition plain_elem :: "string \<Rightarrow> bool" where
  "plain_elem e \<longleftrightarrow> e \<noteq> [] \<and> e \<noteq> ''.'' \<and> e \<noteq> ''..'' \<and> CHR ''/'' \<notin> set e"

lemma clean_elems_plain:
  "\<forall>e \<in> set es. CHR ''/'' \<notin> set e \<Longrightarrow> \<forall>e \<in> set out. plain_elem e \<Longrightarrow> \<forall>e \<in> set (clean_elems out es). plain_elem e"
proof (induction out es rule: clean_elems.induct)
  case (2 out e es)
  have tl: "\<forall>x \<in> set (tl out). plain_elem x" using 2(5) by (cases out) auto
  consider "e = [] \<or> e = ''.''" | "\<not> (e = [] \<or> e = ''.'')" "e = ''..''" | "\<not> (e = [] \<or> e = ''.'')" "e \<noteq> ''..''" by blast
  then show ?case
  proof cases
    case 1
    then have "clean_elems out (e # es) = clean_elems out es" by simp
    then show ?thesis using "2.IH"(1) [OF 1] "2.prems" by simp
  next
    case 2
    then have "clean_elems out (e # es) = clean_elems (tl out) es" by simp
    then show ?thesis using "2.IH"(2) [OF 2] "2.prems"(1) tl by simp
  next
    case 3
    then have "clean_elems out (e # es) = clean_elems (e # out) es" by simp
    moreover have "plain_elem e" using 3 "2.prems"(1) unfolding plain_elem_def by (meson list.set_intros(1))
    then have o: "\<forall>x \<in> set (e # out). plain_elem x" using "2.prems"(2) by simp
    have "\<forall>x \<in> set es. CHR ''/'' \<notin> set x" using "2.prems"(1) by simp
    from "2.IH"(3) [OF 3 this o] have "\<forall>x \<in> set (clean_elems (e # out) es). plain_elem x" .
    ultimately show ?thesis by metis
  qed
qed simp

lemma clean_elems_id: "\<forall>e \<in> set es. plain_elem e \<Longrightarrow> clean_elems out (es @ rest) = clean_elems (rev es @ out) rest"
  by (induction es arbitrary: out) (auto simp: plain_elem_def)

lemma Split_rooted: "Split (CHR ''/'' # s) (CHR ''/'') = [] # Split s (CHR ''/'')"
  by (cases "Split s (CHR ''/'')") auto

lemma Join_snoc: "ws \<noteq> [] \<Longrightarrow> Join sep (ws @ [w]) = Join sep ws @ sep # w"
  by (induction sep ws rule: Join.induct) auto

lemma last_Join: "ws \<noteq> [] \<Longrightarrow> last ws \<noteq> [] \<Longrightarrow> Join sep ws \<noteq> [] \<and> last (Join sep ws) = last (last ws)"
  by (induction sep ws rule: Join.induct) auto

lemma path_Clean_plain:
  assumes "\<forall>e \<in> set es. plain_elem e" and "es \<noteq> []"
  shows "path_Clean (CHR ''/'' # Join (CHR ''/'') es) = CHR ''/'' # Join (CHR ''/'') es"
    and "path_Clean (CHR ''/'' # Join (CHR ''/'') es @ ''/'') = CHR ''/'' # Join (CHR ''/'') es"
proof -
  have s: "Split (Join (CHR ''/'') es) (CHR ''/'') = es" "Split (Join (CHR ''/'') (es @ [[]])) (CHR ''/'') = es @ [[]]"
    using assms by (intro Split_Join; simp add: plain_elem_def)+
  then show "path_Clean (CHR ''/'' # Join (CHR ''/'') es) = CHR ''/'' # Join (CHR ''/'') es"
    using clean_elems_id [OF assms(1), of "[]" "[]"] unfolding path_Clean_def Split_rooted by simp
  show "path_Clean (CHR ''/'' # Join (CHR ''/'') es @ ''/'') = CHR ''/'' # Join (CHR ''/'') es"
    using s(2) clean_elems_id [OF assms(1), of "[]" "[[]]"] unfolding path_Clean_def Split_rooted
    by (simp add: Join_snoc assms(2))
qed

lemma cleanPath_idem: "cleanPath (cleanPath p) = cleanPath p"
proof (cases "p = []")
  case False
  define q where "q = (if hd p \<noteq> CHR ''/'' then CHR ''/'' # p else p)"
  define es where "es = clean_elems [] (Split q (CHR ''/''))"
  let ?np = "CHR ''/'' # Join (CHR ''/'') es"
  have plain: "\<forall>e \<in> set es. plain_elem e"
    unfolding es_def by (rule clean_elems_plain) (auto dest: Split_sep_free)
  have np: "path_Clean q = ?np" by (simp add: path_Clean_def es_def)
  have c: "cleanPath p = (if last q = CHR ''/'' \<and> ?np \<noteq> ''/'' then ?np @ ''/'' else ?np)"
    using False np unfolding cleanPath_def Let_def q_def [symmetric] by simp
  show ?thesis
  proof (cases "es = []")
    case True
    have "cleanPath ''/'' = ''/''" by (simp add: cleanPath_def path_Clean_def)
    then show ?thesis using c True by simp
  next
    case es: False
    have "plain_elem (last es)" using plain es by simp
    then have e: "last es \<noteq> []" "CHR ''/'' \<notin> set (last es)" by (simp_all add: plain_elem_def)
    then have "last (last es) \<noteq> CHR ''/''" using last_in_set by metis
    then have l: "Join (CHR ''/'') es \<noteq> []" "last ?np \<noteq> CHR ''/''"
      using last_Join [OF es e(1), of "CHR ''/''"] by simp_all
    note pc = path_Clean_plain [OF plain es]
    have "cleanPath ?np = ?np" "cleanPath (?np @ ''/'') = ?np @ ''/''"
      using pc l by (simp_all add: cleanPath_def)
    then show ?thesis using c by simp
  qed
qed (simp add: cleanPath_def path_Clean_def)

section \<open>Properties\<close>

text \<open>The daemon answers the metrics page at \<^verbatim>\<open>/metrics\<close> alone, its banner at \<^verbatim>\<open>/\<close> alone, and nothing else of any
  path; a request is redirected at most once.\<close>

theorem metrics_routes:
  "case metrics_server unescape rq of
     MetricsPage \<Rightarrow> \<exists>seg. hrEscaped rq = CHR ''/'' # seg \<and> CHR ''/'' \<notin> set seg \<and> unescape seg = ''metrics''
   | Banner \<Rightarrow> hrPath rq = ''/''
   | NotFoundPage \<Rightarrow> hrPath rq \<noteq> ''/''
   | Moved p \<Rightarrow> p = cleanPath (hrEscaped rq) \<and> p \<noteq> hrEscaped rq \<and> (\<forall>q path. metrics_server unescape \<lparr>hrEscaped = p, hrPath = path\<rparr> \<noteq> Moved q)"
  using cleanPath_idem [of "hrEscaped rq"]
  by (auto simp: metrics_server_def serve_mux_def mux_match_def Let_def split: list.splits)

text \<open>A page of the debug sink joins the hub exactly when the upgrade of a request for \<^verbatim>\<open>/ws\<close> succeeds.\<close>

theorem debug_routes:
  assumes "startHTTP unescape mime uiDir upgraded rq h = (a, h')"
  shows "h' = (if a = WsUpgraded then hub_connect h else h)"
    and "a = WsUpgraded \<longleftrightarrow> upgraded \<and> cleanPath (hrEscaped rq) = hrEscaped rq \<and> mux_match unescape ''ws'' (hrEscaped rq)"
  using assms by (auto simp: startHTTP_def serve_mux_def Let_def split: route.splits if_splits)

end
