(* ===== verification/Log_Preview.thy ===== *)
theory Log_Preview
  imports Event Env_Filters
begin

text \<open>
  The preview of a payload in the log (\<^verbatim>\<open>sanitizeUTF8\<close> and \<^verbatim>\<open>formatPayloadForLog\<close> of \<^verbatim>\<open>main.go\<close>), with
  the UTF-8 of package \<^verbatim>\<open>unicode/utf8\<close> written out: overlong forms, surrogates and values above U+10FFFF
  are invalid, and an invalid byte is a rune of width one.
\<close>

section \<open>UTF-8 (unicode/utf8)\<close>

definition cont :: "u8 \<Rightarrow> bool" where
  "cont b \<longleftrightarrow> 0x80 \<le> b \<and> b \<le> 0xBF"

text \<open>The range of the second byte, by the first one, for sequences of two, three and four bytes.\<close>

definition second_ok :: "u8 \<Rightarrow> u8 \<Rightarrow> bool" where
  "second_ok a b \<longleftrightarrow>
     (if a = 0xE0 then 0xA0 else if a = 0xF0 then 0x90 else 0x80) \<le> b \<and>
     b \<le> (if a = 0xED then 0x9F else if a = 0xF4 then 0x8F else 0xBF)"

text \<open>The width of the rune at the head, \<open>None\<close> when the head is not the start of one.\<close>

fun rune_width :: "bytes \<Rightarrow> nat option" where
  "rune_width [] = None"
| "rune_width (a # s) =
     (if a < 0x80 then Some 1
      else if 0xC2 \<le> a \<and> a \<le> 0xDF then (case s of b # _ \<Rightarrow> if cont b then Some 2 else None | _ \<Rightarrow> None)
      else if 0xE0 \<le> a \<and> a \<le> 0xEF then
        (case s of b # c # _ \<Rightarrow> if second_ok a b \<and> cont c then Some 3 else None | _ \<Rightarrow> None)
      else if 0xF0 \<le> a \<and> a \<le> 0xF4 then
        (case s of b # c # d # _ \<Rightarrow> if second_ok a b \<and> cont c \<and> cont d then Some 4 else None | _ \<Rightarrow> None)
      else None)"

lemma rune_width_bounds: "rune_width s = Some n \<Longrightarrow> 0 < n \<and> n \<le> length s"
  by (cases s) (auto split: if_splits list.splits)

lemma rune_width_mono: "rune_width s = Some n \<Longrightarrow> rune_width (take n s @ t) = Some n"
  by (cases s) (auto split: if_splits list.splits)

function ValidString :: "bytes \<Rightarrow> bool" where
  "ValidString s =
     (if s = [] then True else case rune_width s of None \<Rightarrow> False | Some n \<Rightarrow> ValidString (drop n s))"
  by pat_completeness auto
termination
  by (relation "measure length") (auto dest: rune_width_bounds)

declare ValidString.simps [simp del]

text \<open>\<^verbatim>\<open>strings.ToValidUTF8\<close>: one replacement for each run of invalid bytes; \<open>bad\<close>: inside such a run.\<close>

function valid_loop :: "bytes \<Rightarrow> bool \<Rightarrow> bytes \<Rightarrow> bytes" where
  "valid_loop r bad s =
     (if s = [] then []
      else case rune_width s of
             None \<Rightarrow> (if bad then [] else r) @ valid_loop r True (drop 1 s)
           | Some n \<Rightarrow> take n s @ valid_loop r False (drop n s))"
  by pat_completeness auto
termination
  by (relation "measure (\<lambda>(r, bad, s). length s)") (auto dest: rune_width_bounds)

declare valid_loop.simps [simp del]

definition ToValidUTF8 :: "bytes \<Rightarrow> bytes \<Rightarrow> bytes" where
  "ToValidUTF8 s r = valid_loop r False s"

section \<open>The preview\<close>

definition sanitizeUTF8 :: "bytes \<Rightarrow> bytes" where
  "sanitizeUTF8 b = (if ValidString b then b else ToValidUTF8 b [0xEF, 0xBF, 0xBD])"

definition dots :: bytes where
  "dots = [0x2E, 0x2E, 0x2E]"

definition formatPayloadForLog :: "int \<Rightarrow> bytes \<Rightarrow> bytes" where
  "formatPayloadForLog logPayloadMaxBytes b =
     (if int (length b) \<le> logPayloadMaxBytes then sanitizeUTF8 b
      else if logPayloadMaxBytes = 0 then dots
      else sanitizeUTF8 (take (nat logPayloadMaxBytes) b) @ dots)"

section \<open>Lemmas\<close>

lemma ValidString_Nil [simp]: "ValidString []"
  by (simp add: ValidString.simps)

lemma ValidString_rune: "rune_width s = Some n \<Longrightarrow> ValidString s = ValidString (drop n s)"
  using rune_width_bounds [of s n] by (subst ValidString.simps) auto

lemma ValidString_append: "ValidString s \<Longrightarrow> ValidString t \<Longrightarrow> ValidString (s @ t)"
proof (induction s rule: ValidString.induct)
  case (1 s)
  show ?case
  proof (cases "s = []")
    case False
    then obtain n where n: "rune_width s = Some n" "ValidString (drop n s)"
      using 1(2) by (subst (asm) ValidString.simps) (auto split: option.splits)
    note b = rune_width_bounds [OF n(1)]
    have "rune_width (s @ t) = Some n"
      using rune_width_mono [OF n(1), of "drop n s @ t"] append_take_drop_id [of n s] by (metis append_assoc)
    then show ?thesis
      using 1(1) [OF False n(1,2) 1(3)] b by (simp add: ValidString_rune)
  qed (use 1 in simp)
qed

lemma ValidString_take: "rune_width s = Some n \<Longrightarrow> ValidString (take n s)"
  using ValidString_rune [of "take n s" n] rune_width_mono [of s n "[]"] by simp

lemma valid_loop_valid: "ValidString r \<Longrightarrow> ValidString (valid_loop r bad s)"
proof (induction r bad s rule: valid_loop.induct)
  case (1 r bad s)
  then show ?case
    by (subst valid_loop.simps) (auto split: option.splits intro!: ValidString_append ValidString_take)
qed

lemma valid_loop_id: "ValidString s \<Longrightarrow> valid_loop r bad s = s"
proof (induction s arbitrary: bad rule: ValidString.induct)
  case (1 s)
  then show ?case
    by (subst valid_loop.simps) (auto simp: ValidString.simps [of s] split: option.splits)
qed

lemma valid_loop_length: "length (valid_loop [a, b, c] bad s) \<le> 3 * length s"
proof (induction "[a, b, c]" bad s rule: valid_loop.induct)
  case (1 bad s)
  show ?case
  proof (cases "s = []")
    case False
    show ?thesis
    proof (cases "rune_width s")
      case None
      have "3 * length s = 3 * (length s - 1) + 3" using False by (cases s) simp_all
      then show ?thesis using 1(1) [OF False None] False None by (subst valid_loop.simps) (auto split: if_splits)
    next
      case (Some n)
      have "length (valid_loop [a, b, c] False (drop n s)) \<le> 3 * (length s - n)" using 1(2) [OF False Some] by simp
      then show ?thesis using rune_width_bounds [OF Some] False Some by (subst valid_loop.simps) auto
    qed
  qed (simp add: valid_loop.simps)
qed

lemma replacement_valid: "ValidString [0xEF, 0xBF, 0xBD]" "ValidString dots"
  by (simp_all add: dots_def ValidString.simps cont_def second_ok_def)

section \<open>Properties\<close>

text \<open>What is logged of a payload is valid UTF-8 whatever was captured, is the payload itself when that is valid
  and within the limit, and has at most three bytes for each byte shown and three for the dots.\<close>

theorem log_preview:
  assumes "0 \<le> n"
  shows "ValidString (formatPayloadForLog n b)"
    and "ValidString b \<Longrightarrow> int (length b) \<le> n \<Longrightarrow> formatPayloadForLog n b = b"
    and "int (length (formatPayloadForLog n b)) \<le> 3 * min n (int (length b)) + 3"
proof -
  have v: "ValidString (sanitizeUTF8 s)" for s
    using valid_loop_valid [OF replacement_valid(1)] by (simp add: sanitizeUTF8_def ToValidUTF8_def)
  then show "ValidString (formatPayloadForLog n b)"
    by (simp add: formatPayloadForLog_def replacement_valid(2) ValidString_append)
  show "ValidString b \<Longrightarrow> int (length b) \<le> n \<Longrightarrow> formatPayloadForLog n b = b"
    by (simp add: formatPayloadForLog_def sanitizeUTF8_def)
  have "length (sanitizeUTF8 s) \<le> 3 * length s" for s
    using valid_loop_length [of _ _ _ False s] by (simp add: sanitizeUTF8_def ToValidUTF8_def)
  from this [of b] this [of "take (nat n) b"] show "int (length (formatPayloadForLog n b)) \<le> 3 * min n (int (length b)) + 3"
    using assms by (auto simp: formatPayloadForLog_def dots_def min_def split: if_splits)
qed

end
