(* ===== verification/Spec2Isabelle.thy ===== *)
theory Spec2Isabelle
  imports Capture_Props Capture_Bound Run_Modes Startup Shipped_Plugins Sink_Delivery Agent Program World Config Go_Discovery Http_Routes Log_Preview
begin

text \<open>
  ClawGuard captures the plaintext that containers pass to TLS libraries. eBPF uprobes copy the
  buffer of a write in fragments of 512 bytes into a ring buffer; the read loop of \<^verbatim>\<open>cmd/clawguard\<close>
  reassembles them from a pool of chunks; a complete write becomes an event, which the pipeline
  passes through plugin processes (processors and sinks) that speak length-prefixed JSON on their
  standard streams. Handlers of Docker events or Kubernetes pods decide which containers are hooked.

  \<^bold>\<open>From the probe to the event.\<close>
  \<open>Bpf_Probe\<close> is \<^verbatim>\<open>bpf/ssl_write.bpf.c\<close>: \<open>emit_from_buf\<close>, \<open>emit_one_frag\<close>, \<open>next_call_id\<close> over a user
  memory, a clock value and a predicate that tells when the ring buffer has room. \<open>Wire\<close> is the record
  and its decoding. \<open>Chunk_Pool\<close> and \<open>Frag_Slots\<close> are the two types of \<^verbatim>\<open>chunkpool.go\<close>; what the slots and
  the loop need of the pool is the locale \<open>chunk_store\<close> (theory \<open>Chunk_Store\<close>), interpreted on the pool as
  \<open>pool\<close>. \<open>Reassembly\<close> is \<^verbatim>\<open>readLoop\<close> of \<^verbatim>\<open>main.go\<close>: the state of the loop is a record, one iteration is a
  function of it and of what it reads from outside (clock, registry, cgroup files, the order of map
  ranges). \<open>Reassembly_Inv\<close> proves the ownership of chunks, \<open>Reassembly_Spec\<close> that one fragment refines
  an abstract machine over lists of fragments, \<open>Reassembly_Runs\<close> what any run of samples does to one
  write; \<open>Reassembly_Props\<close> states the properties. \<open>Capture\<close> and \<open>Capture_Props\<close> join probe and loop;
  \<open>Capture_Bound\<close> shows what the size of the pool means for a capture.
  \<open>Metrics\<close> are the counters that this code changes, \<open>Event\<close> the event and its copies (\<^verbatim>\<open>event.go\<close>).

  \<^bold>\<open>Which containers are hooked.\<close>
  \<open>Env_Filters\<close> parses the settings and filters, \<open>Container_Ids\<close> shortens, compares, splits and finds
  ids, \<open>Container_Watch\<close> is the registry \<^verbatim>\<open>containerWatch\<close>, \<open>Hook_Attach\<close> the attachment of uprobes
  (\<^verbatim>\<open>attachOpenSSL\<close>, \<^verbatim>\<open>go_tls.go\<close>, \<^verbatim>\<open>symbols.go\<close>), \<open>Container_Events\<close> the handlers and loops of the Docker and
  the Kubernetes mode, \<open>Container_Props\<close> their properties, \<open>Run_Modes\<close> the two modes as wholes. \<open>Registry_Steps\<close> has the registry as
  a step relation and every handler as a run of it: one goroutine, that of the mode, changes the registry, and the
  read loop looks into it under its mutex, so that all a look can depend on is the sequence of these steps; the
  moments in which a link exists but is not yet registered, or is taken out but not yet closed, show in no look and
  are not states of the model. \<open>Discovery\<close> finds
  the files to hook in a container's file system, \<open>Go_Discovery\<close> the executable of a Go program. \<open>Startup\<close> are the settings (\<^verbatim>\<open>init\<close>) and what \<^verbatim>\<open>main\<close> makes of
  them: the pool, the time to live, the limit that the probe reads. A uprobe link is a number: every link
  created gets the next one, so that \<open>hook_ok\<close> can say that none is lost.

  \<^bold>\<open>What happens to events.\<close>
  \<open>Config\<close> is \<^verbatim>\<open>internal/config\<close>, \<open>Frames\<close> the protocol of \<^verbatim>\<open>api/plugin/v1\<close>, \<open>Sdk\<close> the plugin's side
  (\<^verbatim>\<open>pkg/pluginsdk\<close>), \<open>Processors\<close> the two processors, \<open>Plugin_Client\<close> and \<open>Plugin_Manager\<close> the host's side
  (\<^verbatim>\<open>internal/pluginhost\<close>). \<open>Go_Chan\<close> are buffered channels, with the locale \<open>bounded_fifo\<close> for their clients;
  \<open>Pipeline\<close> (with \<open>Pipeline_Workers\<close>) the queues and workers of \<^verbatim>\<open>internal/pipeline\<close>; \<open>Reload\<close> what \<^verbatim>\<open>main\<close> starts and the \<^verbatim>\<open>SIGHUP\<close>
  handler. Goroutines are explicit: a schedule lists whose turn it is, and statements hold for every
  schedule. Where the end of a wait is stated, the schedule is fair: every worker gets turns enough for its queue. \<open>Plugin_Props\<close> and \<open>Pipeline_Props\<close> state the properties of host and pipeline.

  \<^bold>\<open>The plugins.\<close>
  \<open>Plugin_Contract\<close> has the locales \<open>plugin\<close>, \<open>sink_plugin\<close> and \<open>processor_plugin\<close>: what the host relies on of
  a plugin built with the library; each of the five shipped plugins interprets one of them. \<open>Sink_File\<close>,
  \<open>Sink_Otel\<close> and \<open>Sink_Debugws\<close> are the three sinks of \<^verbatim>\<open>cmd/clawguard-sink-*\<close>; the hub of the debug sink is a
  state machine whose steps are the turns of its goroutines, and a panic is a run without a result.
  \<open>Shipped_Plugins\<close> joins them with the host; \<open>Sink_Delivery\<close> follows an event from the queue through the
  client, the frames and the plugin's loop to the sink's state, and for the file sink to the disk. \<open>Agent\<close>
  is the running program: a step relation in which the read loop emits what it reassembles and the workers
  take turns, from a write in user memory to the file on disk. \<open>Plugin_Boot\<close> shows what a load leaves in
  the processes of the plugins, and \<open>Program\<close> is \<^verbatim>\<open>main\<close> from its arguments to its return: what it
  starts satisfies what the other theories assume, and what it leaves when its mode returns. \<open>World\<close> lets all
  goroutines interleave from that start, with \<^verbatim>\<open>Emit\<close> cut into the steps between which a reload or another goroutine
  can fall (the emit of \<open>Agent\<close>, one step there, is one of its runs: \<open>steps_emit\<close>), and proves the invariants of every state that is reached, by the
  locale of \<open>Step_Systems\<close> interpreted on the steps of the registry and on those of the program.

  \<^bold>\<open>Bounds and fuel.\<close>
  No definition runs on fuel. Retry loops carry the number of attempts of the code (50, 30, 20 or 4);
  \<open>bpf_loop\<close> carries the number of iterations given to the kernel helper, at most 2 to the power 20. Loops that wait
  for input (\<open>readLoop\<close>, \<open>docker_loop\<close>, \<open>watchPods\<close>, \<open>Serve\<close>) recurse over the list of what arrives.
  Machine integers are words; lengths in Go's \<^verbatim>\<open>int\<close> are natural numbers or integers.

  \<^bold>\<open>Parameters.\<close>
  JSON and YAML, the file system, Docker, Kubernetes, the ELF reader and the kernel are arguments of
  the definitions that use them; their documented behaviour is a hypothesis where a property needs it
  (for instance that what is encoded decodes to itself), and the witnesses instantiate it.

  \<^bold>\<open>Not modelled.\<close>
  A plugin that does not answer: \<^verbatim>\<open>ReadMessage\<close> has no timeout and waits. A call of the model is one that has ended, and
  the end of the stream is a read error; a call that never ends is a run in which no step follows for that goroutine, so
  what is stated of the end of a wait takes it that plugins answer. The panic of \<^verbatim>\<open>make\<close> for a pool or a queue beyond the address space.
  Log lines (but for the preview of a payload, \<open>Log_Preview\<close>), listening and sockets (\<open>Http_Routes\<close> has the routes of the two HTTP servers), the
  OpenTelemetry exporter, the construction of the Docker and Kubernetes clients. Floating point in \<^verbatim>\<open>time.ParseDuration\<close> is an argument.
\<close>

end
